(* ===== verification/Netmon_Prelude.thy ===== *)
theory Netmon_Prelude
  imports Main "HOL-Library.AList" "HOL-Library.Word" "HOL-Library.Code_Target_Numeral"
begin

text \<open>
  Shared vocabulary of the development: the machine types and the clock the sources use, the
  dictionaries that stand for the standard associative containers, suffixes of sequences, and the
  collections of rewrite rules the component theories extend.
\<close>

named_theorems time_simps \<open>arithmetic of time points that does not wrap\<close>
named_theorems dict_simps \<open>lookups in updated dictionaries\<close>
named_theorems frame_simps \<open>fields an operation leaves alone\<close>
named_theorems char_simps \<open>classification and conversion of characters\<close>

section \<open>Machine types and time points\<close>

type_synonym u16 = "16 word"
type_synonym u64 = "64 word"

text \<open>
  \<^verbatim>\<open>std::chrono::system_clock::time_point\<close> is a count of nanoseconds since the epoch in a signed
  64-bit integer. A value is kept as the \<open>int\<close> it represents and every operation that computes a new
  count wraps it to 64 bits (signed overflow is undefined in C++; two's complement is what the supported
  compilers produce). The default-constructed time point is \<open>0\<close>, which the sources use as ``not set''.
\<close>

type_synonym time = int

definition wrap64 :: "int \<Rightarrow> int" where
  "wrap64 x = (x + 2 ^ 63) mod 2 ^ 64 - 2 ^ 63"

definition tdiff :: "time \<Rightarrow> time \<Rightarrow> int" where
  "tdiff a b = wrap64 (a - b)"

definition ns_per_s :: int where
  "ns_per_s = 1000000000"

text \<open>The clock: the successive readings that one operation takes from \<^verbatim>\<open>nowSystem()\<close>.\<close>

type_synonym clock = "nat \<Rightarrow> time"

definition clock_from :: "nat \<Rightarrow> clock \<Rightarrow> clock" where
  "clock_from k clk = (\<lambda>i. clk (k + i))"

definition valid_time :: "time \<Rightarrow> bool" where
  "valid_time t \<longleftrightarrow> 0 \<le> t \<and> t < 2 ^ 63"

lemma clock_from_apply [simp]: "clock_from k clk i = clk (k + i)"
  by (simp add: clock_from_def)

lemma wrap64_id [time_simps]: "- (2 ^ 63) \<le> x \<Longrightarrow> x < 2 ^ 63 \<Longrightarrow> wrap64 x = x"
  by (simp add: wrap64_def)

lemma wrap64_range: "- (2 ^ 63) \<le> wrap64 x \<and> wrap64 x < 2 ^ 63"
proof -
  have "0 \<le> (x + 2 ^ 63) mod 2 ^ 64" "(x + 2 ^ 63) mod 2 ^ 64 < 2 ^ 64"
    by simp_all
  then show ?thesis
    by (simp add: wrap64_def)
qed

lemma tdiff_valid [time_simps]: "valid_time a \<Longrightarrow> valid_time b \<Longrightarrow> tdiff a b = a - b"
  by (auto simp: tdiff_def valid_time_def intro!: wrap64_id)

lemma tdiff_self [simp]: "tdiff a a = 0"
  by (simp add: tdiff_def wrap64_def)

section \<open>Dictionaries\<close>

text \<open>
  \<^verbatim>\<open>std::unordered_map\<close> and \<^verbatim>\<open>std::map\<close> are association lists without duplicate keys. The order of the
  list is the order in which the container is iterated; what the development proves about operations
  that iterate holds for every such order.
\<close>

type_synonym ('k, 'v) dict = "('k \<times> 'v) list"

abbreviation dget :: "('k, 'v) dict \<Rightarrow> 'k \<Rightarrow> 'v option" where
  "dget d k \<equiv> map_of d k"

abbreviation dput :: "'k \<Rightarrow> 'v \<Rightarrow> ('k, 'v) dict \<Rightarrow> ('k, 'v) dict" where
  "dput k v d \<equiv> AList.update k v d"

abbreviation derase :: "'k \<Rightarrow> ('k, 'v) dict \<Rightarrow> ('k, 'v) dict" where
  "derase k d \<equiv> AList.delete k d"

abbreviation dkeys :: "('k, 'v) dict \<Rightarrow> 'k set" where
  "dkeys d \<equiv> fst ` set d"

abbreviation dwf :: "('k, 'v) dict \<Rightarrow> bool" where
  "dwf d \<equiv> distinct (map fst d)"

text \<open>\<^verbatim>\<open>operator[]\<close> yields a default-constructed value for a missing key.\<close>

definition dget_or :: "('k, 'v) dict \<Rightarrow> 'k \<Rightarrow> 'v \<Rightarrow> 'v" where
  "dget_or d k v = (case dget d k of None \<Rightarrow> v | Some w \<Rightarrow> w)"

text \<open>The contract of a dictionary that its clients rely on.\<close>

locale dictionary =
  fixes lookup :: "'d \<Rightarrow> 'k \<Rightarrow> 'v option"
    and insert_at :: "'k \<Rightarrow> 'v \<Rightarrow> 'd \<Rightarrow> 'd"
    and remove :: "'k \<Rightarrow> 'd \<Rightarrow> 'd"
    and empty_dict :: "'d"
    and wf_dict :: "'d \<Rightarrow> bool"
  assumes lookup_empty: "lookup empty_dict k = None"
    and lookup_insert: "wf_dict d \<Longrightarrow> lookup (insert_at k v d) k' = (if k' = k then Some v else lookup d k')"
    and lookup_remove: "wf_dict d \<Longrightarrow> lookup (remove k d) k' = (if k' = k then None else lookup d k')"
    and wf_empty: "wf_dict empty_dict"
    and wf_insert: "wf_dict d \<Longrightarrow> wf_dict (insert_at k v d)"
    and wf_remove: "wf_dict d \<Longrightarrow> wf_dict (remove k d)"
begin

text \<open>Moving an entry to a new key, as the sources do with a node handle.\<close>

lemma lookup_move:
  "wf_dict d \<Longrightarrow> lookup (insert_at k' v (remove k d)) j =
     (if j = k' then Some v else if j = k then None else lookup d j)"
  by (simp add: lookup_insert lookup_remove wf_remove)

lemma wf_move: "wf_dict d \<Longrightarrow> wf_dict (insert_at k' v (remove k d))"
  by (simp add: wf_insert wf_remove)

text \<open>Entries that all satisfy a predicate still do after an update that respects it.\<close>

lemma all_insert:
  "wf_dict d \<Longrightarrow> (\<And>j w. lookup d j = Some w \<Longrightarrow> P j w) \<Longrightarrow> P k v \<Longrightarrow>
   lookup (insert_at k v d) j = Some w \<Longrightarrow> P j w"
  by (auto simp: lookup_insert split: if_splits)

lemma all_remove:
  "wf_dict d \<Longrightarrow> (\<And>j w. lookup d j = Some w \<Longrightarrow> P j w) \<Longrightarrow>
   lookup (remove k d) j = Some w \<Longrightarrow> P j w"
  by (auto simp: lookup_remove split: if_splits)

end

interpretation alist: dictionary dget dput derase "[]" dwf
  by unfold_locales (auto simp: update_conv' delete_conv' distinct_update distinct_delete)

lemma dget_dput [dict_simps]: "dget (dput k v d) k' = (if k' = k then Some v else dget d k')"
  by (simp add: update_conv')

lemma dget_derase [dict_simps]: "dget (derase k d) k' = (if k' = k then None else dget d k')"
  by (simp add: delete_conv')

lemma dkeys_iff: "k \<in> dkeys d \<longleftrightarrow> dget d k \<noteq> None"
  by (metis map_of_eq_None_iff)

lemma dkeys_dput [dict_simps]: "dkeys (dput k v d) = insert k (dkeys d)"
  by (simp add: dom_update)

lemma dkeys_derase [dict_simps]: "dkeys (derase k d) = dkeys d - {k}"
  by (simp add: set_eq_iff dkeys_iff dict_simps)

lemma dwf_dput [simp]: "dwf d \<Longrightarrow> dwf (dput k v d)"
  by (rule alist.wf_insert)

lemma dwf_derase [simp]: "dwf d \<Longrightarrow> dwf (derase k d)"
  by (rule alist.wf_remove)

section \<open>Suffixes of sequences\<close>

text \<open>The last \<open>n\<close> elements of a sequence: what a bounded buffer retains.\<close>

definition last_n :: "nat \<Rightarrow> 'a list \<Rightarrow> 'a list" where
  "last_n n xs = drop (length xs - n) xs"

lemma length_last_n [simp]: "length (last_n n xs) = min n (length xs)"
  by (simp add: last_n_def)

lemma last_n_0 [simp]: "last_n 0 xs = []"
  by (simp add: last_n_def)

lemma last_n_all: "length xs \<le> n \<Longrightarrow> last_n n xs = xs"
  by (simp add: last_n_def)

lemma last_n_append_snoc:
  assumes "0 < n"
  shows "last_n n (last_n n xs @ [x]) = last_n n (xs @ [x])"
proof (cases "length xs < n")
  case True
  then show ?thesis by (simp add: last_n_all)
next
  case False
  then have "length (last_n n xs @ [x]) - n = 1" and "Suc (length xs) - n = Suc (length xs - n)"
    by auto
  with assms False show ?thesis
    by (simp add: last_n_def)
qed

lemma set_last_n_subset: "set (last_n n xs) \<subseteq> set xs"
  by (simp add: last_n_def set_drop_subset)

section \<open>Transition systems\<close>

text \<open>
  The states a system reaches, and the contract of an invariant: it holds initially and every step
  keeps it.
\<close>

inductive reach :: "('s \<Rightarrow> bool) \<Rightarrow> ('s \<Rightarrow> 's \<Rightarrow> bool) \<Rightarrow> 's \<Rightarrow> bool" for start step where
  init: "start s \<Longrightarrow> reach start step s"
| step: "reach start step s \<Longrightarrow> step s t \<Longrightarrow> reach start step t"

locale invariant_system =
  fixes start :: "'s \<Rightarrow> bool" and step :: "'s \<Rightarrow> 's \<Rightarrow> bool" and inv :: "'s \<Rightarrow> bool"
  assumes inv_start: "start s \<Longrightarrow> inv s"
    and inv_step: "inv s \<Longrightarrow> step s t \<Longrightarrow> inv t"
begin

lemma reach_inv: "reach start step s \<Longrightarrow> inv s"
  by (induction rule: reach.induct) (auto intro: inv_start inv_step)

lemma steps_inv: "step\<^sup>*\<^sup>* s t \<Longrightarrow> inv s \<Longrightarrow> inv t"
  by (induction rule: rtranclp_induct) (auto intro: inv_step)

end

end
