(* ===== verification/Netmon_Utils.thy ===== *)
theory Netmon_Utils
  imports Netmon_Prelude "HOL-Library.Sublist"
begin

text \<open>
  The string helpers of \<^verbatim>\<open>src/utils.cpp\<close>: trimming and case conversion, comment and quote stripping,
  number and boolean parsing, line bounding, splitting, JSON escaping and the key-value field parser.
  A \<^verbatim>\<open>std::string\<close> is the list of its bytes; the character classes are those of the ``C'' locale, which
  the program never leaves.
\<close>

section \<open>Characters\<close>

abbreviation code :: "char \<Rightarrow> nat" where
  "code c \<equiv> of_char c"

definition isspace :: "char \<Rightarrow> bool" where
  "isspace c \<longleftrightarrow> code c = 32 \<or> 9 \<le> code c \<and> code c \<le> 13"

definition isdigit :: "char \<Rightarrow> bool" where
  "isdigit c \<longleftrightarrow> 48 \<le> code c \<and> code c \<le> 57"

definition tolower :: "char \<Rightarrow> char" where
  "tolower c = (if 65 \<le> code c \<and> code c \<le> 90 then char_of (code c + 32) else c)"

definition toupper :: "char \<Rightarrow> char" where
  "toupper c = (if 97 \<le> code c \<and> code c \<le> 122 then char_of (code c - 32) else c)"

abbreviation dquote :: char where
  "dquote \<equiv> CHR 0x22"

abbreviation squote :: char where
  "squote \<equiv> CHR 0x27"

abbreviation backslash :: char where
  "backslash \<equiv> CHR 0x5C"

section \<open>Searching\<close>

text \<open>\<^verbatim>\<open>find\<close> of a character or of a string: the first position, \<open>None\<close> for \<^verbatim>\<open>npos\<close>.\<close>

fun find_char :: "char \<Rightarrow> string \<Rightarrow> nat option" where
  "find_char d [] = None"
| "find_char d (c # cs) = (if c = d then Some 0 else map_option Suc (find_char d cs))"

fun find_str :: "string \<Rightarrow> string \<Rightarrow> nat option" where
  "find_str pat [] = (if pat = [] then Some 0 else None)"
| "find_str pat (c # cs) =
     (if prefix pat (c # cs) then Some 0 else map_option Suc (find_str pat cs))"

definition contains_str :: "string \<Rightarrow> string \<Rightarrow> bool" where
  "contains_str pat s \<longleftrightarrow> find_str pat s \<noteq> None"

section \<open>Trimming, case and quotes\<close>

definition trim :: "string \<Rightarrow> string" where
  "trim value = rev (dropWhile isspace (rev (dropWhile isspace value)))"

definition lower :: "string \<Rightarrow> string" where
  "lower value = map tolower value"

definition upper :: "string \<Rightarrow> string" where
  "upper value = map toupper value"

fun comment_cut :: "bool \<Rightarrow> bool \<Rightarrow> string \<Rightarrow> string" where
  "comment_cut in_single in_double [] = []"
| "comment_cut in_single in_double (ch # rest) =
     (if ch = squote \<and> \<not> in_double then ch # comment_cut (\<not> in_single) in_double rest
      else if ch = dquote \<and> \<not> in_single then ch # comment_cut in_single (\<not> in_double) rest
      else if ch = CHR ''#'' \<and> \<not> in_single \<and> \<not> in_double then []
      else ch # comment_cut in_single in_double rest)"

definition stripInlineComment :: "string \<Rightarrow> string" where
  "stripInlineComment value = trim (comment_cut False False value)"

definition stripQuotes :: "string \<Rightarrow> string" where
  "stripQuotes value =
     (let out = trim value
      in if 2 \<le> length out
           \<and> (hd out = dquote \<and> last out = dquote \<or> hd out = squote \<and> last out = squote)
         then butlast (tl out) else out)"

section \<open>Numbers and booleans\<close>

definition parseBool :: "string \<Rightarrow> bool \<Rightarrow> bool" where
  "parseBool value fallback =
     (let normalized = lower (trim value)
      in if normalized = ''true'' \<or> normalized = ''yes'' \<or> normalized = ''on'' \<or> normalized = ''1'' then True
         else if normalized = ''false'' \<or> normalized = ''no'' \<or> normalized = ''off'' \<or> normalized = ''0''
         then False
         else fallback)"

definition digit_val :: "char \<Rightarrow> nat" where
  "digit_val c = code c - 48"

definition nat_of_digits :: "string \<Rightarrow> nat" where
  "nat_of_digits ds = foldl (\<lambda>a c. 10 * a + digit_val c) 0 ds"

text \<open>
  \<^verbatim>\<open>std::from_chars\<close> in base ten: the error code, the unread rest and the value. The longest run of
  digits is read; an optional minus sign is accepted for signed types only.
\<close>

datatype errc = NoError | InvalidArgument | ResultOutOfRange

definition from_chars_u64 :: "string \<Rightarrow> errc \<times> string \<times> u64" where
  "from_chars_u64 s =
     (let ds = takeWhile isdigit s; rest = dropWhile isdigit s; n = nat_of_digits ds
      in if ds = [] then (InvalidArgument, s, 0)
         else if n < 2 ^ 64 then (NoError, rest, of_nat n)
         else (ResultOutOfRange, rest, 0))"

definition from_chars_int :: "string \<Rightarrow> errc \<times> string \<times> int" where
  "from_chars_int s =
     (let neg = (case s of c # _ \<Rightarrow> c = CHR ''-'' | [] \<Rightarrow> False);
          body = (if neg then tl s else s);
          ds = takeWhile isdigit body; rest = dropWhile isdigit body;
          n = (if neg then - int (nat_of_digits ds) else int (nat_of_digits ds))
      in if ds = [] then (InvalidArgument, s, 0)
         else if - (2 ^ 31) \<le> n \<and> n < 2 ^ 31 then (NoError, rest, n)
         else (ResultOutOfRange, rest, 0))"

definition parseUint64 :: "string \<Rightarrow> u64 \<Rightarrow> u64" where
  "parseUint64 value fallback =
     (case from_chars_u64 (trim value) of
        (ec, rest, parsed) \<Rightarrow> if ec = NoError \<and> rest = [] then parsed else fallback)"

definition parseInt :: "string \<Rightarrow> int \<Rightarrow> int" where
  "parseInt value fallback =
     (case from_chars_int (trim value) of
        (ec, rest, parsed) \<Rightarrow> if ec = NoError \<and> rest = [] then parsed else fallback)"

text \<open>\<^verbatim>\<open>std::ostream << n\<close> and \<^verbatim>\<open>std::to_string(n)\<close> for unsigned integers.\<close>

fun show_nat :: "nat \<Rightarrow> string" where
  "show_nat n = (if n < 10 then [char_of (48 + n)] else show_nat (n div 10) @ [char_of (48 + n mod 10)])"

declare show_nat.simps [simp del]

section \<open>Lines and lists\<close>

definition boundedLine :: "string \<Rightarrow> nat \<Rightarrow> string option" where
  "boundedLine line max_length =
     (if max_length < length line then None
      else Some (rev (dropWhile (\<lambda>c. c = CHR 0x0A \<or> c = CHR 0x0D \<or> c = CHR 0x00) (rev line))))"

function split :: "string \<Rightarrow> char \<Rightarrow> string list" where
  "split value delimiter =
     (case find_char delimiter value of
        None \<Rightarrow> [value]
      | Some pos \<Rightarrow> take pos value # split (drop (Suc pos) value) delimiter)"
  by pat_completeness auto

lemma find_char_bound: "find_char d s = Some i \<Longrightarrow> i < length s"
  by (induction s arbitrary: i) (auto split: if_splits)

termination split
  by (relation "measure (\<lambda>(value, delimiter). length value)") (auto dest: find_char_bound)

declare split.simps [simp del]

definition fromUnixSeconds :: "int \<Rightarrow> time" where
  "fromUnixSeconds seconds = wrap64 (seconds * ns_per_s)"

section \<open>JSON strings\<close>

definition hex_digit :: "nat \<Rightarrow> char" where
  "hex_digit n = (if n < 10 then char_of (48 + n) else char_of (87 + n))"

definition json_escape_char :: "char \<Rightarrow> string" where
  "json_escape_char ch =
     (if ch = dquote then [backslash, dquote]
      else if ch = backslash then [backslash, backslash]
      else if ch = CHR 0x08 then [backslash, CHR ''b'']
      else if ch = CHR 0x0C then [backslash, CHR ''f'']
      else if ch = CHR 0x0A then [backslash, CHR ''n'']
      else if ch = CHR 0x0D then [backslash, CHR ''r'']
      else if ch = CHR 0x09 then [backslash, CHR ''t'']
      else if code ch < 32
      then [backslash, CHR ''u'', CHR ''0'', CHR ''0'', hex_digit (code ch div 16), hex_digit (code ch mod 16)]
      else [ch])"

definition jsonEscape :: "string \<Rightarrow> string" where
  "jsonEscape value = concat (map json_escape_char value)"

definition jsonQuote :: "string \<Rightarrow> string" where
  "jsonQuote value = dquote # jsonEscape value @ [dquote]"

section \<open>Key-value fields\<close>

type_synonym fields = "(string, string) dict"

definition kv_key_char :: "char \<Rightarrow> bool" where
  "kv_key_char c \<longleftrightarrow> c \<noteq> CHR ''='' \<and> \<not> isspace c"

text \<open>A value after the equals sign: quoted up to the closing quote, or up to the next space.\<close>

definition kv_value :: "string \<Rightarrow> string \<times> string" where
  "kv_value s =
     (case s of
        quote # body \<Rightarrow>
          if quote = dquote \<or> quote = squote
          then (takeWhile (\<lambda>c. c \<noteq> quote) body, drop 1 (dropWhile (\<lambda>c. c \<noteq> quote) body))
          else (takeWhile (\<lambda>c. \<not> isspace c) s, dropWhile (\<lambda>c. \<not> isspace c) s)
      | [] \<Rightarrow> ([], []))"

lemma length_dropWhile_less: "xs \<noteq> [] \<Longrightarrow> P (hd xs) \<Longrightarrow> length (dropWhile P xs) < length xs"
  by (cases xs) (auto simp: less_Suc_eq_le length_dropWhile_le)

lemma kv_value_shorter: "length (snd (kv_value s)) \<le> length s"
proof (cases s)
  case (Cons q body)
  have "length (dropWhile P body) - Suc 0 \<le> Suc (length body)" for P
    using length_dropWhile_le [of P body] by linarith
  with Cons show ?thesis
    using length_dropWhile_le [of "\<lambda>c. \<not> isspace c" body] by (auto simp: kv_value_def)
qed (simp add: kv_value_def)

lemma kv_skip_shorter:
  assumes "dropWhile isspace s \<noteq> []" "dropWhile kv_key_char (dropWhile isspace s) = c # s3" "c \<noteq> CHR ''=''"
  shows "length (c # s3) < length s"
proof -
  have "\<not> isspace (hd (dropWhile isspace s))"
    using assms(1) by (rule hd_dropWhile)
  moreover have "hd (dropWhile isspace s) \<noteq> CHR ''=''"
    using assms by (cases "dropWhile isspace s") (auto simp: kv_key_char_def split: if_splits)
  ultimately have "length (c # s3) < length (dropWhile isspace s)"
    using length_dropWhile_less [of "dropWhile isspace s" kv_key_char] assms(1,2)
    by (simp add: kv_key_char_def)
  also have "\<dots> \<le> length s" by (rule length_dropWhile_le)
  finally show ?thesis .
qed

lemma kv_rest_shorter:
  assumes "dropWhile kv_key_char (dropWhile isspace s) = c # s3"
  shows "length s3 < length s"
  using length_dropWhile_le [of kv_key_char "dropWhile isspace s"] length_dropWhile_le [of isspace s] assms
  by simp

function kv_loop :: "string \<Rightarrow> fields \<Rightarrow> fields" where
  "kv_loop s fields =
     (let s1 = dropWhile isspace s
      in if s1 = [] then fields
         else let key = takeWhile kv_key_char s1; s2 = dropWhile kv_key_char s1
              in case s2 of
                   [] \<Rightarrow> fields
                 | c # s3 \<Rightarrow>
                     if c \<noteq> CHR ''='' then kv_loop (dropWhile (\<lambda>c. \<not> isspace c) s2) fields
                     else if key = ''csv'' then dput key (trim s3) fields
                     else let (v, s4) = kv_value s3 in kv_loop s4 (dput key v fields))"
  by pat_completeness auto
termination kv_loop
proof (relation "measure (length \<circ> fst)", goal_cases)
  case (2 s fields s1 key s2 c s3)
  then show ?case
    using kv_skip_shorter [of s c s3] length_dropWhile_le [of "\<lambda>c. \<not> isspace c" "c # s3"] by simp
next
  case (3 s fields s1 key s2 c s3 p v s4)
  then have "snd (kv_value s3) = s4" by (metis snd_conv)
  with 3 show ?case
    using kv_rest_shorter [of s c s3] kv_value_shorter [of s3] by simp
qed simp

declare kv_loop.simps [simp del]

definition parseKeyValueFields :: "string \<Rightarrow> fields" where
  "parseKeyValueFields value = kv_loop value []"

section \<open>Properties of trimming and case conversion\<close>

lemma trim_Nil [simp]: "trim [] = []"
  by (simp add: trim_def)

lemma trim_decomp:
  obtains a b where "s = a @ trim s @ b" "list_all isspace a" "list_all isspace b"
proof -
  define m where "m = dropWhile isspace s"
  have "m = trim s @ rev (takeWhile isspace (rev m))"
    unfolding trim_def m_def [symmetric]
    by (metis rev_append rev_rev_ident takeWhile_dropWhile_id)
  moreover have "s = takeWhile isspace s @ m"
    by (simp add: m_def)
  ultimately have "s = takeWhile isspace s @ trim s @ rev (takeWhile isspace (rev m))"
    by simp
  moreover have "list_all isspace (takeWhile isspace s)" "list_all isspace (rev (takeWhile isspace (rev m)))"
    by (auto simp: list_all_iff dest: set_takeWhileD)
  ultimately show thesis by (rule that)
qed

lemma dropWhile_rev_dropWhile:
  "dropWhile P (rev (dropWhile P (rev (dropWhile P xs)))) = rev (dropWhile P (rev (dropWhile P xs)))"
proof (cases "rev (dropWhile P (rev (dropWhile P xs)))")
  case Nil
  then show ?thesis by (simp only: dropWhile.simps)
next
  case (Cons y ys)
  obtain zs where "dropWhile P xs = rev (dropWhile P (rev (dropWhile P xs))) @ zs"
    by (metis rev_append rev_rev_ident takeWhile_dropWhile_id)
  with Cons have "dropWhile P xs = y # ys @ zs" by simp
  then have "\<not> P y" by (metis hd_dropWhile list.sel(1) list.distinct(1))
  with Cons show ?thesis by simp
qed

lemma trim_ends:
  assumes "trim s \<noteq> []"
  shows "\<not> isspace (hd (trim s))" and "\<not> isspace (last (trim s))"
proof -
  have "dropWhile isspace (trim s) = trim s"
    unfolding trim_def by (rule dropWhile_rev_dropWhile)
  with assms show "\<not> isspace (hd (trim s))"
    by (metis hd_dropWhile)
  show "\<not> isspace (last (trim s))"
    using assms hd_dropWhile [of isspace "rev (dropWhile isspace s)"]
    by (simp add: trim_def last_rev)
qed

lemma trim_id: "s \<noteq> [] \<Longrightarrow> \<not> isspace (hd s) \<Longrightarrow> \<not> isspace (last s) \<Longrightarrow> trim s = s"
  by (simp add: trim_def dropWhile_eq_self_iff [THEN iffD2] hd_rev)

lemma trim_trim [simp]: "trim (trim s) = trim s"
  by (cases "trim s = []") (auto intro: trim_id dest: trim_ends)

lemma trim_no_space: "list_all (\<lambda>c. \<not> isspace c) s \<Longrightarrow> trim s = s"
  by (cases "s = []") (auto simp: list_all_iff intro!: trim_id)

lemma set_trim_subset: "set (trim s) \<subseteq> set s"
  by (rule trim_decomp [of s]) (metis Un_iff set_append subsetI)

lemma length_trim_le: "length (trim s) \<le> length s"
  by (rule trim_decomp [of s]) (metis add.commute le_add1 length_append trans_le_add1)

lemma code_less: "code c < 256"
  by simp

lemma code_char_of [simp]: "n < 256 \<Longrightarrow> code (char_of n) = n"
  by simp

lemma tolower_tolower [simp]: "tolower (tolower c) = tolower c"
  by (simp add: tolower_def)

lemma lower_lower [simp]: "lower (lower s) = lower s"
  by (simp add: lower_def)

lemma lower_Nil_iff [simp]: "lower s = [] \<longleftrightarrow> s = []"
  by (simp add: lower_def)

lemma length_lower [simp]: "length (lower s) = length s"
  by (simp add: lower_def)

section \<open>Properties of searching and splitting\<close>

lemma find_char_None: "find_char d s = None \<longleftrightarrow> d \<notin> set s"
  by (induction s) auto

lemma find_char_Some:
  "find_char d s = Some i \<Longrightarrow> d \<notin> set (take i s) \<and> s = take i s @ d # drop (Suc i) s"
  by (induction s arbitrary: i) (auto split: if_splits)

lemma find_char_append: "d \<notin> set a \<Longrightarrow> find_char d (a @ d # b) = Some (length a)"
  by (induction a) auto

lemma find_str_Some:
  "find_str pat s = Some i \<Longrightarrow> i + length pat \<le> length s \<and> prefix pat (drop i s)"
proof (induction s arbitrary: i)
  case (Cons c cs)
  then show ?case
    by (fastforce split: if_splits dest: prefix_length_le)
qed (auto split: if_splits)

lemma contains_str_iff: "contains_str pat s \<longleftrightarrow> sublist pat s"
  by (induction s) (auto simp: contains_str_def sublist_Cons_right split: if_splits)

text \<open>Joining parts with a separator, the inverse of \<open>split\<close>.\<close>

fun join_with :: "char \<Rightarrow> string list \<Rightarrow> string" where
  "join_with d [] = []"
| "join_with d [p] = p"
| "join_with d (p # q # ps) = p @ d # join_with d (q # ps)"

lemma split_Nil [simp]: "split [] d = [[]]"
  by (simp add: split.simps)

lemma split_nonempty [simp]: "split s d \<noteq> []"
  by (subst split.simps) (simp split: option.split)

lemma join_with_Cons: "ps \<noteq> [] \<Longrightarrow> join_with d (p # ps) = p @ d # join_with d ps"
  by (cases ps) simp_all

lemma join_split: "join_with d (split s d) = s"
proof (induction s d rule: split.induct)
  case (1 s d)
  show ?case
  proof (cases "find_char d s")
    case None
    then show ?thesis by (simp add: split.simps [of s d])
  next
    case (Some i)
    with "1.IH" have "join_with d (split (drop (Suc i) s) d) = drop (Suc i) s" by simp
    with Some show ?thesis
      using find_char_Some [OF Some] by (simp add: split.simps [of s d] join_with_Cons)
  qed
qed

lemma split_parts_free: "p \<in> set (split s d) \<Longrightarrow> d \<notin> set p"
proof (induction s d rule: split.induct)
  case (1 s d)
  then show ?case
    by (cases "find_char d s") (auto simp: split.simps [of s d] find_char_None dest: find_char_Some)
qed

lemma split_append: "d \<notin> set a \<Longrightarrow> split (a @ d # b) d = a # split b d"
  by (subst split.simps) (simp add: find_char_append)

lemma split_free: "d \<notin> set a \<Longrightarrow> split a d = [a]"
  by (subst split.simps) (simp add: find_char_None [THEN iffD2])

lemma split_join: "ps \<noteq> [] \<Longrightarrow> (\<And>p. p \<in> set ps \<Longrightarrow> d \<notin> set p) \<Longrightarrow> split (join_with d ps) d = ps"
  by (induction d ps rule: join_with.induct) (simp_all add: split_free split_append)

section \<open>Properties of numbers\<close>

lemma nat_of_digits_append: "nat_of_digits (a @ [c]) = 10 * nat_of_digits a + digit_val c"
  by (simp add: nat_of_digits_def)

lemma digit_char [simp]: "n < 10 \<Longrightarrow> isdigit (char_of (48 + n))" "n < 10 \<Longrightarrow> digit_val (char_of (48 + n)) = n"
  by (simp_all add: isdigit_def digit_val_def)

lemma isdigit_not_space: "isdigit c \<Longrightarrow> \<not> isspace c"
  by (auto simp: isdigit_def isspace_def)

lemma show_nat_digits: "list_all isdigit (show_nat n)"
proof (induction n rule: show_nat.induct)
  case (1 n)
  then show ?case by (subst show_nat.simps) simp
qed

lemma show_nat_nonempty [simp]: "show_nat n \<noteq> []"
  by (subst show_nat.simps) simp

lemma nat_of_digits_show [simp]: "nat_of_digits (show_nat n) = n"
proof (induction n rule: show_nat.induct)
  case (1 n)
  show ?case
  proof (cases "n < 10")
    case True
    then show ?thesis by (subst show_nat.simps) (simp add: nat_of_digits_def)
  next
    case False
    with 1 show ?thesis by (subst show_nat.simps) (simp add: nat_of_digits_append)
  qed
qed

lemma show_nat_inj [simp]: "show_nat m = show_nat n \<longleftrightarrow> m = n"
  by (metis nat_of_digits_show)

lemma trim_digits: "list_all isdigit s \<Longrightarrow> trim s = s"
  by (rule trim_no_space) (auto simp: list_all_iff dest: isdigit_not_space)

text \<open>What the number parsers accept.\<close>

lemma parseUint64_iff:
  "parseUint64 value fallback =
     (if trim value \<noteq> [] \<and> list_all isdigit (trim value) \<and> nat_of_digits (trim value) < 2 ^ 64
      then of_nat (nat_of_digits (trim value)) else fallback)"
proof (cases "list_all isdigit (trim value)")
  case True
  then have digits: "takeWhile isdigit (trim value) = trim value" "dropWhile isdigit (trim value) = []"
    by (auto simp: takeWhile_eq_all_conv dropWhile_eq_Nil_conv list_all_iff)
  from True show ?thesis
    unfolding parseUint64_def from_chars_u64_def Let_def digits by simp
next
  case False
  then have "dropWhile isdigit (trim value) \<noteq> []"
    by (auto simp: dropWhile_eq_Nil_conv list_all_iff)
  with False show ?thesis
    by (auto simp: parseUint64_def from_chars_u64_def Let_def)
qed

lemma parseUint64_show: "n < 2 ^ 64 \<Longrightarrow> parseUint64 (show_nat n) fallback = of_nat n"
  by (simp add: parseUint64_iff show_nat_digits trim_digits)

lemma parseInt_range:
  "- (2 ^ 31) \<le> fallback \<Longrightarrow> fallback < 2 ^ 31 \<Longrightarrow>
   - (2 ^ 31) \<le> parseInt value fallback \<and> parseInt value fallback < 2 ^ 31"
  by (simp add: parseInt_def from_chars_int_def Let_def split: prod.split)

lemma boundedLine_Some:
  assumes "boundedLine line max_length = Some out"
  shows "length out \<le> max_length" and "prefix out line"
    and "out \<noteq> [] \<Longrightarrow> last out \<notin> {CHR 0x0A, CHR 0x0D, CHR 0x00}"
proof -
  define term_char where "term_char = (\<lambda>c. c = CHR 0x0A \<or> c = CHR 0x0D \<or> c = CHR 0x00)"
  from assms have len: "length line \<le> max_length" and out: "out = rev (dropWhile term_char (rev line))"
    by (auto simp: boundedLine_def term_char_def split: if_splits)
  show "length out \<le> max_length"
    using len length_dropWhile_le [of term_char "rev line"] by (simp add: out)
  have "line = out @ rev (takeWhile term_char (rev line))"
    unfolding out by (metis rev_append rev_rev_ident takeWhile_dropWhile_id)
  then show "prefix out line" by (metis prefixI)
  show "last out \<notin> {CHR 0x0A, CHR 0x0D, CHR 0x00}" if "out \<noteq> []"
    using that hd_dropWhile [of term_char "rev line"] by (auto simp: out last_rev term_char_def)
qed

section \<open>Escaping and reading back\<close>

text \<open>
  The contract between a writer that escapes a string character by character and a reader that stops at
  a delimiter. \<open>read_until\<close> is such a reader over a decoder of single characters.
\<close>

fun read_until :: "nat \<Rightarrow> (string \<Rightarrow> (char \<times> string) option) \<Rightarrow> char \<Rightarrow> string \<Rightarrow> (string \<times> string) option" where
  "read_until 0 dec stop s = None"
| "read_until (Suc n) dec stop s =
     (case s of
        [] \<Rightarrow> None
      | c # cs \<Rightarrow>
          if c = stop then Some ([], cs)
          else case dec s of
                 None \<Rightarrow> None
               | Some (x, rest) \<Rightarrow> map_option (\<lambda>(y, r). (x # y, r)) (read_until n dec stop rest))"

locale escaping =
  fixes enc :: "char \<Rightarrow> string" and dec :: "string \<Rightarrow> (char \<times> string) option" and stop :: char
  assumes dec_enc: "dec (enc c @ rest) = Some (c, rest)"
    and enc_nonempty: "enc c \<noteq> []"
    and enc_head: "hd (enc c) \<noteq> stop"
begin

lemma read_until_encoded:
  "length s < n \<Longrightarrow> read_until n dec stop (concat (map enc s) @ stop # rest) = Some (s, rest)"
proof (induction s arbitrary: n)
  case Nil
  then show ?case by (cases n) simp_all
next
  case (Cons c s)
  then obtain m where n: "n = Suc m" and m: "length s < m" by (cases n) auto
  obtain e es where e: "enc c = e # es" using enc_nonempty [of c] by (cases "enc c") auto
  then have "e \<noteq> stop" using enc_head [of c] by simp
  moreover have "dec (e # es @ concat (map enc s) @ stop # rest) = Some (c, concat (map enc s) @ stop # rest)"
    using dec_enc [of c "concat (map enc s) @ stop # rest"] by (simp add: e)
  ultimately show ?case
    using Cons.IH [OF m] by (simp add: n e)
qed

lemma enc_inj: "concat (map enc s) = concat (map enc t) \<Longrightarrow> s = t"
  using read_until_encoded [of s "Suc (max (length s) (length t))" "[]"]
        read_until_encoded [of t "Suc (max (length s) (length t))" "[]"]
  by simp

end

text \<open>A reader for the characters of a JSON string (RFC 8259), on bytes.\<close>

definition hex_val :: "char \<Rightarrow> nat option" where
  "hex_val c = (if isdigit c then Some (code c - 48)
                else if 97 \<le> code c \<and> code c \<le> 102 then Some (code c - 87)
                else if 65 \<le> code c \<and> code c \<le> 70 then Some (code c - 55) else None)"

fun json_dec :: "string \<Rightarrow> (char \<times> string) option" where
  "json_dec [] = None"
| "json_dec (c # s) =
     (if code c < 32 then None
      else if c \<noteq> backslash then Some (c, s)
      else case s of
             [] \<Rightarrow> None
           | e # t \<Rightarrow>
               if e = dquote \<or> e = backslash \<or> e = CHR ''/'' then Some (e, t)
               else if e = CHR ''b'' then Some (CHR 0x08, t)
               else if e = CHR ''f'' then Some (CHR 0x0C, t)
               else if e = CHR ''n'' then Some (CHR 0x0A, t)
               else if e = CHR ''r'' then Some (CHR 0x0D, t)
               else if e = CHR ''t'' then Some (CHR 0x09, t)
               else if e = CHR ''u'' then
                 (case t of
                    h1 # h2 # h3 # h4 # u \<Rightarrow>
                      (case (hex_val h1, hex_val h2, hex_val h3, hex_val h4) of
                         (Some 0, Some 0, Some a, Some b) \<Rightarrow> Some (char_of (16 * a + b), u)
                       | _ \<Rightarrow> None)
                  | _ \<Rightarrow> None)
               else None)"

lemma hex_val_digit [simp]: "n < 16 \<Longrightarrow> hex_val (hex_digit n) = Some n"
  by (auto simp: hex_val_def hex_digit_def isdigit_def)

lemma hex_val_0 [simp]: "hex_val (CHR ''0'') = Some 0"
  by (simp add: hex_val_def isdigit_def)

lemma json_dec_enc: "json_dec (json_escape_char c @ rest) = Some (c, rest)"
proof (cases "json_escape_char c = [c]")
  case True
  then show ?thesis by (auto simp: json_escape_char_def split: if_splits)
next
  case False
  have "16 * (code c div 16) + code c mod 16 = code c" by simp
  then have "char_of (16 * (code c div 16) + code c mod 16) = c" by simp
  moreover have "code c div 16 < 16" using code_less [of c] by linarith
  ultimately show ?thesis
    using False by (simp add: json_escape_char_def split: if_splits)
qed

interpretation json_string: escaping json_escape_char json_dec dquote
  by unfold_locales (auto simp: json_dec_enc json_escape_char_def)

section \<open>Reading back key-value fields\<close>

text \<open>A pair the collectors write as \<^verbatim>\<open>key=value\<close> without quotes, and a line of such pairs.\<close>

definition plain_pair :: "string \<times> string \<Rightarrow> bool" where
  "plain_pair p \<longleftrightarrow> (case p of (k, v) \<Rightarrow>
     list_all kv_key_char k \<and> k \<noteq> ''csv'' \<and> list_all (\<lambda>c. \<not> isspace c) v
     \<and> (v = [] \<or> hd v \<noteq> dquote \<and> hd v \<noteq> squote))"

definition render_pair :: "string \<times> string \<Rightarrow> string" where
  "render_pair p = fst p @ CHR ''='' # snd p"

definition render_fields :: "(string \<times> string) list \<Rightarrow> string" where
  "render_fields kvs = join_with (CHR '' '') (map render_pair kvs)"

lemma isspace_space [simp]: "isspace (CHR '' '')" and isspace_eq [simp]: "\<not> isspace (CHR ''='')"
  by (simp_all add: isspace_def)

lemma kv_loop_space: "isspace c \<Longrightarrow> kv_loop (c # s) fields = kv_loop s fields"
  by (simp add: kv_loop.simps [of "c # s"] kv_loop.simps [of s])

lemma kv_loop_Nil [simp]: "kv_loop [] fields = fields"
  by (simp add: kv_loop.simps)

lemma kv_value_plain:
  assumes "list_all (\<lambda>c. \<not> isspace c) v" "v = [] \<or> hd v \<noteq> dquote \<and> hd v \<noteq> squote"
    and "rest = [] \<or> hd rest = CHR '' ''"
  shows "kv_value (v @ rest) = (v, rest)"
proof -
  have tw: "takeWhile (\<lambda>c. \<not> isspace c) (v @ rest) = v" "dropWhile (\<lambda>c. \<not> isspace c) (v @ rest) = rest"
    using assms(1,3) by (cases rest; auto simp: list_all_iff takeWhile_append dropWhile_append)+
  show ?thesis
  proof (cases "v @ rest")
    case Nil
    then show ?thesis by (simp add: kv_value_def)
  next
    case (Cons q body)
    moreover have "q \<noteq> dquote \<and> q \<noteq> squote"
      using assms(2,3) Cons by (cases v) auto
    ultimately show ?thesis
      using tw by (simp add: kv_value_def)
  qed
qed

lemma kv_loop_pair:
  assumes "plain_pair (k, v)" "rest = [] \<or> hd rest = CHR '' ''"
  shows "kv_loop (k @ CHR ''='' # v @ rest) fields = kv_loop rest (dput k v fields)"
proof -
  let ?s = "k @ CHR ''='' # v @ rest"
  have k: "list_all kv_key_char k" "k \<noteq> ''csv''" using assms(1) by (simp_all add: plain_pair_def)
  have "\<not> isspace (hd ?s)"
    using k(1) by (cases k) (simp_all add: kv_key_char_def)
  then have s: "dropWhile isspace ?s = ?s"
    by (simp add: dropWhile_eq_self_iff)
  have key: "takeWhile kv_key_char ?s = k" "dropWhile kv_key_char ?s = CHR ''='' # v @ rest"
    using k(1) by (simp_all add: list_all_iff takeWhile_append dropWhile_append kv_key_char_def)
  have val: "kv_value (v @ rest) = (v, rest)"
    using assms by (intro kv_value_plain) (simp_all add: plain_pair_def)
  show ?thesis
    by (subst kv_loop.simps) (simp only: s Let_def key list.case, simp add: k(2) val)
qed

lemma kv_loop_render:
  "list_all plain_pair kvs \<Longrightarrow>
   kv_loop (render_fields kvs) fields = fold (\<lambda>(k, v). dput k v) kvs fields"
proof (induction kvs arbitrary: fields)
  case Nil
  then show ?case by (simp add: render_fields_def)
next
  case (Cons p kvs)
  obtain k v where p: "p = (k, v)" by (cases p)
  show ?case
  proof (cases kvs)
    case Nil
    with Cons.prems kv_loop_pair [of k v "[]" fields] show ?thesis
      by (simp add: p render_fields_def render_pair_def)
  next
    case (Cons p' kvs')
    then have "render_fields (p # kvs) = k @ CHR ''='' # v @ CHR '' '' # render_fields kvs"
      by (simp add: p render_fields_def render_pair_def)
    with Cons.prems Cons.IH kv_loop_pair [of k v "CHR '' '' # render_fields kvs" fields]
    show ?thesis by (simp add: p kv_loop_space)
  qed
qed

lemma map_of_fold_dput: "map_of (fold (\<lambda>(k, v). dput k v) kvs d) = map_of d ++ map_of (rev kvs)"
  by (induction kvs arbitrary: d) (auto simp: update_conv')

section \<open>Round trips\<close>

text \<open>
  A quoted JSON string is safe and complete: a reader that understands the JSON escapes reads back
  exactly the original text and stops at the closing quote, whatever the text contains, so no value can
  end its string early.
\<close>

theorem jsonQuote_read_back:
  "hd (jsonQuote s) = dquote
   \<and> read_until (Suc (length s)) json_dec dquote (tl (jsonQuote s) @ rest) = Some (s, rest)"
  using json_string.read_until_encoded [of s "Suc (length s)" rest] by (simp add: jsonQuote_def jsonEscape_def)

text \<open>
  The \<open>key=value\<close> parser reads back every line of plain pairs: each key has the value of its last pair, and
  no other key appears.
\<close>

theorem parseKeyValueFields_render:
  assumes "list_all plain_pair kvs"
  shows "map_of (parseKeyValueFields (render_fields kvs)) = map_of (rev kvs)"
  using kv_loop_render [OF assms, of "[]"] by (simp add: parseKeyValueFields_def map_of_fold_dput)

theorem parseKeyValueFields_render_witness:
  "map_of (parseKeyValueFields (render_fields [(''a'', ''1''), (''b'', ''2''), (''a'', ''3'')])) ''a'' = Some ''3''"
proof -
  have "list_all plain_pair [(''a'', ''1''), (''b'', ''2''), (''a'', ''3'')]" by code_simp
  then show ?thesis using parseKeyValueFields_render by (simp add: map_of_Cons_code)
qed

text \<open>
  Splitting loses nothing: the parts contain no delimiter and joining them gives the text back; and the
  parts of a joined list are the list, if none contains the delimiter.
\<close>

theorem split_join_inverse:
  "join_with d (split s d) = s \<and> list_all (\<lambda>p. d \<notin> set p) (split s d)
   \<and> (ps \<noteq> [] \<and> list_all (\<lambda>p. d \<notin> set p) ps \<longrightarrow> split (join_with d ps) d = ps)"
  using split_parts_free [of _ s d] split_join [of ps d] by (auto simp: join_split list_all_iff)

theorem split_join_inverse_witness:
  "split (join_with (CHR '','') [''a'', [], ''b'']) (CHR '','') = [''a'', [], ''b'']"
  using split_join_inverse [of "CHR '',''" "[]" "[''a'', [], ''b'']"] by simp

text \<open>
  The unsigned number parser accepts, up to surrounding white space, exactly the non-empty strings of
  digits whose value fits in 64 bits, returns that value without wrap-around, and falls back otherwise.
  In particular it reads back every printed number.
\<close>

theorem parseUint64_exact:
  "parseUint64 val fallback =
     (if trim val \<noteq> [] \<and> list_all isdigit (trim val) \<and> nat_of_digits (trim val) < 2 ^ 64
      then of_nat (nat_of_digits (trim val)) else fallback)
   \<and> parseUint64 (show_nat (unat n)) fallback = n"
proof -
  have "unat n < 2 ^ LENGTH(64)" by (rule unsigned_less)
  then have "parseUint64 (show_nat (unat n)) fallback = n" using parseUint64_show [of "unat n" fallback] by simp
  then show ?thesis using parseUint64_iff by blast
qed

text \<open>
  Seconds become nanoseconds exactly up to 9223372036 seconds (in the year 2262); every larger number of
  seconds that a line can carry as a signed 64-bit value is turned into a different time.
\<close>

theorem fromUnixSeconds_exact_iff:
  assumes "0 \<le> n"
  shows "fromUnixSeconds n = n * 1000000000 \<longleftrightarrow> n \<le> 9223372036"
proof
  assume "fromUnixSeconds n = n * 1000000000"
  then have "n * 1000000000 < 2 ^ 63"
    using wrap64_range [of "n * 1000000000"] by (simp add: fromUnixSeconds_def ns_per_s_def)
  then show "n \<le> 9223372036" by simp
next
  assume "n \<le> 9223372036"
  then show "fromUnixSeconds n = n * 1000000000"
    using assms by (simp add: fromUnixSeconds_def ns_per_s_def wrap64_id)
qed

theorem fromUnixSeconds_exact_iff_witness:
  "fromUnixSeconds 10000000000 \<noteq> 10000000000 * 1000000000"
  using fromUnixSeconds_exact_iff [of 10000000000] by simp

end
