(* ===== verification/Netmon_Config.thy ===== *)
theory Netmon_Config
  imports Netmon_Utils
begin

text \<open>
  The configuration of \<^verbatim>\<open>include/netmon/config.hpp\<close> and its loader \<^verbatim>\<open>src/config.cpp\<close>: defaults, the
  indentation-based file format, and the environment overrides. The file system and the environment
  are arguments: the text of a file that can be opened, and the value of a variable that is set.
\<close>

section \<open>The configuration record\<close>

record Config =
  http_addr :: string
  syslog_udp_addr :: string
  syslog_tcp_addr :: string
  enable_udp :: bool
  enable_tcp :: bool
  device_online_ttl_seconds :: int
  device_idle_ttl_seconds :: int
  device_keep_ttl_seconds :: int
  max_events :: u64
  max_attack_events :: u64
  max_traffic_points_per_device :: u64
  traffic_rate_hold_seconds :: int
  storage_mode :: string
  enable_debug_file_log :: bool
  debug_log_path :: string
  debug_log_max_mb :: int
  sqlite_path :: string
  sqlite_retention_days :: int
  sqlite_max_db_mb :: int
  sqlite_max_events :: u64
  sqlite_max_traffic_points_per_device :: u64
  sqlite_vacuum_on_start :: bool
  prometheus_enabled :: bool
  prometheus_path :: string
  prometheus_include_device_labels :: bool
  prometheus_device_label_mode :: string
  bind_lan_only :: bool
  dashboard_token :: string
  trusted_router_ips :: "string list"
  max_syslog_line_length :: u64
  web_root :: string

definition default_config :: Config where
  "default_config =
     \<lparr>http_addr = ''0.0.0.0:8080'', syslog_udp_addr = ''0.0.0.0:1514'', syslog_tcp_addr = ''0.0.0.0:1514'',
      enable_udp = True, enable_tcp = False,
      device_online_ttl_seconds = 180, device_idle_ttl_seconds = 600, device_keep_ttl_seconds = 3600,
      max_events = 2000, max_attack_events = 1000, max_traffic_points_per_device = 60,
      traffic_rate_hold_seconds = 75,
      storage_mode = ''memory'', enable_debug_file_log = False, debug_log_path = ''./netmon-debug.log'',
      debug_log_max_mb = 10, sqlite_path = ''./openwrt-netmon-lite.db'', sqlite_retention_days = 7,
      sqlite_max_db_mb = 128, sqlite_max_events = 50000, sqlite_max_traffic_points_per_device = 2016,
      sqlite_vacuum_on_start = False,
      prometheus_enabled = False, prometheus_path = ''/metrics'', prometheus_include_device_labels = False,
      prometheus_device_label_mode = ''mac_hash'',
      bind_lan_only = True, dashboard_token = [], trusted_router_ips = [], max_syslog_line_length = 4096,
      web_root = ''./web/static''\<rparr>"

section \<open>Sections of the file\<close>

type_synonym section_stack = "(int \<times> string) list"

definition sectionPath :: "section_stack \<Rightarrow> string" where
  "sectionPath stack = join_with (CHR ''.'') (map snd stack)"

fun leadingSpaces :: "string \<Rightarrow> int" where
  "leadingSpaces [] = 0"
| "leadingSpaces (ch # line) = (if ch \<noteq> CHR '' '' then 0 else 1 + leadingSpaces line)"

fun popSectionsAtOrAbove :: "section_stack \<Rightarrow> int \<Rightarrow> section_stack" where
  "popSectionsAtOrAbove stack indent =
     (if stack \<noteq> [] \<and> indent \<le> fst (last stack) then popSectionsAtOrAbove (butlast stack) indent else stack)"

declare popSectionsAtOrAbove.simps [simp del]

section \<open>Applying one value\<close>

definition applyServer :: "Config \<Rightarrow> string \<Rightarrow> string \<Rightarrow> Config" where
  "applyServer config key v =
     (if key = ''http_addr'' then config\<lparr>http_addr := v\<rparr>
      else if key = ''syslog_udp_addr'' then config\<lparr>syslog_udp_addr := v\<rparr>
      else if key = ''syslog_tcp_addr'' then config\<lparr>syslog_tcp_addr := v\<rparr>
      else if key = ''enable_udp'' then config\<lparr>enable_udp := parseBool v (enable_udp config)\<rparr>
      else if key = ''enable_tcp'' then config\<lparr>enable_tcp := parseBool v (enable_tcp config)\<rparr>
      else config)"

definition applyState :: "Config \<Rightarrow> string \<Rightarrow> string \<Rightarrow> Config" where
  "applyState config key v =
     (if key = ''device_online_ttl_seconds''
      then config\<lparr>device_online_ttl_seconds := parseInt v (device_online_ttl_seconds config)\<rparr>
      else if key = ''device_idle_ttl_seconds''
      then config\<lparr>device_idle_ttl_seconds := parseInt v (device_idle_ttl_seconds config)\<rparr>
      else if key = ''device_keep_ttl_seconds''
      then config\<lparr>device_keep_ttl_seconds := parseInt v (device_keep_ttl_seconds config)\<rparr>
      else if key = ''max_events'' then config\<lparr>max_events := parseUint64 v (max_events config)\<rparr>
      else if key = ''max_attack_events''
      then config\<lparr>max_attack_events := parseUint64 v (max_attack_events config)\<rparr>
      else if key = ''max_traffic_points_per_device''
      then config\<lparr>max_traffic_points_per_device := parseUint64 v (max_traffic_points_per_device config)\<rparr>
      else if key = ''traffic_rate_hold_seconds''
      then config\<lparr>traffic_rate_hold_seconds := parseInt v (traffic_rate_hold_seconds config)\<rparr>
      else config)"

definition applyStorage :: "Config \<Rightarrow> string \<Rightarrow> string \<Rightarrow> Config" where
  "applyStorage config key v =
     (if key = ''mode'' then config\<lparr>storage_mode := v\<rparr>
      else if key = ''enable_debug_file_log''
      then config\<lparr>enable_debug_file_log := parseBool v (enable_debug_file_log config)\<rparr>
      else if key = ''debug_log_path'' then config\<lparr>debug_log_path := v\<rparr>
      else if key = ''debug_log_max_mb'' then config\<lparr>debug_log_max_mb := parseInt v (debug_log_max_mb config)\<rparr>
      else config)"

definition applySqlite :: "Config \<Rightarrow> string \<Rightarrow> string \<Rightarrow> Config" where
  "applySqlite config key v =
     (if key = ''path'' then config\<lparr>sqlite_path := v\<rparr>
      else if key = ''retention_days''
      then config\<lparr>sqlite_retention_days := parseInt v (sqlite_retention_days config)\<rparr>
      else if key = ''max_db_mb'' then config\<lparr>sqlite_max_db_mb := parseInt v (sqlite_max_db_mb config)\<rparr>
      else if key = ''max_events'' then config\<lparr>sqlite_max_events := parseUint64 v (sqlite_max_events config)\<rparr>
      else if key = ''max_traffic_points_per_device''
      then config\<lparr>sqlite_max_traffic_points_per_device :=
                    parseUint64 v (sqlite_max_traffic_points_per_device config)\<rparr>
      else if key = ''vacuum_on_start''
      then config\<lparr>sqlite_vacuum_on_start := parseBool v (sqlite_vacuum_on_start config)\<rparr>
      else config)"

definition applyMetrics :: "Config \<Rightarrow> string \<Rightarrow> string \<Rightarrow> Config" where
  "applyMetrics config key v =
     (if key = ''prometheus_enabled''
      then config\<lparr>prometheus_enabled := parseBool v (prometheus_enabled config)\<rparr>
      else if key = ''prometheus_path''
      then config\<lparr>prometheus_path := (if v = [] \<or> hd v = CHR ''/'' then v else CHR ''/'' # v)\<rparr>
      else if key = ''include_device_labels''
      then config\<lparr>prometheus_include_device_labels := parseBool v (prometheus_include_device_labels config)\<rparr>
      else if key = ''device_label_mode'' then config\<lparr>prometheus_device_label_mode := v\<rparr>
      else config)"

definition applySecurity :: "Config \<Rightarrow> string \<Rightarrow> string \<Rightarrow> Config" where
  "applySecurity config key v =
     (if key = ''bind_lan_only'' then config\<lparr>bind_lan_only := parseBool v (bind_lan_only config)\<rparr>
      else if key = ''dashboard_token'' then config\<lparr>dashboard_token := v\<rparr>
      else if key = ''max_syslog_line_length''
      then config\<lparr>max_syslog_line_length := parseUint64 v (max_syslog_line_length config)\<rparr>
      else config)"

definition applySetting :: "Config \<Rightarrow> string \<Rightarrow> string \<Rightarrow> string \<Rightarrow> Config" where
  "applySetting config sec key v =
     (if sec = ''server'' then applyServer config key v
      else if sec = ''state'' then applyState config key v
      else if sec = ''storage'' then applyStorage config key v
      else if sec = ''storage.sqlite'' then applySqlite config key v
      else if sec = ''metrics'' then applyMetrics config key v
      else if sec = ''security'' then applySecurity config key v
      else if sec = ''web'' then (if key = ''root'' then config\<lparr>web_root := v\<rparr> else config)
      else config)"

definition applyValue :: "Config \<Rightarrow> string \<Rightarrow> string \<Rightarrow> string \<Rightarrow> Config" where
  "applyValue config sec key raw_value =
     applySetting config sec key (stripQuotes (stripInlineComment raw_value))"

section \<open>The line loop of \<^verbatim>\<open>loadConfig\<close>\<close>

text \<open>The local variables that live across iterations.\<close>

record load_state =
  ld_config :: Config
  ld_list_key :: string
  ld_stack :: section_stack

definition trusted_list_key :: string where
  "trusted_list_key = ''security.trusted_router_ips''"

definition load_item :: "load_state \<Rightarrow> string \<Rightarrow> load_state" where
  "load_item st txt =
     (if ld_list_key st = trusted_list_key
      then let item = stripQuotes (stripInlineComment (trim (drop 1 txt)))
           in if item \<noteq> []
              then st\<lparr>ld_config := (ld_config st)
                       \<lparr>trusted_router_ips := trusted_router_ips (ld_config st) @ [item]\<rparr>\<rparr>
              else st
      else st)"

definition load_key :: "load_state \<Rightarrow> int \<Rightarrow> string \<Rightarrow> string \<Rightarrow> load_state" where
  "load_key st indent key v =
     (let stack = popSectionsAtOrAbove (ld_stack st) indent; sec = sectionPath stack
      in if sec = ''security'' \<and> key = ''trusted_router_ips'' \<and> v = []
         then st\<lparr>ld_stack := stack, ld_config := (ld_config st)\<lparr>trusted_router_ips := []\<rparr>,
                 ld_list_key := trusted_list_key\<rparr>
         else if v = [] then st\<lparr>ld_stack := stack @ [(indent, key)], ld_list_key := []\<rparr>
         else st\<lparr>ld_stack := stack, ld_list_key := [], ld_config := applyValue (ld_config st) sec key v\<rparr>)"

definition load_line :: "load_state \<Rightarrow> string \<Rightarrow> load_state" where
  "load_line st line =
     (let indent = leadingSpaces line; txt = stripInlineComment line
      in if txt = [] then st
         else if hd txt = CHR ''-'' then load_item st txt
         else case find_char (CHR '':'') txt of
                None \<Rightarrow> st
              | Some colon \<Rightarrow> load_key st indent (trim (take colon txt)) (trim (drop (Suc colon) txt)))"

text \<open>The lines that \<^verbatim>\<open>std::getline\<close> yields: an unterminated last line counts unless it is empty.\<close>

definition getlines :: "string \<Rightarrow> string list" where
  "getlines content =
     (let parts = split content (CHR 0x0A) in if last parts = [] then butlast parts else parts)"

definition load_init :: load_state where
  "load_init = \<lparr>ld_config = default_config, ld_list_key = [], ld_stack = []\<rparr>"

definition load_text :: "string \<Rightarrow> Config" where
  "load_text content = ld_config (foldl load_line load_init (getlines content))"

section \<open>Environment overrides\<close>

type_synonym environment = "string \<Rightarrow> string option"

definition setIfEnv :: "environment \<Rightarrow> string \<Rightarrow> string \<Rightarrow> string" where
  "setIfEnv env name v = (case env name of None \<Rightarrow> v | Some e \<Rightarrow> e)"

definition setBoolIfEnv :: "environment \<Rightarrow> string \<Rightarrow> bool \<Rightarrow> bool" where
  "setBoolIfEnv env name v = (case env name of None \<Rightarrow> v | Some e \<Rightarrow> parseBool e v)"

definition setIntIfEnv :: "environment \<Rightarrow> string \<Rightarrow> int \<Rightarrow> int" where
  "setIntIfEnv env name v = (case env name of None \<Rightarrow> v | Some e \<Rightarrow> parseInt e v)"

definition setSizeIfEnv :: "environment \<Rightarrow> string \<Rightarrow> u64 \<Rightarrow> u64" where
  "setSizeIfEnv env name v = (case env name of None \<Rightarrow> v | Some e \<Rightarrow> parseUint64 e v)"

definition applyEnvironmentOverrides :: "environment \<Rightarrow> Config \<Rightarrow> Config" where
  "applyEnvironmentOverrides env config =
     config\<lparr>http_addr := setIfEnv env ''NETMON_HTTP_ADDR'' (http_addr config),
       syslog_udp_addr := setIfEnv env ''NETMON_SYSLOG_UDP_ADDR'' (syslog_udp_addr config),
       syslog_tcp_addr := setIfEnv env ''NETMON_SYSLOG_TCP_ADDR'' (syslog_tcp_addr config),
       enable_udp := setBoolIfEnv env ''NETMON_ENABLE_UDP'' (enable_udp config),
       enable_tcp := setBoolIfEnv env ''NETMON_ENABLE_TCP'' (enable_tcp config),
       dashboard_token := setIfEnv env ''NETMON_DASHBOARD_TOKEN'' (dashboard_token config),
       web_root := setIfEnv env ''NETMON_WEB_ROOT'' (web_root config),
       storage_mode := setIfEnv env ''NETMON_STORAGE_MODE'' (storage_mode config),
       sqlite_path := setIfEnv env ''NETMON_SQLITE_PATH'' (sqlite_path config),
       sqlite_retention_days := setIntIfEnv env ''NETMON_SQLITE_RETENTION_DAYS'' (sqlite_retention_days config),
       sqlite_max_db_mb := setIntIfEnv env ''NETMON_SQLITE_MAX_DB_MB'' (sqlite_max_db_mb config),
       sqlite_max_events := setSizeIfEnv env ''NETMON_SQLITE_MAX_EVENTS'' (sqlite_max_events config),
       sqlite_max_traffic_points_per_device :=
         setSizeIfEnv env ''NETMON_SQLITE_MAX_TRAFFIC_POINTS_PER_DEVICE''
           (sqlite_max_traffic_points_per_device config),
       sqlite_vacuum_on_start := setBoolIfEnv env ''NETMON_SQLITE_VACUUM_ON_START'' (sqlite_vacuum_on_start config),
       prometheus_enabled := setBoolIfEnv env ''NETMON_PROMETHEUS_ENABLED'' (prometheus_enabled config),
       prometheus_path :=
         (let path = setIfEnv env ''NETMON_PROMETHEUS_PATH'' (prometheus_path config)
          in if path \<noteq> [] \<and> hd path \<noteq> CHR ''/'' then CHR ''/'' # path else path),
       prometheus_include_device_labels :=
         setBoolIfEnv env ''NETMON_PROMETHEUS_INCLUDE_DEVICE_LABELS'' (prometheus_include_device_labels config),
       prometheus_device_label_mode :=
         setIfEnv env ''NETMON_PROMETHEUS_DEVICE_LABEL_MODE'' (prometheus_device_label_mode config),
       trusted_router_ips :=
         (case env ''NETMON_TRUSTED_ROUTER_IPS'' of
            None \<Rightarrow> trusted_router_ips config
          | Some e \<Rightarrow> filter (\<lambda>ip. ip \<noteq> []) (map trim (split e (CHR '',''))))\<rparr>"

text \<open>A file that cannot be opened leaves the defaults.\<close>

definition loadConfig :: "(string \<Rightarrow> string option) \<Rightarrow> environment \<Rightarrow> string \<Rightarrow> Config" where
  "loadConfig read_file env path =
     applyEnvironmentOverrides env
       (if path = [] then default_config
        else case read_file path of None \<Rightarrow> default_config | Some content \<Rightarrow> load_text content)"

end
