(* ===== verification/Config_Properties.thy ===== *)
theory Config_Properties
  imports Netmon_Config
begin

text \<open>
  What the configuration loader (\<^verbatim>\<open>src/src/config.cpp\<close>) guarantees: the loaded configuration is well
  formed whatever the file and the environment contain, a rendered configuration is read back, and
  the environment takes precedence.
\<close>

section \<open>Well-formed configurations\<close>

definition int32 :: "int \<Rightarrow> bool" where
  "int32 n \<longleftrightarrow> - (2 ^ 31) \<le> n \<and> n < 2 ^ 31"

definition config_ok :: "Config \<Rightarrow> bool" where
  "config_ok c \<longleftrightarrow>
     int32 (device_online_ttl_seconds c) \<and> int32 (device_idle_ttl_seconds c) \<and> int32 (device_keep_ttl_seconds c)
     \<and> int32 (traffic_rate_hold_seconds c) \<and> int32 (debug_log_max_mb c) \<and> int32 (sqlite_retention_days c)
     \<and> int32 (sqlite_max_db_mb c)
     \<and> (prometheus_path c = [] \<or> hd (prometheus_path c) = CHR ''/'')
     \<and> [] \<notin> set (trusted_router_ips c)"

lemma int32_parseInt [simp]: "int32 n \<Longrightarrow> int32 (parseInt s n)"
  using parseInt_range [of n s] by (simp add: int32_def)

lemma config_ok_default: "config_ok default_config"
  by (simp add: config_ok_def int32_def default_config_def)

lemma config_ok_setting:
  fixes key v :: string
  assumes c: "config_ok c"
  shows "config_ok (applySetting c sec key v)"
proof -
  from c have "config_ok (applyServer c key v)" "config_ok (applyState c key v)" "config_ok (applyStorage c key v)"
    "config_ok (applySqlite c key v)" "config_ok (applyMetrics c key v)" "config_ok (applySecurity c key v)"
    by (simp_all add: config_ok_def applyServer_def applyState_def applyStorage_def applySqlite_def applyMetrics_def
        applySecurity_def)
  with c show ?thesis by (simp add: applySetting_def config_ok_def)
qed

lemma config_ok_trust:
  "config_ok c \<Longrightarrow> [] \<notin> set ips \<Longrightarrow> config_ok (c\<lparr>trusted_router_ips := ips\<rparr>)"
  by (simp add: config_ok_def)

lemma config_ok_trusted: "config_ok c \<Longrightarrow> [] \<notin> set (trusted_router_ips c)"
  by (simp add: config_ok_def)

lemma config_ok_line: "config_ok (ld_config st) \<Longrightarrow> config_ok (ld_config (load_line st line))"
  by (simp add: load_line_def load_item_def load_key_def applyValue_def Let_def config_ok_setting config_ok_trust
      config_ok_trusted split: option.split)

lemma config_ok_text: "config_ok (load_text content)"
proof -
  have "config_ok (ld_config st) \<Longrightarrow> config_ok (ld_config (foldl load_line st ls))" for st ls
    by (induction ls arbitrary: st) (simp_all add: config_ok_line)
  then show ?thesis by (simp add: load_text_def load_init_def config_ok_default)
qed

lemma config_ok_env: "config_ok c \<Longrightarrow> config_ok (applyEnvironmentOverrides env c)"
  by (auto simp: config_ok_def applyEnvironmentOverrides_def setIntIfEnv_def Let_def split: option.split)

text \<open>
  C32: Whatever the configuration file and the environment contain, the loaded configuration is well formed:
  every number is within its 32-bit type (an unreadable one leaves the default), the metrics path is
  empty or starts with a slash, and no trusted router address is empty.
\<close>

theorem loadConfig_ok: "config_ok (loadConfig read_file env path)"
  by (auto simp: loadConfig_def config_ok_default config_ok_text intro!: config_ok_env split: option.split)

text \<open>
  The environment decides: a variable that is set replaces the text settings of the file, and without any
  variable the configuration of the file (or the defaults, if it cannot be read) is used as it is.
\<close>

lemma environment_precedence:
  "(env ''NETMON_HTTP_ADDR'' = Some v \<longrightarrow> http_addr (loadConfig read_file env path) = v)
   \<and> (env ''NETMON_DASHBOARD_TOKEN'' = Some v \<longrightarrow> dashboard_token (loadConfig read_file env path) = v)
   \<and> (env ''NETMON_STORAGE_MODE'' = Some v \<longrightarrow> storage_mode (loadConfig read_file env path) = v)
   \<and> (env ''NETMON_TRUSTED_ROUTER_IPS'' = Some v \<longrightarrow>
        trusted_router_ips (loadConfig read_file env path) = filter (\<lambda>ip. ip \<noteq> []) (map trim (split v (CHR '',''))))
   \<and> loadConfig read_file (\<lambda>_. None) path =
       (if path = [] then default_config
        else case read_file path of None \<Rightarrow> default_config | Some content \<Rightarrow> load_text content)"
proof -
  have "applyEnvironmentOverrides (\<lambda>_. None) c = c" if "config_ok c" for c
    using that by (auto simp: applyEnvironmentOverrides_def setIfEnv_def setBoolIfEnv_def setIntIfEnv_def
        setSizeIfEnv_def config_ok_def Let_def)
  then show ?thesis
    by (auto simp: loadConfig_def config_ok_default config_ok_text split: option.split)
       (simp_all add: applyEnvironmentOverrides_def setIfEnv_def)
qed

section \<open>Files that are read back\<close>

text \<open>
  A configuration file as a tree: settings, sections, and the list of trusted routers. It is rendered
  with two spaces per level and quoted values.
\<close>

datatype ctree = Setting string string | Section string "ctree list" | Trusted "string list"

definition quoted :: "string \<Rightarrow> string" where
  "quoted v = dquote # v @ [dquote]"

definition indented :: "nat \<Rightarrow> string \<Rightarrow> string" where
  "indented d line = replicate (2 * d) (CHR '' '') @ line"

fun render :: "nat \<Rightarrow> ctree \<Rightarrow> string list" where
  "render d (Setting k v) = [indented d (k @ '': '' @ quoted v)]"
| "render d (Section k ts) = indented d (k @ '':'') # concat (map (render (Suc d)) ts)"
| "render d (Trusted ips) =
     indented d ''trusted_router_ips:'' # map (\<lambda>ip. indented (Suc d) (''- '' @ quoted ip)) ips"

definition render_text :: "ctree list \<Rightarrow> string" where
  "render_text ts = join_with (CHR 0x0A) (concat (map (render 0) ts) @ [[]])"

text \<open>What the tree means: every setting is applied under the dotted path of its sections.\<close>

abbreviation dotted :: "string list \<Rightarrow> string" where
  "dotted path \<equiv> join_with (CHR ''.'') path"

fun applied :: "string list \<Rightarrow> ctree \<Rightarrow> Config \<Rightarrow> Config" where
  "applied path (Setting k v) c = applySetting c (dotted path) k v"
| "applied path (Section k ts) c = fold (applied (path @ [k])) ts c"
| "applied path (Trusted ips) c = c\<lparr>trusted_router_ips := filter (\<lambda>ip. ip \<noteq> []) ips\<rparr>"

definition plain_name :: "string \<Rightarrow> bool" where
  "plain_name k \<longleftrightarrow> k \<noteq> [] \<and> hd k \<noteq> CHR ''-''
     \<and> list_all (\<lambda>c. \<not> isspace c \<and> c \<noteq> CHR '':'' \<and> c \<noteq> CHR ''#'' \<and> c \<noteq> squote \<and> c \<noteq> dquote) k"

definition value_text :: "string \<Rightarrow> bool" where
  "value_text v \<longleftrightarrow> dquote \<notin> set v \<and> CHR 0x0A \<notin> set v"

fun ctree_ok :: "string list \<Rightarrow> ctree \<Rightarrow> bool" where
  "ctree_ok path (Setting k v) \<longleftrightarrow> plain_name k \<and> value_text v"
| "ctree_ok path (Section k ts) \<longleftrightarrow>
     plain_name k \<and> \<not> (dotted path = ''security'' \<and> k = ''trusted_router_ips'')
     \<and> list_all (ctree_ok (path @ [k])) ts"
| "ctree_ok path (Trusted ips) \<longleftrightarrow> dotted path = ''security'' \<and> list_all value_text ips"

text \<open>One rendered line.\<close>

lemma comment_cut_double: "dquote \<notin> set v \<Longrightarrow> comment_cut False True (v @ dquote # s) = v @ dquote # comment_cut False False s"
  by (induction v) auto

lemma comment_cut_plain:
  "list_all (\<lambda>c. c \<noteq> CHR ''#'' \<and> c \<noteq> squote \<and> c \<noteq> dquote) k \<Longrightarrow>
   comment_cut False False (k @ s) = k @ comment_cut False False s"
  by (induction k) auto

lemma trim_spaces: "trim (replicate n (CHR '' '') @ s) = trim s"
proof -
  have "isspace (CHR '' '')" by (simp add: isspace_def)
  then have "dropWhile isspace (replicate n (CHR '' '') @ s) = dropWhile isspace s" by (induction n) simp_all
  then show ?thesis by (simp add: trim_def)
qed

lemma trim_quoted: "trim (quoted v) = quoted v"
  by (rule trim_id) (simp_all add: quoted_def isspace_def)

lemma stripInlineComment_quoted: "dquote \<notin> set v \<Longrightarrow> stripInlineComment (quoted v) = quoted v"
  using trim_quoted [of v] comment_cut_double [of v "[]"] by (simp add: stripInlineComment_def quoted_def)

lemma stripQuotes_quoted: "stripQuotes (quoted v) = v"
  unfolding stripQuotes_def trim_quoted by (simp add: quoted_def)

lemma leadingSpaces_indented: "line \<noteq> [] \<Longrightarrow> hd line \<noteq> CHR '' '' \<Longrightarrow> leadingSpaces (indented d line) = 2 * int d"
proof -
  assume "line \<noteq> []" "hd line \<noteq> CHR '' ''"
  then have "leadingSpaces (replicate n (CHR '' '') @ line) = int n" for n
    by (induction n) (auto simp: neq_Nil_conv)
  then show ?thesis by (simp add: indented_def)
qed

lemma comment_indented:
  "stripInlineComment (indented d line) = stripInlineComment line"
proof -
  have "comment_cut False False (replicate n (CHR '' '') @ line) = replicate n (CHR '' '') @ comment_cut False False line" for n
    by (rule comment_cut_plain) (auto simp: list_all_iff)
  then show ?thesis by (simp add: stripInlineComment_def indented_def trim_spaces)
qed

text \<open>The state between two elements at one level: the open sections, and possibly deeper ones left over.\<close>

definition stack_of :: "string list \<Rightarrow> section_stack" where
  "stack_of path = zip (map (\<lambda>i. 2 * int i) [0..<length path]) path"

definition deeper :: "nat \<Rightarrow> section_stack \<Rightarrow> bool" where
  "deeper d junk \<longleftrightarrow> list_all (\<lambda>e. 2 * int d \<le> fst e) junk"

definition open_at :: "string list \<Rightarrow> load_state \<Rightarrow> bool" where
  "open_at path st \<longleftrightarrow> (\<exists>junk. deeper (length path) junk \<and> ld_stack st = stack_of path @ junk)"

lemma stack_of_snoc: "stack_of (path @ [k]) = stack_of path @ [(2 * int (length path), k)]"
  by (simp add: stack_of_def)

lemma sectionPath_stack_of: "sectionPath (stack_of path) = dotted path"
  by (simp add: sectionPath_def stack_of_def)

lemma pop_open:
  assumes "open_at path st"
  shows "popSectionsAtOrAbove (ld_stack st) (2 * int (length path)) = stack_of path"
proof -
  have base: "popSectionsAtOrAbove (stack_of path) (2 * int (length path)) = stack_of path"
    by (subst popSectionsAtOrAbove.simps, cases path rule: rev_cases) (simp_all add: stack_of_snoc, simp add: stack_of_def)
  have "deeper (length path) junk \<Longrightarrow>
    popSectionsAtOrAbove (stack_of path @ junk) (2 * int (length path)) = stack_of path" for junk
  proof (induction junk rule: rev_induct)
    case (snoc e junk)
    then show ?case
      by (subst popSectionsAtOrAbove.simps) (simp add: deeper_def butlast_append)
  qed (simp add: base)
  with assms show ?thesis by (auto simp: open_at_def)
qed

lemma open_at_stack_of: "ld_stack st = stack_of path \<Longrightarrow> open_at path st"
  by (simp add: open_at_def deeper_def)

lemma open_at_close: "open_at (path @ [k]) st \<Longrightarrow> open_at path st"
  by (force simp: open_at_def deeper_def stack_of_snoc list_all_iff)

text \<open>The effect of each kind of line.\<close>

lemma plain_nameD:
  assumes "plain_name k"
  shows "k \<noteq> []" "hd k \<noteq> CHR '' ''" "hd k \<noteq> CHR ''-''" "trim k = k" "CHR '':'' \<notin> set k"
    "comment_cut False False (k @ s) = k @ comment_cut False False s" "\<not> isspace (hd k)"
proof -
  from assms have ne: "k \<noteq> []" and dash: "hd k \<noteq> CHR ''-''" by (simp_all add: plain_name_def)
  from assms have all: "\<forall>c\<in>set k. \<not> isspace c \<and> c \<noteq> CHR '':'' \<and> c \<noteq> CHR ''#'' \<and> c \<noteq> squote \<and> c \<noteq> dquote"
    by (simp add: plain_name_def list_all_iff)
  with ne have hd: "\<not> isspace (hd k)" by simp
  moreover have "isspace (CHR '' '')" by (simp add: isspace_def)
  ultimately have "hd k \<noteq> CHR '' ''" by metis
  moreover have "trim k = k" using all by (intro trim_no_space) (simp add: list_all_iff)
  moreover have "comment_cut False False (k @ s) = k @ comment_cut False False s"
    using all by (intro comment_cut_plain) (simp add: list_all_iff)
  ultimately show "k \<noteq> []" "hd k \<noteq> CHR '' ''" "hd k \<noteq> CHR ''-''" "trim k = k" "CHR '':'' \<notin> set k"
    "comment_cut False False (k @ s) = k @ comment_cut False False s" "\<not> isspace (hd k)"
    using ne dash hd all by blast+
qed

lemma load_line_key:
  assumes "plain_name k" "comment_cut False False w = w" "w = [] \<or> \<not> isspace (last w)"
  shows "load_line st (indented d (k @ CHR '':'' # w)) = load_key st (2 * int d) k (trim w)"
proof -
  note k = plain_nameD [OF assms(1)]
  have "stripInlineComment (k @ CHR '':'' # w) = trim (k @ CHR '':'' # w)"
    by (simp add: stripInlineComment_def k(6) assms(2))
  also have "\<dots> = k @ CHR '':'' # w"
    using k(1,7) assms(3) by (intro trim_id) (auto simp: isspace_def)
  finally have line: "stripInlineComment (k @ CHR '':'' # w) = k @ CHR '':'' # w" .
  show ?thesis
    using k(1-5) leadingSpaces_indented [of "k @ CHR '':'' # w" d]
    by (simp add: load_line_def comment_indented line find_char_append Let_def)
qed

lemma load_setting:
  assumes "plain_name k" "value_text v" "open_at path st"
  shows "load_line st (indented (length path) (k @ '': '' @ quoted v)) =
    st\<lparr>ld_stack := stack_of path, ld_list_key := [], ld_config := applySetting (ld_config st) (dotted path) k v\<rparr>"
proof -
  have "trim (CHR '' '' # quoted v) = quoted v"
    using trim_spaces [of 1 "quoted v"] trim_quoted [of v] by simp
  moreover have "comment_cut False False (CHR '' '' # quoted v) = CHR '' '' # quoted v"
    using assms(2) comment_cut_double [of v "[]"] by (simp add: quoted_def value_text_def)
  moreover have "\<not> isspace (last (CHR '' '' # quoted v))" by (simp add: quoted_def isspace_def)
  ultimately have "load_line st (indented (length path) (k @ CHR '':'' # CHR '' '' # quoted v)) =
      load_key st (2 * int (length path)) k (quoted v)"
    using load_line_key [OF assms(1), of "CHR '' '' # quoted v"] by simp
  moreover have "quoted v \<noteq> []" by (simp add: quoted_def)
  ultimately show ?thesis
    using assms(2) by (simp add: load_key_def pop_open [OF assms(3)] sectionPath_stack_of applyValue_def
        stripInlineComment_quoted stripQuotes_quoted value_text_def)
qed

lemma load_section:
  assumes "plain_name k" "\<not> (dotted path = ''security'' \<and> k = ''trusted_router_ips'')" "open_at path st"
  shows "load_line st (indented (length path) (k @ '':'')) = st\<lparr>ld_stack := stack_of (path @ [k]), ld_list_key := []\<rparr>"
  using assms(2) load_line_key [OF assms(1), of "[]" st "length path"]
  by (auto simp: load_key_def pop_open [OF assms(3)] sectionPath_stack_of stack_of_snoc)

lemma load_trusted:
  assumes "dotted path = ''security''" "open_at path st"
  shows "load_line st (indented (length path) ''trusted_router_ips:'') =
    st\<lparr>ld_stack := stack_of path, ld_config := (ld_config st)\<lparr>trusted_router_ips := []\<rparr>, ld_list_key := trusted_list_key\<rparr>"
proof -
  have "plain_name ''trusted_router_ips''" by code_simp
  from load_line_key [OF this, of "[]" st "length path"] show ?thesis
    using assms(1) by (simp add: load_key_def pop_open [OF assms(2)] sectionPath_stack_of)
qed

lemma load_item_line:
  assumes "value_text ip" "ld_list_key st = trusted_list_key"
  shows "load_line st (indented d (''- '' @ quoted ip)) =
    (if ip = [] then st else st\<lparr>ld_config := (ld_config st)
       \<lparr>trusted_router_ips := trusted_router_ips (ld_config st) @ [ip]\<rparr>\<rparr>)"
proof -
  have q: "comment_cut False False (quoted ip) = quoted ip"
    using assms(1) comment_cut_double [of ip "[]"] by (simp add: quoted_def value_text_def)
  have "stripInlineComment (''- '' @ quoted ip) = trim (''- '' @ quoted ip)"
    by (simp add: stripInlineComment_def q)
  also have "\<dots> = ''- '' @ quoted ip" by (rule trim_id) (simp_all add: quoted_def isspace_def)
  finally have line: "stripInlineComment (''- '' @ quoted ip) = ''- '' @ quoted ip" .
  have "trim (CHR '' '' # quoted ip) = quoted ip"
    using trim_spaces [of 1 "quoted ip"] trim_quoted [of ip] by simp
  then show ?thesis
    using assms by (simp add: load_line_def comment_indented line [simplified] load_item_def stripInlineComment_quoted
        stripQuotes_quoted value_text_def Let_def)
qed

lemma load_items:
  assumes "list_all value_text ips" "ld_list_key st = trusted_list_key"
  shows "foldl load_line st (map (\<lambda>ip. indented d (''- '' @ quoted ip)) ips) =
    st\<lparr>ld_config := (ld_config st)
      \<lparr>trusted_router_ips := trusted_router_ips (ld_config st) @ filter (\<lambda>ip. ip \<noteq> []) ips\<rparr>\<rparr>"
  using assms
proof (induction ips arbitrary: st)
  case (Cons ip ips)
  then have ok: "value_text ip" "list_all value_text ips" by simp_all
  note step = load_item_line [OF ok(1) Cons.prems(2)]
  show ?case
  proof (cases "ip = []")
    case True
    show ?thesis
      unfolding list.map foldl_Cons step using Cons.IH [OF ok(2) Cons.prems(2)] True by simp
  next
    case False
    let ?st = "st\<lparr>ld_config := (ld_config st)
      \<lparr>trusted_router_ips := trusted_router_ips (ld_config st) @ [ip]\<rparr>\<rparr>"
    from Cons.prems(2) have "ld_list_key ?st = trusted_list_key" by simp
    from Cons.IH [OF ok(2) this] False show ?thesis
      unfolding list.map foldl_Cons step by simp
  qed
qed simp

text \<open>A whole element, and the file.\<close>

lemma load_tree:
  assumes "ctree_ok path t" "open_at path st"
  shows "open_at path (foldl load_line st (render (length path) t))
    \<and> ld_config (foldl load_line st (render (length path) t)) = applied path t (ld_config st)"
  using assms
proof (induction t arbitrary: path st)
  case (Setting k v)
  then show ?case
    using load_setting [of k v path st] by (simp only: render.simps ctree_ok.simps foldl.simps) (simp add: open_at_stack_of)
next
  case (Section k ts)
  define st1 where "st1 = st\<lparr>ld_stack := stack_of (path @ [k]), ld_list_key := []\<rparr>"
  have *: "open_at (path @ [k]) s \<Longrightarrow> list_all (ctree_ok (path @ [k])) us \<Longrightarrow> set us \<subseteq> set ts \<Longrightarrow>
      open_at (path @ [k]) (foldl load_line s (concat (map (render (Suc (length path))) us)))
      \<and> ld_config (foldl load_line s (concat (map (render (Suc (length path))) us)))
        = fold (applied (path @ [k])) us (ld_config s)" for s us
  proof (induction us arbitrary: s)
    case (Cons u us)
    from Cons.prems Section.IH [of u "path @ [k]" s] Cons.IH [of "foldl load_line s (render (Suc (length path)) u)"]
    show ?case by simp
  qed simp
  have "open_at (path @ [k]) st1" by (simp add: st1_def open_at_stack_of)
  from * [OF this, of ts] Section.prems show ?case
    by (simp add: load_section flip: st1_def) (auto simp: st1_def intro: open_at_close)
next
  case (Trusted ips)
  define st1 where "st1 = st\<lparr>ld_stack := stack_of path, ld_config := (ld_config st)\<lparr>trusted_router_ips := []\<rparr>,
    ld_list_key := trusted_list_key\<rparr>"
  have "ld_list_key st1 = trusted_list_key" by (simp add: st1_def)
  moreover have "list_all value_text ips" using Trusted.prems(1) by simp
  ultimately have items: "foldl load_line st1 (map (\<lambda>ip. indented (Suc (length path)) (''- '' @ quoted ip)) ips) =
      st1\<lparr>ld_config := (ld_config st1)
        \<lparr>trusted_router_ips := trusted_router_ips (ld_config st1) @ filter (\<lambda>ip. ip \<noteq> []) ips\<rparr>\<rparr>"
    by (intro load_items)
  have "load_line st (indented (length path) ''trusted_router_ips:'') = st1"
    unfolding st1_def using Trusted.prems by (intro load_trusted) simp_all
  then have "foldl load_line st (render (length path) (Trusted ips)) =
      st1\<lparr>ld_config := (ld_config st1)
        \<lparr>trusted_router_ips := trusted_router_ips (ld_config st1) @ filter (\<lambda>ip. ip \<noteq> []) ips\<rparr>\<rparr>"
    by (simp only: render.simps foldl_Cons items)
  then show ?case by (simp add: st1_def open_at_stack_of)
qed

lemma plain_name_line: "plain_name k \<Longrightarrow> CHR 0x0A \<notin> set k"
proof
  assume "plain_name k" "CHR 0x0A \<in> set k"
  then have "\<not> isspace (CHR 0x0A)" by (auto simp: plain_name_def list_all_iff)
  then show False by (simp add: isspace_def)
qed

lemma render_line_free: "ctree_ok path t \<Longrightarrow> l \<in> set (render d t) \<Longrightarrow> CHR 0x0A \<notin> set l"
proof (induction t arbitrary: path d)
  case (Setting k v)
  then show ?case using plain_name_line [of k] by (auto simp: indented_def quoted_def value_text_def)
next
  case (Section k ts)
  then consider "l = indented d (k @ '':'')" | t where "t \<in> set ts" "l \<in> set (render (Suc d) t)" by auto
  then show ?case
  proof cases
    case 1
    with Section.prems(1) plain_name_line [of k] show ?thesis by (auto simp: indented_def)
  next
    case 2
    with Section show ?thesis by (auto simp: list_all_iff)
  qed
next
  case (Trusted ips)
  then show ?case by (auto simp: indented_def quoted_def value_text_def list_all_iff)
qed

text \<open>
  C27: A rendered configuration file is read back: loading it gives the default configuration with every
  setting applied under the dotted path of its enclosing sections, whatever the nesting, and with the
  listed trusted routers. Values may contain comment signs, colons and surrounding white space.
\<close>

theorem load_text_render:
  "list_all (ctree_ok []) ts \<Longrightarrow> load_text (render_text ts) = fold (applied []) ts default_config"
proof -
  assume ok: "list_all (ctree_ok []) ts"
  have "split (render_text ts) (CHR 0x0A) = concat (map (render 0) ts) @ [[]]"
    unfolding render_text_def using ok by (intro split_join) (auto simp: list_all_iff dest!: render_line_free)
  then have lines: "getlines (render_text ts) = concat (map (render 0) ts)" by (simp add: getlines_def)
  have "open_at [] s \<Longrightarrow> list_all (ctree_ok []) us \<Longrightarrow>
      ld_config (foldl load_line s (concat (map (render 0) us))) = fold (applied []) us (ld_config s)" for s us
    by (induction us arbitrary: s) (use load_tree [of "[]"] in \<open>simp_all\<close>)
  moreover have "open_at [] load_init" by (simp add: load_init_def open_at_stack_of stack_of_def)
  ultimately show ?thesis using ok by (simp add: load_text_def lines) (simp add: load_init_def)
qed

theorem load_text_render_witness:
  "load_text (render_text [Section ''security'' [Trusted [''10.0.0.1''], Setting ''dashboard_token'' ''a # b: c''],
      Section ''storage'' [Section ''sqlite'' [Setting ''retention_days'' ''30'']]])
   = default_config\<lparr>trusted_router_ips := [''10.0.0.1''], dashboard_token := ''a # b: c'', sqlite_retention_days := 30\<rparr>"
proof -
  let ?ts = "[Section ''security'' [Trusted [''10.0.0.1''], Setting ''dashboard_token'' ''a # b: c''],
      Section ''storage'' [Section ''sqlite'' [Setting ''retention_days'' ''30'']]]"
  have "list_all (ctree_ok []) ?ts" by code_simp
  moreover have "parseInt ''30'' n = 30" for n by code_simp
  moreover have "default_config\<lparr>trusted_router_ips := r, dashboard_token := t, sqlite_retention_days := d\<rparr>
    = default_config\<lparr>sqlite_retention_days := d, dashboard_token := t, trusted_router_ips := r\<rparr>" for r t d by simp
  ultimately show ?thesis
    using load_text_render [of ?ts] by (simp add: applySetting_def applySecurity_def applySqlite_def)
qed

end
