(* ===== verification/Netmon_Double.thy ===== *)
theory Netmon_Double
  imports Complex_Main Netmon_Prelude "HOL-Library.Log_Nat"
begin

text \<open>
  The \<^verbatim>\<open>double\<close> values of the sources. A finite double is the rational number it denotes; \<open>fl\<close> rounds a
  rational to the nearest number with a 53-bit significand, ties to even, which is what each IEEE 754
  operation does to its exact result. The exponent is not bounded: \<open>rate_of\<close>, the only computation the
  sources do on doubles apart from sums, stays far inside the normal range (see the bounds below).
\<close>

type_synonym double = rat

definition round_half_even :: "rat \<Rightarrow> int" where
  "round_half_even x =
     (let f = \<lfloor>x\<rfloor>; d = x - of_int f
      in if d < 1 / 2 then f else if 1 / 2 < d then f + 1 else if even f then f else f + 1)"

text \<open>The exponent of a positive rational in base \<open>b\<close>: \<open>b\<close> to that power is the largest one not above it.\<close>

definition ilog :: "nat \<Rightarrow> rat \<Rightarrow> int" where
  "ilog b x = (if 1 \<le> x then int (floorlog b (nat \<lfloor>x\<rfloor>)) - 1
               else - int (floorlog b (nat (\<lceil>1 / x\<rceil> - 1))))"

abbreviation ilog2 :: "rat \<Rightarrow> int" where
  "ilog2 x \<equiv> ilog 2 x"

definition ulp_exp :: "rat \<Rightarrow> int" where
  "ulp_exp x = ilog2 \<bar>x\<bar> - 52"

definition fl :: "rat \<Rightarrow> double" where
  "fl x = (if x = 0 then 0
           else of_int (round_half_even (x * 2 powi (- ulp_exp x))) * 2 powi ulp_exp x)"

text \<open>
  \<^verbatim>\<open>duration_cast<duration<double>>(d).count()\<close> of a nanosecond count and the bit rate of a byte
  difference: \<^verbatim>\<open>static_cast<double>(bytes) * 8.0 / delta_time\<close>.
\<close>

definition seconds_of_ns :: "int \<Rightarrow> double" where
  "seconds_of_ns n = fl (fl (of_int n) / 1000000000)"

definition rate_of :: "u64 \<Rightarrow> double \<Rightarrow> double" where
  "rate_of bytes dt = fl (fl (fl (of_nat (unat bytes)) * 8) / dt)"

section \<open>The contract of a rounding\<close>

text \<open>What the clients of floating-point arithmetic use of it: a relative error of at most \<open>eps\<close>.\<close>

locale rounding =
  fixes rnd :: "rat \<Rightarrow> rat" and eps :: rat
  assumes rel_error: "\<bar>rnd x - x\<bar> \<le> eps * \<bar>x\<bar>"
    and eps_small: "0 \<le> eps" "eps < 1"
begin

lemma rnd_0 [simp]: "rnd 0 = 0"
  using rel_error [of 0] by simp

lemma rnd_lower: "0 \<le> x \<Longrightarrow> (1 - eps) * x \<le> rnd x"
  using rel_error [of x] by (simp add: algebra_simps abs_le_iff)

lemma rnd_upper: "0 \<le> x \<Longrightarrow> rnd x \<le> (1 + eps) * x"
  using rel_error [of x] by (simp add: algebra_simps abs_le_iff)

lemma rnd_pos_iff [simp]: "0 < rnd x \<longleftrightarrow> 0 < x"
proof
  assume pos: "0 < rnd x"
  show "0 < x"
  proof (rule ccontr)
    assume "\<not> 0 < x"
    then have "rnd x - x \<le> eps * - x"
      using rel_error [of x] by (simp add: abs_le_iff)
    then have "rnd x \<le> (1 - eps) * x"
      by (simp add: algebra_simps)
    moreover have "(1 - eps) * x \<le> 0"
      using \<open>\<not> 0 < x\<close> eps_small by (simp add: mult_le_0_iff)
    ultimately show False using pos by simp
  qed
next
  assume "0 < x"
  then have "0 < (1 - eps) * x"
    using eps_small by simp
  with rnd_lower [of x] \<open>0 < x\<close> show "0 < rnd x" by simp
qed

text \<open>Two roundings in a row, and the quotient of two numbers that are each rounded twice.\<close>

lemma rnd2_bounds:
  assumes "0 \<le> x" "0 \<le> c"
  shows "(1 - eps) ^ 2 * (x * c) \<le> rnd (rnd x * c)" and "rnd (rnd x * c) \<le> (1 + eps) ^ 2 * (x * c)"
proof -
  have x: "(1 - eps) * x * c \<le> rnd x * c" "rnd x * c \<le> (1 + eps) * x * c"
    using rnd_lower [OF assms(1)] rnd_upper [OF assms(1)] assms(2) by (simp_all add: mult_right_mono)
  have "0 \<le> (1 - eps) * x * c" using assms eps_small by simp
  with x(1) have nn: "0 \<le> rnd x * c" by linarith
  have "(1 - eps) * ((1 - eps) * x * c) \<le> (1 - eps) * (rnd x * c)"
    using x(1) eps_small by (intro mult_left_mono) simp_all
  also have "\<dots> \<le> rnd (rnd x * c)" by (rule rnd_lower [OF nn])
  finally show "(1 - eps) ^ 2 * (x * c) \<le> rnd (rnd x * c)"
    by (simp add: power2_eq_square ac_simps)
  have "rnd (rnd x * c) \<le> (1 + eps) * (rnd x * c)" by (rule rnd_upper [OF nn])
  also have "\<dots> \<le> (1 + eps) * ((1 + eps) * x * c)"
    using x(2) eps_small by (intro mult_left_mono) simp_all
  finally show "rnd (rnd x * c) \<le> (1 + eps) ^ 2 * (x * c)"
    by (simp add: power2_eq_square ac_simps)
qed

lemma rnd_nonneg: "0 \<le> x \<Longrightarrow> 0 \<le> rnd x"
  by (metis less_eq_rat_def rnd_0 rnd_pos_iff)

lemma rnd_eq_0_iff [simp]: "rnd x = 0 \<longleftrightarrow> x = 0"
proof
  assume "rnd x = 0"
  then have "\<bar>x\<bar> \<le> eps * \<bar>x\<bar>" using rel_error [of x] by simp
  then have "(1 - eps) * \<bar>x\<bar> \<le> 0" by (simp add: algebra_simps)
  then show "x = 0" using eps_small by (simp add: mult_le_0_iff)
qed simp

end

section \<open>Rounding to a 53-bit significand\<close>

lemma round_half_even_error: "\<bar>of_int (round_half_even x) - x\<bar> \<le> 1 / 2"
proof -
  have "0 \<le> x - of_int \<lfloor>x\<rfloor>" "x - of_int \<lfloor>x\<rfloor> < 1"
    by linarith+
  then show ?thesis
    by (auto simp: round_half_even_def Let_def abs_le_iff)
qed

lemma round_half_even_of_int [simp]: "round_half_even (of_int n) = n"
  by (simp add: round_half_even_def)

lemma ilog_bounds:
  assumes b: "1 < b" and "0 < x"
  shows "of_nat b powi ilog b x \<le> x" and "x < of_nat b powi (ilog b x + 1)"
proof -
  have "of_nat b powi ilog b x \<le> x \<and> x < of_nat b powi (ilog b x + 1)"
  proof (cases "1 \<le> x")
    case True
    define n where "n = nat \<lfloor>x\<rfloor>"
    define k where "k = floorlog b n"
    have n: "0 < n" "rat_of_nat n \<le> x" "x < rat_of_nat n + 1"
      using True by (auto simp: n_def) linarith+
    have k: "b ^ (k - 1) \<le> n" "n < b ^ k"
      using floorlog_bounds [of n b] b n(1) by (simp_all add: k_def)
    then have "0 < k" using n(1) by (cases k) auto
    have "rat_of_nat (b ^ (k - 1)) \<le> x"
      using k(1) n(2) by (meson of_nat_le_iff order_trans)
    moreover have "x < rat_of_nat (b ^ k)"
      using k(2) n(3) by (metis Suc_leI of_nat_Suc of_nat_le_iff add.commute order_less_le_trans)
    ultimately have "of_nat b ^ (k - 1) \<le> x" "x < of_nat b ^ k"
      by simp_all
    moreover have "ilog b x = int (k - 1)" "ilog b x + 1 = int k"
      using True \<open>0 < k\<close> by (simp_all add: ilog_def k_def n_def)
    ultimately show ?thesis
      by (simp only: power_int_of_nat)
  next
    case False
    define m where "m = nat (\<lceil>1 / x\<rceil> - 1)"
    define k where "k = floorlog b m"
    have "1 < 1 / x" using False assms by simp
    then have m: "0 < m" "1 / x \<le> rat_of_nat m + 1" "rat_of_nat m < 1 / x"
      by (auto simp: m_def) linarith+
    have k: "b ^ (k - 1) \<le> m" "m < b ^ k"
      using floorlog_bounds [of m b] b m(1) by (simp_all add: k_def)
    then have "0 < k" using m(1) by (cases k) auto
    have "rat_of_nat (b ^ (k - 1)) < 1 / x"
      using k(1) m(3) by (meson of_nat_le_iff order_le_less_trans)
    moreover have "1 / x \<le> rat_of_nat (b ^ k)"
      using k(2) m(2) by (metis Suc_leI of_nat_Suc of_nat_le_iff add.commute order_trans)
    ultimately have "of_nat b ^ (k - 1) < 1 / x" "1 / x \<le> of_nat b ^ k"
      by simp_all
    then have "x < 1 / of_nat b ^ (k - 1)" "1 / of_nat b ^ k \<le> x"
      using assms by (simp_all add: field_simps)
    moreover have "ilog b x = - int k"
      using False by (simp add: ilog_def k_def m_def)
    moreover have "- int k + 1 = - int (k - 1)"
      using \<open>0 < k\<close> by simp
    ultimately show ?thesis
      by (simp only: power_int_minus power_int_of_nat) (simp add: divide_inverse)
  qed
  then show "of_nat b powi ilog b x \<le> x" and "x < of_nat b powi (ilog b x + 1)"
    by simp_all
qed

lemma ilog2_bounds: "0 < x \<Longrightarrow> 2 powi ilog2 x \<le> x" "0 < x \<Longrightarrow> x < 2 powi (ilog2 x + 1)"
  using ilog_bounds [of 2 x] by simp_all

lemma fl_rel_error: "\<bar>fl x - x\<bar> \<le> 1 / 2 ^ 53 * \<bar>x\<bar>"
proof (cases "x = 0")
  case True
  then show ?thesis by (simp add: fl_def)
next
  case False
  define u :: rat where "u = 2 powi ulp_exp x"
  have u: "0 < u" "2 powi (- ulp_exp x) = 1 / u"
    by (simp_all add: u_def power_int_minus divide_inverse)
  have "fl x - x = (of_int (round_half_even (x / u)) - x / u) * u"
    using False u by (simp add: fl_def u_def [symmetric] left_diff_distrib)
  then have "\<bar>fl x - x\<bar> = \<bar>of_int (round_half_even (x / u)) - x / u\<bar> * u"
    using u(1) by (simp add: abs_mult)
  also have "\<dots> \<le> 1 / 2 * u"
    using round_half_even_error [of "x / u"] u(1) by (intro mult_right_mono) simp_all
  also have "u = 2 powi ilog2 \<bar>x\<bar> / 2 ^ 52"
    by (simp add: u_def ulp_exp_def power_int_diff)
  also have "1 / 2 * (2 powi ilog2 \<bar>x\<bar> / 2 ^ 52) \<le> 1 / 2 ^ 53 * \<bar>x\<bar>"
    using ilog2_bounds(1) [of "\<bar>x\<bar>"] False by simp
  finally show ?thesis .
qed

interpretation ieee: rounding fl "1 / 2 ^ 53"
  by unfold_locales (use fl_rel_error in auto)

text \<open>Every integer below \<open>2\<^sup>5\<^sup>3\<close> is a double.\<close>

lemma fl_of_nat:
  assumes "n < 2 ^ 53"
  shows "fl (of_nat n) = of_nat n"
proof (cases "n = 0")
  case True
  then show ?thesis by (simp add: fl_def)
next
  case False
  define e where "e = ulp_exp (rat_of_nat n)"
  have "2 powi ilog2 (rat_of_nat n) < (2 :: rat) ^ 53"
  proof -
    have "2 powi ilog2 (rat_of_nat n) \<le> rat_of_nat n"
      using ilog2_bounds(1) [of "rat_of_nat n"] False by simp
    also have "\<dots> < rat_of_nat (2 ^ 53)"
      using assms by (simp only: of_nat_less_iff)
    finally show ?thesis by simp
  qed
  then have "2 powi ilog2 (rat_of_nat n) < (2 :: rat) powi 53"
    by simp
  then have "ilog2 (rat_of_nat n) < 53"
    by (rule power_int_le_imp_less_exp [rotated]) simp_all
  then have "0 \<le> - e" by (simp add: e_def ulp_exp_def)
  then obtain k where k: "- e = int k" by (metis nonneg_int_cases)
  have e: "e = - int k" using k by simp
  have "rat_of_nat n * 2 powi (- e) = of_int (int n * 2 ^ k)"
    by (simp add: k)
  then have "fl (rat_of_nat n) = of_int (int n * 2 ^ k) * 2 powi e"
    using False by (simp only: fl_def e_def [symmetric] round_half_even_of_int) simp
  then show ?thesis
    by (simp add: e power_int_minus)
qed

section \<open>The accuracy of a computed rate\<close>

lemma seconds_of_ns_pos_iff [simp]: "0 < seconds_of_ns n \<longleftrightarrow> 0 < n"
  by (simp add: seconds_of_ns_def)

lemma rate_of_pos_iff: "0 < dt \<Longrightarrow> 0 < rate_of b dt \<longleftrightarrow> b \<noteq> 0"
  by (simp add: rate_of_def zero_less_divide_iff unat_gt_0 del: of_nat_unat)

lemma rate_of_0 [simp]: "rate_of 0 dt = 0"
  by (simp add: rate_of_def)

lemma rate_of_nonneg: "0 \<le> dt \<Longrightarrow> 0 \<le> rate_of b dt"
  by (auto simp: rate_of_def simp del: of_nat_unat intro!: ieee.rnd_nonneg divide_nonneg_nonneg)

text \<open>The exact rate in bits per second of \<open>b\<close> bytes in \<open>n\<close> nanoseconds.\<close>

definition exact_rate :: "u64 \<Rightarrow> int \<Rightarrow> rat" where
  "exact_rate b n = of_nat (unat b) * 8 / (of_int n / 1000000000)"

lemma rate_of_bounds:
  fixes b :: u64 and n :: int
  assumes n: "0 < n"
  defines "e \<equiv> 1 / 2 ^ 53 :: rat"
  shows "(1 - e) ^ 3 / (1 + e) ^ 2 * exact_rate b n \<le> rate_of b (seconds_of_ns n)"
    and "rate_of b (seconds_of_ns n) \<le> (1 + e) ^ 3 / (1 - e) ^ 2 * exact_rate b n"
proof -
  define x y where "x = rat_of_nat (unat b)" and "y = rat_of_int n"
  define p q where "p = fl (fl x * 8)" and "q = seconds_of_ns n"
  have e: "0 < e" "e < 1" by (simp_all add: e_def)
  have x: "0 \<le> x" and y: "0 < y" using n by (simp_all add: x_def y_def del: of_nat_unat)
  have p: "(1 - e) ^ 2 * (x * 8) \<le> p" "p \<le> (1 + e) ^ 2 * (x * 8)"
    using ieee.rnd2_bounds [OF x, of 8] by (simp_all add: p_def e_def)
  have q: "(1 - e) ^ 2 * (y / 1000000000) \<le> q" "q \<le> (1 + e) ^ 2 * (y / 1000000000)"
    using ieee.rnd2_bounds [of y "1 / 1000000000"] y
    by (simp_all add: q_def e_def seconds_of_ns_def y_def)
  have pos: "0 < q" "0 < (1 - e) ^ 2 * (y / 1000000000)" "0 < (1 + e) ^ 2 * (y / 1000000000)"
    using n e y by (simp_all add: q_def)
  have nn: "0 \<le> (1 - e) ^ 2 * (x * 8)" using x by simp
  have rate: "rate_of b (seconds_of_ns n) = fl (p / q)"
    by (simp add: rate_of_def p_def q_def x_def)
  have p0: "0 \<le> p" using p(1) nn by linarith
  then have pq: "0 \<le> p / q" using pos(1) by simp
  have "(1 - e) ^ 2 * (x * 8) / ((1 + e) ^ 2 * (y / 1000000000)) \<le> p / q"
    using p(1) q(2) p0 pos by (intro frac_le) simp_all
  then have "(1 - e) * ((1 - e) ^ 2 * (x * 8) / ((1 + e) ^ 2 * (y / 1000000000))) \<le> (1 - e) * (p / q)"
    using e by (intro mult_left_mono) simp_all
  also have "\<dots> \<le> fl (p / q)"
    using ieee.rnd_lower [OF pq] by (simp add: e_def)
  finally show "(1 - e) ^ 3 / (1 + e) ^ 2 * exact_rate b n \<le> rate_of b (seconds_of_ns n)"
    by (simp add: rate exact_rate_def x_def y_def power3_eq_cube power2_eq_square ac_simps del: of_nat_unat)
  have "p / q \<le> (1 + e) ^ 2 * (x * 8) / ((1 - e) ^ 2 * (y / 1000000000))"
    using p(2) q(1) x pos by (intro frac_le) simp_all
  then have "(1 + e) * (p / q) \<le> (1 + e) * ((1 + e) ^ 2 * (x * 8) / ((1 - e) ^ 2 * (y / 1000000000)))"
    using e by (intro mult_left_mono) simp_all
  moreover have "fl (p / q) \<le> (1 + e) * (p / q)"
    using ieee.rnd_upper [OF pq] by (simp add: e_def)
  ultimately show "rate_of b (seconds_of_ns n) \<le> (1 + e) ^ 3 / (1 - e) ^ 2 * exact_rate b n"
    by (simp add: rate exact_rate_def x_def y_def power3_eq_cube power2_eq_square ac_simps del: of_nat_unat)
qed

lemma rate_of_error:
  assumes "0 < n"
  shows "\<bar>rate_of b (seconds_of_ns n) - exact_rate b n\<bar> \<le> 6 / 2 ^ 53 * exact_rate b n"
proof -
  have nn: "0 \<le> exact_rate b n"
    using assms by (simp add: exact_rate_def del: of_nat_unat)
  have "(1 - 6 / 2 ^ 53) * exact_rate b n \<le> (1 - 1 / 2 ^ 53) ^ 3 / (1 + 1 / 2 ^ 53) ^ 2 * exact_rate b n"
    using nn by (intro mult_right_mono) (simp_all add: power2_eq_square power3_eq_cube)
  with rate_of_bounds(1) [OF assms, of b]
  have "(1 - 6 / 2 ^ 53) * exact_rate b n \<le> rate_of b (seconds_of_ns n)" by linarith
  moreover have "(1 + 1 / 2 ^ 53) ^ 3 / (1 - 1 / 2 ^ 53) ^ 2 * exact_rate b n \<le> (1 + 6 / 2 ^ 53) * exact_rate b n"
    using nn by (intro mult_right_mono) (simp_all add: power2_eq_square power3_eq_cube)
  with rate_of_bounds(2) [OF assms, of b]
  have "rate_of b (seconds_of_ns n) \<le> (1 + 6 / 2 ^ 53) * exact_rate b n" by linarith
  ultimately show ?thesis
    unfolding abs_le_iff by (simp add: left_diff_distrib distrib_right)
qed

end
