(* ===== verification/Netmon_Types.thy ===== *)
theory Netmon_Types
  imports Netmon_Utils Netmon_Double
begin

text \<open>
  The data of \<^verbatim>\<open>include/netmon/types.hpp\<close>. Each struct is a record; \<open>new_\<dots>\<close> is the value its default
  member initializers give.
\<close>

section \<open>Enumerations\<close>

datatype DeviceStatus = Online | Idle | Offline | Unknown

datatype EventSeverity = Info | Warning | Critical

text \<open>\<^verbatim>\<open>static_cast<int>(status)\<close>, and the order it induces.\<close>

fun status_rank :: "DeviceStatus \<Rightarrow> nat" where
  "status_rank Online = 0"
| "status_rank Idle = 1"
| "status_rank Offline = 2"
| "status_rank Unknown = 3"

lemma status_rank_inj [simp]: "status_rank a = status_rank b \<longleftrightarrow> a = b"
  by (cases a; cases b) simp_all

instantiation DeviceStatus :: linorder
begin

definition less_eq_DeviceStatus :: "DeviceStatus \<Rightarrow> DeviceStatus \<Rightarrow> bool" where
  "a \<le> b \<longleftrightarrow> status_rank a \<le> status_rank b"

definition less_DeviceStatus :: "DeviceStatus \<Rightarrow> DeviceStatus \<Rightarrow> bool" where
  "a < b \<longleftrightarrow> status_rank a < status_rank b"

instance
  by standard (auto simp: less_eq_DeviceStatus_def less_DeviceStatus_def)

end

lemma status_order [simp]: "Online \<le> s" "Idle \<le> Offline" "s \<le> Unknown" "\<not> Idle \<le> Online" "\<not> Offline \<le> Idle"
  "\<not> Offline \<le> Online"
  by (cases s; simp add: less_eq_DeviceStatus_def)+

fun toString_status :: "DeviceStatus \<Rightarrow> string" where
  "toString_status Online = ''online''"
| "toString_status Idle = ''idle''"
| "toString_status Offline = ''offline''"
| "toString_status Unknown = ''unknown''"

fun toString_severity :: "EventSeverity \<Rightarrow> string" where
  "toString_severity Info = ''info''"
| "toString_severity Warning = ''warning''"
| "toString_severity Critical = ''critical''"

section \<open>Devices, snapshots and events\<close>

record DeviceState =
  dv_mac :: string
  dv_ip :: string
  dv_hostname :: string
  dv_interface_name :: string
  dv_source :: string
  dv_neigh_state :: string
  dv_status :: DeviceStatus
  dv_first_seen :: time
  dv_last_seen :: time
  dv_last_dhcp :: time
  dv_last_traffic :: time
  dv_last_rate :: time
  dv_rx_bytes_total :: u64
  dv_tx_bytes_total :: u64
  dv_rx_rate_bps :: double
  dv_tx_rate_bps :: double
  dv_tags :: "string list"

definition new_device :: DeviceState where
  "new_device =
     \<lparr>dv_mac = [], dv_ip = [], dv_hostname = [], dv_interface_name = [], dv_source = [], dv_neigh_state = [],
      dv_status = Unknown, dv_first_seen = 0, dv_last_seen = 0, dv_last_dhcp = 0, dv_last_traffic = 0,
      dv_last_rate = 0, dv_rx_bytes_total = 0, dv_tx_bytes_total = 0, dv_rx_rate_bps = 0, dv_tx_rate_bps = 0,
      dv_tags = []\<rparr>"

record TrafficSnapshot =
  ts_mac :: string
  ts_ip :: string
  ts_ts :: time
  ts_rx_bytes :: u64
  ts_tx_bytes :: u64

record InterfaceSnapshot =
  is_interface_name :: string
  is_ts :: time
  is_rx_bytes :: u64
  is_tx_bytes :: u64

record InterfaceState =
  if_interface_name :: string
  if_last_seen :: time
  if_last_rate :: time
  if_rx_bytes_total :: u64
  if_tx_bytes_total :: u64
  if_rx_rate_bps :: double
  if_tx_rate_bps :: double

definition new_interface :: InterfaceState where
  "new_interface =
     \<lparr>if_interface_name = [], if_last_seen = 0, if_last_rate = 0, if_rx_bytes_total = 0, if_tx_bytes_total = 0,
      if_rx_rate_bps = 0, if_tx_rate_bps = 0\<rparr>"

record Event =
  ev_id :: string
  ev_ts :: time
  ev_type :: string
  ev_severity :: EventSeverity
  ev_source :: string
  ev_message :: string
  ev_fields :: fields

definition new_event :: Event where
  "new_event =
     \<lparr>ev_id = [], ev_ts = 0, ev_type = [], ev_severity = Info, ev_source = [], ev_message = [], ev_fields = []\<rparr>"

record WANAttackEvent =
  wa_ts :: time
  wa_in_if :: string
  wa_src_ip :: string
  wa_dst_ip :: string
  wa_src_port :: string
  wa_dst_port :: string
  wa_proto :: string
  wa_length :: string
  wa_raw :: string

record Summary =
  sm_active_devices :: nat
  sm_idle_devices :: nat
  sm_offline_devices :: nat
  sm_unknown_devices :: nat
  sm_wan_attack_5m :: nat
  sm_rx_rate_bps :: double
  sm_tx_rate_bps :: double
  sm_rate_source :: string
  sm_rate_interface :: string
  sm_last_interface_ts :: time
  sm_last_log_ts :: time

definition new_summary :: Summary where
  "new_summary =
     \<lparr>sm_active_devices = 0, sm_idle_devices = 0, sm_offline_devices = 0, sm_unknown_devices = 0,
      sm_wan_attack_5m = 0, sm_rx_rate_bps = 0, sm_tx_rate_bps = 0, sm_rate_source = ''devices'',
      sm_rate_interface = [], sm_last_interface_ts = 0, sm_last_log_ts = 0\<rparr>"

end
