(* ===== verification/Ring_Buffer.thy ===== *)
theory Ring_Buffer
  imports Netmon_Prelude
begin

text \<open>
  \<^verbatim>\<open>RingBuffer<T>\<close> of \<^verbatim>\<open>include/netmon/ring_buffer.hpp\<close>: a deque that forgets its oldest elements. The
  contract the stores rely on, that a buffer holds the most recent elements up to its capacity, is the
  locale \<open>bounded_buffer\<close>; both the class and the hand-written trimming of the traffic points satisfy it.
\<close>

record 'a ring_buffer =
  rb_capacity :: nat
  rb_items :: "'a list"

text \<open>The loop of \<^verbatim>\<open>trim()\<close> that pops from the front, and the whole of \<^verbatim>\<open>trim()\<close>.\<close>

fun pop_excess :: "nat \<Rightarrow> 'a list \<Rightarrow> 'a list" where
  "pop_excess cap xs = (if 0 < cap \<and> cap < length xs then pop_excess cap (tl xs) else xs)"

declare pop_excess.simps [simp del]

definition rb_trim :: "'a ring_buffer \<Rightarrow> 'a ring_buffer" where
  "rb_trim b =
     (let items = pop_excess (rb_capacity b) (rb_items b)
      in b\<lparr>rb_items := (if rb_capacity b = 0 then [] else items)\<rparr>)"

definition rb_new :: "nat \<Rightarrow> 'a ring_buffer" where
  "rb_new capacity = \<lparr>rb_capacity = capacity, rb_items = []\<rparr>"

definition rb_setCapacity :: "nat \<Rightarrow> 'a ring_buffer \<Rightarrow> 'a ring_buffer" where
  "rb_setCapacity capacity b = rb_trim (b\<lparr>rb_capacity := capacity\<rparr>)"

definition rb_push :: "'a \<Rightarrow> 'a ring_buffer \<Rightarrow> 'a ring_buffer" where
  "rb_push x b = (if rb_capacity b = 0 then b else rb_trim (b\<lparr>rb_items := rb_items b @ [x]\<rparr>))"

definition rb_items_limit :: "'a ring_buffer \<Rightarrow> nat \<Rightarrow> 'a list" where
  "rb_items_limit b limit =
     (let n = length (rb_items b)
      in if n = 0 then []
         else let wanted = (if limit = 0 \<or> n < limit then n else limit); start = n - wanted
              in map (\<lambda>i. rb_items b ! i) [start ..< n])"

definition rb_size :: "'a ring_buffer \<Rightarrow> nat" where
  "rb_size b = length (rb_items b)"

definition rb_clear :: "'a ring_buffer \<Rightarrow> 'a ring_buffer" where
  "rb_clear b = b\<lparr>rb_items := []\<rparr>"

definition rb_wf :: "'a ring_buffer \<Rightarrow> bool" where
  "rb_wf b \<longleftrightarrow> length (rb_items b) \<le> rb_capacity b"

section \<open>The contract of a bounded buffer\<close>

locale bounded_buffer =
  fixes push :: "'a \<Rightarrow> 'b \<Rightarrow> 'b" and contents :: "'b \<Rightarrow> 'a list" and cap :: "'b \<Rightarrow> nat"
  assumes contents_push:
      "length (contents b) \<le> cap b \<Longrightarrow> contents (push x b) = last_n (cap b) (contents b @ [x])"
    and cap_push: "cap (push x b) = cap b"
begin

lemma push_bounded: "length (contents b) \<le> cap b \<Longrightarrow> length (contents (push x b)) \<le> cap (push x b)"
  by (simp add: contents_push cap_push)

lemma cap_pushes: "cap (fold push xs b) = cap b"
  by (induction xs arbitrary: b) (simp_all add: cap_push)

text \<open>After any sequence of pushes the buffer holds exactly the most recent elements.\<close>

lemma contents_pushes:
  "length (contents b) \<le> cap b \<Longrightarrow> contents (fold push xs b) = last_n (cap b) (contents b @ xs)"
proof (induction xs rule: rev_induct)
  case Nil
  then show ?case by (simp add: last_n_all)
next
  case (snoc x xs)
  then have IH: "contents (fold push xs b) = last_n (cap b) (contents b @ xs)" by simp
  have "contents (fold push (xs @ [x]) b) = last_n (cap b) (last_n (cap b) (contents b @ xs) @ [x])"
    by (simp add: contents_push cap_pushes IH)
  also have "\<dots> = last_n (cap b) (contents b @ xs @ [x])"
    using last_n_append_snoc [of "cap b" "contents b @ xs" x] by (cases "cap b = 0") simp_all
  finally show ?case .
qed

lemma set_contents_push:
  "length (contents b) \<le> cap b \<Longrightarrow> set (contents (push x b)) \<subseteq> insert x (set (contents b))"
  using set_last_n_subset [of "cap b" "contents b @ [x]"] by (auto simp: contents_push)

end

section \<open>The ring buffer satisfies it\<close>

lemma pop_excess_eq: "0 < cap \<Longrightarrow> pop_excess cap xs = last_n cap xs"
proof (induction cap xs rule: pop_excess.induct)
  case (1 cap xs)
  show ?case
  proof (cases "cap < length xs")
    case True
    then obtain y ys where xs: "xs = y # ys" by (cases xs) auto
    with True 1 have "pop_excess cap ys = last_n cap ys" by simp
    with True xs "1.prems" show ?thesis
      by (simp add: pop_excess.simps [of cap "y # ys"] last_n_def Suc_diff_le)
  next
    case False
    then show ?thesis
      by (simp add: pop_excess.simps [of cap xs] last_n_all)
  qed
qed

lemma rb_trim_items [simp]: "rb_items (rb_trim b) = last_n (rb_capacity b) (rb_items b)"
  by (simp add: rb_trim_def pop_excess_eq)

lemma rb_capacity_simps [simp]:
  "rb_capacity (rb_trim b) = rb_capacity b" "rb_capacity (rb_push x b) = rb_capacity b"
  "rb_capacity (rb_clear b) = rb_capacity b" "rb_capacity (rb_setCapacity c b) = c"
  "rb_capacity (rb_new c) = c"
  by (simp_all add: rb_trim_def rb_push_def rb_clear_def rb_setCapacity_def rb_new_def)

lemma rb_new_items [simp]: "rb_items (rb_new c) = []"
  by (simp add: rb_new_def)

interpretation ring: bounded_buffer rb_push rb_items rb_capacity
  by unfold_locales (auto simp: rb_push_def)

lemma rb_wf_new [simp]: "rb_wf (rb_new c)"
  by (simp add: rb_wf_def)

lemma rb_wf_push [simp]: "rb_wf b \<Longrightarrow> rb_wf (rb_push x b)"
  unfolding rb_wf_def by (rule ring.push_bounded)

lemma rb_wf_setCapacity: "rb_wf (rb_setCapacity c b)"
  by (simp add: rb_wf_def rb_setCapacity_def)

lemma rb_items_limit_eq: "rb_items_limit b limit = (if limit = 0 then rb_items b else last_n limit (rb_items b))"
proof -
  have "map ((!) xs) [length xs - k ..< length xs] = last_n k xs" for k and xs :: "'a list"
    unfolding last_n_def by (metis map_nth map_map drop_map drop_upt add_0)
  from this [of "rb_items b"] show ?thesis
    by (auto simp: rb_items_limit_def Let_def last_n_all map_nth)
qed

text \<open>
  After any sequence of pushes, \<^verbatim>\<open>items(limit)\<close> of a ring buffer of capacity \<open>cap\<close> returns exactly the
  last pushed elements in order: at most \<open>cap\<close> of them, and at most \<open>limit\<close> unless \<open>limit\<close> is 0.
\<close>

theorem ring_buffer_keeps_latest:
  "rb_items_limit (fold rb_push xs (rb_new cap)) limit = last_n (if limit = 0 then cap else min cap limit) xs"
proof -
  have "last_n k (last_n cap xs) = last_n (min cap k) xs" for k
    by (auto simp: last_n_def min_def intro!: arg_cong [of _ _ "\<lambda>n. drop n xs"])
  then show ?thesis
    by (simp add: rb_items_limit_eq ring.contents_pushes)
qed

end
