(* ===== verification/State_Store.thy ===== *)
theory State_Store
  imports Netmon_Types Netmon_Config Ring_Buffer "HOL-Library.Product_Lexorder" "HOL-Library.Multiset"
begin

text \<open>
  \<^verbatim>\<open>StateStore\<close> of \<^verbatim>\<open>src/state_store.cpp\<close>: the in-memory state of the observer. Each public operation runs
  under the store's lock, so it is one function from the state before to the state after; the readings
  it takes of the system clock are its argument \<open>clk\<close>, in the order in which the code takes them.
\<close>

text \<open>Lookups are reasoned about as functions of the key, not as membership of a pair.\<close>

declare map_of_eq_Some_iff [simp del] Some_eq_map_of_iff [simp del]

section \<open>The state\<close>

record StateStore =
  st_config :: Config
  st_devices :: "(string, DeviceState) dict"
  st_ip_to_key :: "(string, string) dict"
  st_traffic :: "(string, TrafficSnapshot list) dict"
  st_if_snaps :: "(string, InterfaceSnapshot) dict"
  st_ifs :: "(string, InterfaceState) dict"
  st_events :: "Event ring_buffer"
  st_attacks :: "WANAttackEvent ring_buffer"
  st_last_log :: time
  st_event_seq :: u64

definition store_new :: "Config \<Rightarrow> StateStore" where
  "store_new config =
     \<lparr>st_config = config, st_devices = [], st_ip_to_key = [], st_traffic = [], st_if_snaps = [], st_ifs = [],
      st_events = rb_new (unat (max_events config)), st_attacks = rb_new (unat (max_attack_events config)),
      st_last_log = 0, st_event_seq = 0\<rparr>"

section \<open>Helpers\<close>

definition seconds :: "int \<Rightarrow> int" where
  "seconds n = n * ns_per_s"

definition isReachableNeighbour :: "string \<Rightarrow> bool" where
  "isReachableNeighbour state =
     (let normalized = upper state
      in normalized = ''REACHABLE'' \<or> normalized = ''STALE'' \<or> normalized = ''DELAY'' \<or> normalized = ''PROBE'')"

definition isFailedNeighbour :: "string \<Rightarrow> bool" where
  "isFailedNeighbour state =
     (let normalized = upper state
      in normalized = ''FAILED'' \<or> normalized = ''INCOMPLETE'' \<or> normalized = ''NOARP'')"

definition informative :: "string \<Rightarrow> bool" where
  "informative v \<longleftrightarrow> v \<noteq> [] \<and> v \<noteq> ''unknown'' \<and> v \<noteq> ''*''"

definition setIfNotEmpty :: "string \<Rightarrow> string \<Rightarrow> string" where
  "setIfNotEmpty dest v = (if informative v then v else dest)"

definition hasTag :: "string list \<Rightarrow> string \<Rightarrow> bool" where
  "hasTag tags tag \<longleftrightarrow> List.member tags tag"

definition add_tag :: "string list \<Rightarrow> string \<Rightarrow> string list" where
  "add_tag tags tag = (if hasTag tags tag then tags else tags @ [tag])"

definition statusFor :: "Config \<Rightarrow> DeviceState \<Rightarrow> time \<Rightarrow> DeviceStatus" where
  "statusFor config device now =
     (if dv_last_seen device = 0 then Unknown
      else let age = tdiff now (dv_last_seen device)
           in if seconds (device_idle_ttl_seconds config) < age then Offline
              else if isFailedNeighbour (dv_neigh_state device) then Idle
              else if age \<le> seconds (device_online_ttl_seconds config)
                   \<and> (dv_neigh_state device = [] \<or> isReachableNeighbour (dv_neigh_state device)
                      \<or> dv_source device = ''dhcp'' \<or> dv_source device = ''traffic''
                      \<or> dv_source device = ''wifi'')
              then Online
              else Idle)"

definition nextEventId :: "StateStore \<Rightarrow> string \<times> StateStore" where
  "nextEventId s =
     (let sq = st_event_seq s + 1 in (''evt-'' @ show_nat (unat sq), s\<lparr>st_event_seq := sq\<rparr>))"

definition touchLastLogLocked :: "time \<Rightarrow> time \<Rightarrow> StateStore \<Rightarrow> StateStore" where
  "touchLastLogLocked now ts0 s =
     (let ts = (if ts0 = 0 then now else ts0)
      in if st_last_log s = 0 \<or> st_last_log s < ts then s\<lparr>st_last_log := ts\<rparr> else s)"

definition mac_key :: "string \<Rightarrow> string" where
  "mac_key mac = ''mac:'' @ mac"

definition ip_key :: "string \<Rightarrow> string" where
  "ip_key ip = ''ip:'' @ ip"

definition makeKey :: "string \<Rightarrow> string \<Rightarrow> string" where
  "makeKey mac ip =
     (if lower mac \<noteq> [] then mac_key (lower mac) else if ip \<noteq> [] then ip_key ip else [])"

definition find_by_ip :: "StateStore \<Rightarrow> string \<Rightarrow> string" where
  "find_by_ip s ip =
     (if ip \<noteq> []
      then case dget (st_ip_to_key s) ip of
             Some key \<Rightarrow> key
           | None \<Rightarrow> (if dget (st_devices s) (ip_key ip) \<noteq> None then ip_key ip else [])
      else [])"

definition findKeyLocked :: "StateStore \<Rightarrow> string \<Rightarrow> string \<Rightarrow> string" where
  "findKeyLocked s mac ip =
     (if lower mac \<noteq> [] \<and> dget (st_devices s) (mac_key (lower mac)) \<noteq> None then mac_key (lower mac)
      else find_by_ip s ip)"

section \<open>Devices\<close>

definition mergeDeviceLocked :: "Config \<Rightarrow> DeviceState \<Rightarrow> DeviceState \<Rightarrow> time \<Rightarrow> DeviceState" where
  "mergeDeviceLocked config current incoming now =
     (let incoming_seen = (if dv_last_seen incoming = 0 then now else dv_last_seen incoming);
          merged = current
            \<lparr>dv_first_seen := (if dv_first_seen current = 0 then incoming_seen else dv_first_seen current),
             dv_last_seen := (if dv_last_seen current = 0 \<or> dv_last_seen current < incoming_seen
                              then incoming_seen else dv_last_seen current),
             dv_mac := setIfNotEmpty (dv_mac current) (lower (dv_mac incoming)),
             dv_ip := setIfNotEmpty (dv_ip current) (dv_ip incoming),
             dv_hostname := setIfNotEmpty (dv_hostname current) (dv_hostname incoming),
             dv_interface_name := setIfNotEmpty (dv_interface_name current) (dv_interface_name incoming),
             dv_source := setIfNotEmpty (dv_source current) (dv_source incoming),
             dv_neigh_state := setIfNotEmpty (dv_neigh_state current) (dv_neigh_state incoming),
             dv_last_dhcp := (if dv_last_dhcp incoming \<noteq> 0 then dv_last_dhcp incoming else dv_last_dhcp current),
             dv_last_traffic := (if dv_last_traffic incoming \<noteq> 0 then dv_last_traffic incoming
                                 else dv_last_traffic current),
             dv_last_rate := (if dv_last_rate incoming \<noteq> 0 then dv_last_rate incoming else dv_last_rate current),
             dv_rx_bytes_total := (if 0 < dv_rx_bytes_total incoming then dv_rx_bytes_total incoming
                                   else dv_rx_bytes_total current),
             dv_tx_bytes_total := (if 0 < dv_tx_bytes_total incoming then dv_tx_bytes_total incoming
                                   else dv_tx_bytes_total current),
             dv_rx_rate_bps := (if 0 < \<bar>dv_rx_rate_bps incoming\<bar> then dv_rx_rate_bps incoming
                                else dv_rx_rate_bps current),
             dv_tx_rate_bps := (if 0 < \<bar>dv_tx_rate_bps incoming\<bar> then dv_tx_rate_bps incoming
                                else dv_tx_rate_bps current),
             dv_tags := foldl add_tag (dv_tags current) (dv_tags incoming)\<rparr>
      in merged\<lparr>dv_status := (if dv_status incoming = Offline then Offline else statusFor config merged now)\<rparr>)"

text \<open>
  The node handle of \<^verbatim>\<open>updateDevice\<close>: a record found under an \<^verbatim>\<open>ip:\<close> key moves to the \<^verbatim>\<open>mac:\<close> key once its
  MAC address is known, together with its traffic points. Inserting a node whose key is taken fails, and
  the node is dropped.
\<close>

definition rekeyDevice :: "string \<Rightarrow> string \<Rightarrow> StateStore \<Rightarrow> StateStore \<times> string" where
  "rekeyDevice key desired_key s =
     (case dget (st_devices s) key of
        None \<Rightarrow> (s, key)
      | Some node \<Rightarrow>
          let devs = derase key (st_devices s);
              devs' = (if dget devs desired_key = None then dput desired_key node devs else devs);
              moved = dget_or (st_traffic s) key [];
              tps = derase key (dput desired_key moved (st_traffic s))
          in (s\<lparr>st_devices := devs', st_traffic := tps\<rparr>, desired_key))"

definition storeDevice :: "string \<Rightarrow> DeviceState \<Rightarrow> StateStore \<Rightarrow> StateStore" where
  "storeDevice key device s =
     (let s1 = s\<lparr>st_devices := dput key device (st_devices s)\<rparr>
      in if dv_ip device \<noteq> [] then s1\<lparr>st_ip_to_key := dput (dv_ip device) key (st_ip_to_key s1)\<rparr> else s1)"

text \<open>The key of a report: that of a known device, or else the one its own addresses give.\<close>

definition deviceKey :: "StateStore \<Rightarrow> string \<Rightarrow> string \<Rightarrow> string" where
  "deviceKey s mac ip =
     (let found = findKeyLocked s mac ip in if found = [] then makeKey mac ip else found)"

definition resolveDevice :: "DeviceState \<Rightarrow> StateStore \<Rightarrow> StateStore \<times> string" where
  "resolveDevice device s =
     (let key = deviceKey s (dv_mac device) (dv_ip device);
          desired_key = makeKey (dv_mac device) (dv_ip device)
      in if dv_mac device \<noteq> [] \<and> prefix ''ip:'' key \<and> desired_key \<noteq> [] \<and> desired_key \<noteq> key
         then rekeyDevice key desired_key s else (s, key))"

definition updateDevice :: "clock \<Rightarrow> DeviceState \<Rightarrow> StateStore \<Rightarrow> StateStore" where
  "updateDevice clk device s =
     (let now = clk 0
      in if deviceKey s (dv_mac device) (dv_ip device) = [] then s
         else let (s1, key1) = resolveDevice device s;
                  current = mergeDeviceLocked (st_config s) (dget_or (st_devices s1) key1 new_device) device now
              in touchLastLogLocked (clk 1) (dv_last_seen current) (storeDevice key1 current s1))"

section \<open>Traffic\<close>

text \<open>
  The rate of a device after a snapshot, whether the snapshot is stored, and whether a counter went
  back. \<open>previous\<close> is the last stored point, if any.
\<close>

definition traffic_rate ::
  "Config \<Rightarrow> DeviceState \<Rightarrow> TrafficSnapshot option \<Rightarrow> TrafficSnapshot \<Rightarrow> (double \<times> double) \<times> bool \<times> bool" where
  "traffic_rate config device previous cur =
     (case previous of
        None \<Rightarrow> ((dv_rx_rate_bps device, dv_tx_rate_bps device), True, False)
      | Some prev \<Rightarrow>
          if ts_rx_bytes cur < ts_rx_bytes prev \<or> ts_tx_bytes cur < ts_tx_bytes prev
          then ((0, 0), True, True)
          else if ts_rx_bytes cur \<noteq> ts_rx_bytes prev \<or> ts_tx_bytes cur \<noteq> ts_tx_bytes prev
          then let delta_time = seconds_of_ns (tdiff (ts_ts cur) (ts_ts prev))
               in if 0 < delta_time
                  then ((rate_of (ts_rx_bytes cur - ts_rx_bytes prev) delta_time,
                         rate_of (ts_tx_bytes cur - ts_tx_bytes prev) delta_time), True, False)
                  else ((dv_rx_rate_bps device, dv_tx_rate_bps device), False, False)
          else if dv_last_rate device \<noteq> 0
                  \<and> tdiff (ts_ts cur) (dv_last_rate device) \<le> seconds (traffic_rate_hold_seconds config)
          then ((dv_rx_rate_bps device, dv_tx_rate_bps device), False, False)
          else ((0, 0), False, False))"

text \<open>The loop that drops the oldest points, here without the special case of a zero capacity.\<close>

fun trim_points :: "nat \<Rightarrow> 'a list \<Rightarrow> 'a list" where
  "trim_points n xs = (if n < length xs then trim_points n (tl xs) else xs)"

declare trim_points.simps [simp del]

definition applyTraffic :: "Config \<Rightarrow> DeviceState \<Rightarrow> double \<times> double \<Rightarrow> bool \<Rightarrow> TrafficSnapshot \<Rightarrow> DeviceState" where
  "applyTraffic config device rates counters_reset cur =
     (let updated = device
            \<lparr>dv_first_seen := (if dv_first_seen device = 0 then ts_ts cur else dv_first_seen device),
             dv_last_seen := max (dv_last_seen device) (ts_ts cur),
             dv_last_traffic := ts_ts cur,
             dv_mac := setIfNotEmpty (dv_mac device) (ts_mac cur),
             dv_ip := setIfNotEmpty (dv_ip device) (ts_ip cur),
             dv_source := ''traffic'',
             dv_rx_bytes_total := ts_rx_bytes cur,
             dv_tx_bytes_total := ts_tx_bytes cur,
             dv_rx_rate_bps := fst rates,
             dv_tx_rate_bps := snd rates,
             dv_last_rate := (if 0 < fst rates \<or> 0 < snd rates then ts_ts cur
                              else if counters_reset then 0 else dv_last_rate device),
             dv_tags := add_tag (dv_tags device) ''traffic''\<rparr>
      in updated\<lparr>dv_status := statusFor config updated (ts_ts cur)\<rparr>)"

definition normalizeTraffic :: "time \<Rightarrow> TrafficSnapshot \<Rightarrow> TrafficSnapshot" where
  "normalizeTraffic now snapshot =
     snapshot\<lparr>ts_ts := (if ts_ts snapshot = 0 then now else ts_ts snapshot), ts_mac := lower (ts_mac snapshot)\<rparr>"

definition updateTraffic :: "clock \<Rightarrow> TrafficSnapshot \<Rightarrow> StateStore \<Rightarrow> StateStore" where
  "updateTraffic clk snapshot s =
     (if ts_mac snapshot = [] \<and> ts_ip snapshot = [] then s
      else let cur = normalizeTraffic (clk 0) snapshot;
               key = deviceKey s (ts_mac cur) (ts_ip cur)
           in if key = [] then s
              else let points = dget_or (st_traffic s) key [];
                       device = dget_or (st_devices s) key new_device;
                       previous = (if points = [] then None else Some (last points));
                       (rates, should_store, counters_reset) = traffic_rate (st_config s) device previous cur;
                       points' = (if should_store
                                  then trim_points (unat (max_traffic_points_per_device (st_config s)))
                                         (points @ [cur])
                                  else points);
                       device' = applyTraffic (st_config s) device rates counters_reset cur
                   in touchLastLogLocked (clk 1) (ts_ts cur)
                        (storeDevice key device' (s\<lparr>st_traffic := dput key points' (st_traffic s)\<rparr>)))"

section \<open>Interfaces\<close>

definition interface_rate :: "InterfaceSnapshot option \<Rightarrow> InterfaceSnapshot \<Rightarrow> (double \<times> double) option" where
  "interface_rate previous cur =
     (case previous of
        None \<Rightarrow> None
      | Some prev \<Rightarrow>
          let delta_time = seconds_of_ns (tdiff (is_ts cur) (is_ts prev));
              counters_reset = (is_rx_bytes cur < is_rx_bytes prev \<or> is_tx_bytes cur < is_tx_bytes prev)
          in if 0 < delta_time \<and> \<not> counters_reset
             then Some (rate_of (is_rx_bytes cur - is_rx_bytes prev) delta_time,
                        rate_of (is_tx_bytes cur - is_tx_bytes prev) delta_time)
             else None)"

definition updateInterface :: "clock \<Rightarrow> InterfaceSnapshot \<Rightarrow> StateStore \<Rightarrow> StateStore" where
  "updateInterface clk snapshot s =
     (if is_interface_name snapshot = [] then s
      else let cur = snapshot\<lparr>is_ts := (if is_ts snapshot = 0 then clk 0 else is_ts snapshot)\<rparr>;
               name = is_interface_name cur;
               state = dget_or (st_ifs s) name new_interface;
               rates = interface_rate (dget (st_if_snaps s) name) cur;
               state' = state
                 \<lparr>if_interface_name := name, if_last_seen := is_ts cur,
                  if_rx_bytes_total := is_rx_bytes cur, if_tx_bytes_total := is_tx_bytes cur,
                  if_rx_rate_bps := (case rates of None \<Rightarrow> 0 | Some r \<Rightarrow> fst r),
                  if_tx_rate_bps := (case rates of None \<Rightarrow> 0 | Some r \<Rightarrow> snd r),
                  if_last_rate := (if rates \<noteq> None then is_ts cur else if_last_rate state)\<rparr>
           in touchLastLogLocked (clk 1) (is_ts cur)
                (s\<lparr>st_ifs := dput name state' (st_ifs s), st_if_snaps := dput name cur (st_if_snaps s)\<rparr>))"

section \<open>Events\<close>

definition pushEventLocked :: "clock \<Rightarrow> Event \<Rightarrow> StateStore \<Rightarrow> StateStore" where
  "pushEventLocked clk event s =
     (let (event1, s1) = (if ev_id event = []
                          then let (i, s') = nextEventId s in (event\<lparr>ev_id := i\<rparr>, s')
                          else (event, s));
          event2 = (if ev_ts event1 = 0 then event1\<lparr>ev_ts := clk 0\<rparr> else event1)
      in touchLastLogLocked (clk 1) (ev_ts event2) (s1\<lparr>st_events := rb_push event2 (st_events s1)\<rparr>))"

definition addEvent :: "clock \<Rightarrow> Event \<Rightarrow> StateStore \<Rightarrow> StateStore" where
  "addEvent clk event s = pushEventLocked clk event s"

definition addWANAttack :: "clock \<Rightarrow> WANAttackEvent \<Rightarrow> StateStore \<Rightarrow> StateStore" where
  "addWANAttack clk event s =
     (let attack = event\<lparr>wa_ts := (if wa_ts event = 0 then clk 0 else wa_ts event)\<rparr>
      in touchLastLogLocked (clk 2) (if wa_ts event = 0 then clk 1 else wa_ts event)
           (s\<lparr>st_attacks := rb_push attack (st_attacks s)\<rparr>))"

section \<open>Queries\<close>

definition recentEvents :: "StateStore \<Rightarrow> nat \<Rightarrow> Event list" where
  "recentEvents s limit = rb_items_limit (st_events s) limit"

definition recentWANAttacks :: "StateStore \<Rightarrow> nat \<Rightarrow> WANAttackEvent list" where
  "recentWANAttacks s limit = rb_items_limit (st_attacks s) limit"

definition eventBufferSize :: "StateStore \<Rightarrow> nat" where
  "eventBufferSize s = rb_size (st_events s)"

definition wanAttackBufferSize :: "StateStore \<Rightarrow> nat" where
  "wanAttackBufferSize s = rb_size (st_attacks s)"

text \<open>The comparison function of \<^verbatim>\<open>devices()\<close>, and the key whose order it is.\<close>

definition device_before :: "DeviceState \<Rightarrow> DeviceState \<Rightarrow> bool" where
  "device_before lhs rhs =
     (if dv_status lhs \<noteq> dv_status rhs then status_rank (dv_status lhs) < status_rank (dv_status rhs)
      else dv_last_seen rhs < dv_last_seen lhs)"

definition device_sort_key :: "DeviceState \<Rightarrow> nat \<times> int" where
  "device_sort_key d = (status_rank (dv_status d), - dv_last_seen d)"

text \<open>
  \<^verbatim>\<open>std::sort\<close> may order equivalent elements in any way; the model takes the stable order. What is proved of
  it holds for every sorted permutation.
\<close>

definition devices :: "time \<Rightarrow> StateStore \<Rightarrow> DeviceState list" where
  "devices now s =
     sort_key device_sort_key
       (map (\<lambda>(_, device). device\<lparr>dv_status := statusFor (st_config s) device now\<rparr>) (st_devices s))"

definition count_status :: "Config \<Rightarrow> time \<Rightarrow> Summary \<Rightarrow> DeviceState \<Rightarrow> Summary" where
  "count_status config now out device =
     (case statusFor config device now of
        Online \<Rightarrow> out\<lparr>sm_active_devices := sm_active_devices out + 1\<rparr>
      | Idle \<Rightarrow> out\<lparr>sm_idle_devices := sm_idle_devices out + 1\<rparr>
      | Offline \<Rightarrow> out\<lparr>sm_offline_devices := sm_offline_devices out + 1\<rparr>
      | Unknown \<Rightarrow> out\<lparr>sm_unknown_devices := sm_unknown_devices out + 1\<rparr>)"

definition sum_device :: "Config \<Rightarrow> time \<Rightarrow> Summary \<Rightarrow> DeviceState \<Rightarrow> Summary" where
  "sum_device config now out device =
     (let out1 = count_status config now out device
      in out1\<lparr>sm_rx_rate_bps := fl (sm_rx_rate_bps out1 + dv_rx_rate_bps device),
              sm_tx_rate_bps := fl (sm_tx_rate_bps out1 + dv_tx_rate_bps device)\<rparr>)"

definition kInterfaceRateFreshWindow :: int where
  "kInterfaceRateFreshWindow = 10"

definition fresher :: "time \<Rightarrow> InterfaceState option \<Rightarrow> InterfaceState \<Rightarrow> InterfaceState option" where
  "fresher now best iface =
     (if if_last_rate iface = 0 \<or> seconds kInterfaceRateFreshWindow < tdiff now (if_last_rate iface) then best
      else case best of
             None \<Rightarrow> Some iface
           | Some b \<Rightarrow> if if_last_rate b < if_last_rate iface then Some iface else Some b)"

definition summary :: "time \<Rightarrow> StateStore \<Rightarrow> Summary" where
  "summary now s =
     (let window_start = wrap64 (now - seconds 300);
          out = foldl (sum_device (st_config s) now) (new_summary\<lparr>sm_last_log_ts := st_last_log s\<rparr>)
                  (map snd (st_devices s));
          freshest_interface = foldl (fresher now) None (map snd (st_ifs s));
          out1 = (case freshest_interface of
                    None \<Rightarrow> out
                  | Some iface \<Rightarrow>
                      out\<lparr>sm_rx_rate_bps := if_rx_rate_bps iface, sm_tx_rate_bps := if_tx_rate_bps iface,
                          sm_rate_source := ''interface'', sm_rate_interface := if_interface_name iface,
                          sm_last_interface_ts := if_last_seen iface\<rparr>)
      in out1\<lparr>sm_wan_attack_5m :=
               length (filter (\<lambda>event. window_start \<le> wa_ts event) (rb_items (st_attacks s)))\<rparr>)"

section \<open>Cleanup\<close>

definition expire_rate :: "Config \<Rightarrow> time \<Rightarrow> DeviceState \<Rightarrow> DeviceState" where
  "expire_rate config now device =
     (if (0 < dv_rx_rate_bps device \<or> 0 < dv_tx_rate_bps device)
         \<and> (dv_last_rate device = 0
            \<or> seconds (traffic_rate_hold_seconds config) < tdiff now (dv_last_rate device))
      then device\<lparr>dv_rx_rate_bps := 0, dv_tx_rate_bps := 0\<rparr> else device)"

definition refresh_device :: "Config \<Rightarrow> time \<Rightarrow> DeviceState \<Rightarrow> DeviceState" where
  "refresh_device config now device =
     (let device1 = expire_rate config now device
      in device1\<lparr>dv_status := statusFor config device1 now\<rparr>)"

definition offline_event :: "string \<Rightarrow> time \<Rightarrow> DeviceState \<Rightarrow> Event" where
  "offline_event i now device =
     new_event\<lparr>ev_id := i, ev_ts := now, ev_type := ''device'', ev_severity := Warning, ev_source := ''state'',
       ev_message := ''Device offline'',
       ev_fields := [(''mac'', dv_mac device), (''ip'', dv_ip device), (''hostname'', dv_hostname device)]\<rparr>"

definition expired :: "Config \<Rightarrow> time \<Rightarrow> DeviceState \<Rightarrow> bool" where
  "expired config now device \<longleftrightarrow>
     dv_status device = Offline \<and> dv_last_seen device \<noteq> 0
     \<and> seconds (device_keep_ttl_seconds config) < tdiff now (dv_last_seen device)"

definition cleanup_device ::
  "time \<Rightarrow> time \<Rightarrow> StateStore \<times> string list \<Rightarrow> string \<times> DeviceState \<Rightarrow> StateStore \<times> string list" where
  "cleanup_device clk_now now acc entry =
     (case acc of (s, erase_keys) \<Rightarrow> case entry of (key, device) \<Rightarrow>
        let device' = refresh_device (st_config s) now device;
            s1 = s\<lparr>st_devices := dput key device' (st_devices s)\<rparr>;
            s2 = (if dv_status device \<noteq> Offline \<and> dv_status device' = Offline
                  then let (i, s') = nextEventId s1
                       in touchLastLogLocked clk_now now
                            (s'\<lparr>st_events := rb_push (offline_event i now device') (st_events s')\<rparr>)
                  else s1)
        in (s2, if expired (st_config s) now device' then erase_keys @ [key] else erase_keys))"

definition erase_device :: "StateStore \<Rightarrow> string \<Rightarrow> StateStore" where
  "erase_device s key =
     s\<lparr>st_devices := derase key (st_devices s), st_traffic := derase key (st_traffic s),
       st_ip_to_key := filter (\<lambda>(_, k). k \<noteq> key) (st_ip_to_key s)\<rparr>"

definition cleanup :: "time \<Rightarrow> time \<Rightarrow> StateStore \<Rightarrow> StateStore" where
  "cleanup clk_now now s =
     (let (s1, erase_keys) = foldl (cleanup_device clk_now now) (s, []) (st_devices s)
      in foldl erase_device s1 erase_keys)"

section \<open>The points of a device are a bounded buffer\<close>

lemma trim_points_eq: "trim_points n xs = last_n n xs"
proof (induction n xs rule: trim_points.induct)
  case (1 n xs)
  then show ?case
    by (cases xs) (simp_all add: trim_points.simps [of n] last_n_def Suc_diff_le)
qed

interpretation traffic_points: bounded_buffer "\<lambda>p b. (fst b, trim_points (fst b) (snd b @ [p]))" snd fst
  by unfold_locales (simp_all add: trim_points_eq)

end
