(* ===== verification/Store_Invariant.thy ===== *)
theory Store_Invariant
  imports State_Store
begin

text \<open>
  The invariant of the state store (\<^verbatim>\<open>src/src/state_store.cpp\<close>) and what cleanup does.

  \<^item> \<open>store_inv\<close>: device keys are \<open>mac:\<close> with a lower-case address or \<open>ip:\<close> with a non-empty one; the IP
    index only names devices that exist; traffic points only exist for known devices and stay
    within the configured bound; the two interface tables have the same names; both event buffers
    hold at most their capacity.
  \<^item> One lemma per operation that the invariant is kept, and \<open>store_step\<close>, the operations as a
    transition relation: every operation holds the mutex of the store from its first to its last
    access, so a concurrent run is a sequence of these steps.
  \<^item> \<open>cleanup_eq\<close>: the two loops of \<open>cleanup\<close> in closed form.
\<close>

section \<open>The invariant\<close>

definition key_ok :: "string \<Rightarrow> bool" where
  "key_ok key \<longleftrightarrow> (\<exists>m. key = mac_key m \<and> m \<noteq> [] \<and> lower m = m) \<or> (\<exists>x. key = ip_key x \<and> x \<noteq> [])"

definition ip_fits :: "string \<Rightarrow> string \<Rightarrow> bool" where
  "ip_fits key ip \<longleftrightarrow> (\<forall>x. key = ip_key x \<longrightarrow> ip = x)"

definition device_ok :: "string \<Rightarrow> DeviceState \<Rightarrow> bool" where
  "device_ok key d \<longleftrightarrow>
     key_ok key \<and> (dv_ip d \<noteq> [] \<longrightarrow> informative (dv_ip d) \<and> ip_fits key (dv_ip d))
     \<and> lower (dv_mac d) = dv_mac d \<and> distinct (dv_tags d)"

definition devices_ok :: "StateStore \<Rightarrow> bool" where
  "devices_ok s \<longleftrightarrow> dwf (st_devices s) \<and> (\<forall>key d. dget (st_devices s) key = Some d \<longrightarrow> device_ok key d)"

definition index_ok :: "string set \<Rightarrow> StateStore \<Rightarrow> bool" where
  "index_ok B s \<longleftrightarrow> dwf (st_ip_to_key s)
     \<and> (\<forall>ip key. dget (st_ip_to_key s) ip = Some key \<longrightarrow>
          informative ip \<and> ip_fits key ip \<and> (ip \<in> B \<or> key \<in> dkeys (st_devices s)))"

definition traffic_ok :: "StateStore \<Rightarrow> bool" where
  "traffic_ok s \<longleftrightarrow> dwf (st_traffic s) \<and> dkeys (st_traffic s) \<subseteq> dkeys (st_devices s)
     \<and> (\<forall>key ps. dget (st_traffic s) key = Some ps \<longrightarrow>
          length ps \<le> unat (max_traffic_points_per_device (st_config s)))"

definition interfaces_ok :: "StateStore \<Rightarrow> bool" where
  "interfaces_ok s \<longleftrightarrow> dwf (st_ifs s) \<and> dwf (st_if_snaps s) \<and> dkeys (st_ifs s) = dkeys (st_if_snaps s)"

definition buffers_ok :: "StateStore \<Rightarrow> bool" where
  "buffers_ok s \<longleftrightarrow> rb_wf (st_events s) \<and> rb_wf (st_attacks s)
     \<and> rb_capacity (st_events s) = unat (max_events (st_config s))
     \<and> rb_capacity (st_attacks s) = unat (max_attack_events (st_config s))"

definition store_inv :: "StateStore \<Rightarrow> bool" where
  "store_inv s \<longleftrightarrow> devices_ok s \<and> index_ok {} s \<and> traffic_ok s \<and> interfaces_ok s \<and> buffers_ok s"

lemmas inv_defs = devices_ok_def index_ok_def traffic_ok_def interfaces_ok_def buffers_ok_def

section \<open>Keys\<close>

lemma key_simps [simp]:
  "ip_key x \<noteq> mac_key m" "mac_key m \<noteq> ip_key x" "ip_key x \<noteq> []" "mac_key m \<noteq> []"
  "[] \<noteq> ip_key x" "[] \<noteq> mac_key m"
  "ip_key x = ip_key y \<longleftrightarrow> x = y" "mac_key m = mac_key n \<longleftrightarrow> m = n"
  by (simp_all add: ip_key_def mac_key_def)

lemma prefix_ip_iff: "prefix ''ip:'' key \<longleftrightarrow> (\<exists>x. key = ip_key x)"
  by (auto simp: ip_key_def prefix_def)

lemma key_ok_simps [simp]: "key_ok (ip_key x) \<longleftrightarrow> x \<noteq> []" "key_ok (mac_key m) \<longleftrightarrow> m \<noteq> [] \<and> lower m = m"
  by (auto simp: key_ok_def)

lemma key_ok_nonempty: "key_ok key \<Longrightarrow> key \<noteq> []"
  by (auto simp: key_ok_def)

lemma ip_fits_simps [simp]: "ip_fits (mac_key m) ip" "ip_fits (ip_key x) ip \<longleftrightarrow> ip = x"
  by (auto simp: ip_fits_def)

lemma makeKey_ok: "makeKey mac ip \<noteq> [] \<Longrightarrow> key_ok (makeKey mac ip) \<and> ip_fits (makeKey mac ip) ip"
  by (auto simp: makeKey_def)

lemma informative_nonempty: "informative v \<Longrightarrow> v \<noteq> []"
  by (simp add: informative_def)

lemma findKey_known:
  assumes "store_inv s" "findKeyLocked s mac ip \<noteq> []"
  shows "findKeyLocked s mac ip \<in> dkeys (st_devices s)" and "ip_fits (findKeyLocked s mac ip) ip"
  using assms
  by (auto simp: findKeyLocked_def find_by_ip_def store_inv_def index_ok_def dkeys_iff split: if_splits option.splits)

lemma lookup_key_ok:
  assumes "store_inv s" and "key = deviceKey s mac ip" and "key \<noteq> []"
  shows "key_ok key" and "ip_fits key ip" and "device_ok key (dget_or (st_devices s) key new_device)"
proof -
  note key = assms(2) [unfolded deviceKey_def Let_def]
  have dev: "dget (st_devices s) k = Some d \<Longrightarrow> device_ok k d" for k d
    using assms(1) by (simp add: store_inv_def devices_ok_def)
  show k: "key_ok key"
  proof (cases "findKeyLocked s mac ip = []")
    case True
    then show ?thesis using makeKey_ok assms(3) key by simp
  next
    case False
    then obtain d where "dget (st_devices s) key = Some d"
      using findKey_known(1) [OF assms(1) False] key by (auto simp: dkeys_iff)
    then show ?thesis using dev by (auto simp: device_ok_def)
  qed
  show "ip_fits key ip"
    using makeKey_ok [of mac ip] findKey_known(2) [OF assms(1), of mac ip] assms(3) key by (auto split: if_splits)
  show "device_ok key (dget_or (st_devices s) key new_device)"
    using dev k by (auto simp: dget_or_def device_ok_def new_device_def lower_def split: option.split)
qed

section \<open>Records stay well-formed\<close>

lemma setIfNotEmpty_cases: "setIfNotEmpty d v = d \<or> (informative v \<and> setIfNotEmpty d v = v)"
  by (simp add: setIfNotEmpty_def)

lemma distinct_add_tag: "distinct tags \<Longrightarrow> distinct (add_tag tags t)"
  by (simp add: add_tag_def hasTag_def)

lemma distinct_add_tags: "distinct tags \<Longrightarrow> distinct (foldl add_tag tags ts)"
  by (induction ts arbitrary: tags) (simp_all add: distinct_add_tag)

lemma device_ok_merge:
  assumes "device_ok key current" "ip_fits key (dv_ip incoming)"
  shows "device_ok key (mergeDeviceLocked config current incoming now)"
  using assms
  by (auto simp: device_ok_def mergeDeviceLocked_def Let_def setIfNotEmpty_def distinct_add_tags)

lemma device_ok_traffic:
  assumes "device_ok key device" "ip_fits key (ts_ip cur)" "lower (ts_mac cur) = ts_mac cur"
  shows "device_ok key (applyTraffic config device rates reset cur)"
  using assms
  by (auto simp: device_ok_def applyTraffic_def Let_def setIfNotEmpty_def distinct_add_tag)

lemma refresh_device_simps [simp]:
  "dv_mac (refresh_device config now d) = dv_mac d" "dv_ip (refresh_device config now d) = dv_ip d"
  "dv_tags (refresh_device config now d) = dv_tags d" "dv_last_seen (refresh_device config now d) = dv_last_seen d"
  "dv_hostname (refresh_device config now d) = dv_hostname d"
  by (simp_all add: refresh_device_def expire_rate_def Let_def)

lemma device_ok_refresh: "device_ok key d \<Longrightarrow> device_ok key (refresh_device config now d)"
  by (simp add: device_ok_def)


section \<open>Every operation keeps the invariant\<close>

lemma touch_frame [frame_simps, simp]:
  "st_config (touchLastLogLocked now ts s) = st_config s"
  "st_devices (touchLastLogLocked now ts s) = st_devices s"
  "st_ip_to_key (touchLastLogLocked now ts s) = st_ip_to_key s"
  "st_traffic (touchLastLogLocked now ts s) = st_traffic s"
  "st_if_snaps (touchLastLogLocked now ts s) = st_if_snaps s"
  "st_ifs (touchLastLogLocked now ts s) = st_ifs s"
  "st_events (touchLastLogLocked now ts s) = st_events s"
  "st_attacks (touchLastLogLocked now ts s) = st_attacks s"
  "st_event_seq (touchLastLogLocked now ts s) = st_event_seq s"
  by (simp_all add: touchLastLogLocked_def Let_def)

lemma storeDevice_frame [frame_simps, simp]:
  "st_config (storeDevice key d s) = st_config s"
  "st_devices (storeDevice key d s) = dput key d (st_devices s)"
  "st_traffic (storeDevice key d s) = st_traffic s"
  "st_if_snaps (storeDevice key d s) = st_if_snaps s"
  "st_ifs (storeDevice key d s) = st_ifs s"
  "st_events (storeDevice key d s) = st_events s"
  "st_attacks (storeDevice key d s) = st_attacks s"
  "st_event_seq (storeDevice key d s) = st_event_seq s"
  "st_last_log (storeDevice key d s) = st_last_log s"
  by (simp_all add: storeDevice_def Let_def)

lemma store_inv_touch [simp]: "store_inv (touchLastLogLocked now ts s) = store_inv s"
  by (simp add: store_inv_def inv_defs)

lemma store_inv_new: "store_inv (store_new config)"
  by (simp add: store_inv_def inv_defs store_new_def)

lemma index_ok_store:
  assumes "index_ok B s" "B \<subseteq> {dv_ip d} - {[]}" "device_ok key d"
  shows "index_ok {} (storeDevice key d s)"
  using assms
  by (auto simp: index_ok_def storeDevice_def Let_def dict_simps device_ok_def dest: informative_nonempty)

lemma store_inv_storeDevice:
  assumes "devices_ok s" "index_ok B s" "B \<subseteq> {dv_ip d} - {[]}" "device_ok key d"
    and "traffic_ok (s\<lparr>st_devices := dput key d (st_devices s)\<rparr>)" "interfaces_ok s" "buffers_ok s"
  shows "store_inv (storeDevice key d s)"
proof -
  have "devices_ok (storeDevice key d s)"
    using assms(1,4) by (auto simp: devices_ok_def dict_simps)
  moreover have "index_ok {} (storeDevice key d s)"
    using assms(2-4) by (rule index_ok_store)
  ultimately show ?thesis
    using assms(5-7) by (simp add: store_inv_def traffic_ok_def interfaces_ok_def buffers_ok_def)
qed

lemma traffic_ok_new_device:
  "traffic_ok s \<Longrightarrow> traffic_ok (s\<lparr>st_devices := dput key d (st_devices s)\<rparr>)"
  by (auto simp: traffic_ok_def dict_simps)

text \<open>Moving a record to its MAC key leaves at most the index entry of its own address dangling.\<close>

lemma rekeyDevice_ok:
  assumes inv: "store_inv s" and node: "dget (st_devices s) (ip_key x) = Some node"
    and desired: "m \<noteq> []" "lower m = m" "dget (st_devices s) (mac_key m) = None"
    and eq: "rekeyDevice (ip_key x) (mac_key m) s = (s1, key1)"
  shows "key1 = mac_key m" and "dget (st_devices s1) (mac_key m) = Some node"
    and "devices_ok s1" and "index_ok {x} s1" and "traffic_ok s1" and "interfaces_ok s1" and "buffers_ok s1"
    and "st_config s1 = st_config s"
proof -
  let ?tp = "derase (ip_key x) (dput (mac_key m) (dget_or (st_traffic s) (ip_key x) []) (st_traffic s))"
  have s1: "s1 = s\<lparr>st_devices := dput (mac_key m) node (derase (ip_key x) (st_devices s)), st_traffic := ?tp\<rparr>"
    and k: "key1 = mac_key m"
    using eq node desired(3) by (auto simp: rekeyDevice_def Let_def dict_simps)
  show "key1 = mac_key m" by (rule k)
  show "dget (st_devices s1) (mac_key m) = Some node" by (simp add: s1 dict_simps)
  have "device_ok (ip_key x) node" using inv node by (simp add: store_inv_def devices_ok_def)
  then have "device_ok (mac_key m) node" using desired by (auto simp: device_ok_def)
  then show "devices_ok s1"
    using inv by (auto simp: s1 store_inv_def devices_ok_def dict_simps)
  show "index_ok {x} s1"
    using inv by (fastforce simp: s1 store_inv_def index_ok_def dict_simps)
  show "traffic_ok s1"
    using inv by (auto simp: s1 store_inv_def traffic_ok_def dict_simps dget_or_def split: option.splits)
  show "interfaces_ok s1" "buffers_ok s1" "st_config s1 = st_config s"
    using inv by (simp_all add: s1 store_inv_def interfaces_ok_def buffers_ok_def)
qed


lemma index_ok_uninformative: "index_ok {x} s \<Longrightarrow> \<not> informative x \<Longrightarrow> index_ok {} s"
  by (auto simp: index_ok_def)

lemma dv_ip_merge [simp]:
  "dv_ip (mergeDeviceLocked config current incoming now) = setIfNotEmpty (dv_ip current) (dv_ip incoming)"
  by (simp add: mergeDeviceLocked_def Let_def)

lemma findKey_ip_no_mac:
  "findKeyLocked s mac ip = ip_key x \<Longrightarrow> mac \<noteq> [] \<Longrightarrow> dget (st_devices s) (mac_key (lower mac)) = None"
  by (auto simp: findKeyLocked_def split: if_splits)

lemma store_inv_rekeyed:
  assumes inv: "store_inv s" and node: "dget (st_devices s) (ip_key (dv_ip device)) = Some node"
    and desired: "m \<noteq> []" "lower m = m" "dget (st_devices s) (mac_key m) = None"
    and eq: "rekeyDevice (ip_key (dv_ip device)) (mac_key m) s = (s1, key1)"
  shows "store_inv (storeDevice key1
           (mergeDeviceLocked config (dget_or (st_devices s1) key1 new_device) device now) s1)"
proof -
  note r = rekeyDevice_ok [OF inv node desired eq]
  define current where
    "current = mergeDeviceLocked config (dget_or (st_devices s1) key1 new_device) device now"
  have "device_ok (mac_key m) node" using r(2,3) by (simp add: devices_ok_def)
  then have cur: "device_ok (mac_key m) current"
    by (simp add: current_def r(1,2) dget_or_def device_ok_merge)
  obtain B where B: "index_ok B s1" "B \<subseteq> {dv_ip current} - {[]}"
  proof (cases "informative (dv_ip device)")
    case True
    then have "dv_ip current = dv_ip device" "dv_ip device \<noteq> []"
      by (simp_all add: current_def setIfNotEmpty_def informative_nonempty)
    with r(4) show thesis by (intro that [of "{dv_ip device}"]) simp_all
  next
    case False
    with index_ok_uninformative [OF r(4)] show thesis by (intro that [of "{}"]) simp_all
  qed
  show ?thesis
    using store_inv_storeDevice [OF r(3) B cur traffic_ok_new_device [OF r(5)] r(6,7)]
    by (simp add: current_def r(1))
qed

lemma store_inv_storeDevice_known:
  assumes inv: "store_inv s" and "device_ok key d"
  shows "store_inv (storeDevice key d s)"
  using assms by (intro store_inv_storeDevice [of s "{}"]) (simp_all add: store_inv_def traffic_ok_new_device)

text \<open>
  \<open>updateDevice\<close> either writes to the key it looked up, or first moves a record from its \<open>ip:\<close> key to the
  \<open>mac:\<close> key of the report.
\<close>

lemma resolveDevice_cases:
  assumes inv: "store_inv s" and key: "deviceKey s (dv_mac device) (dv_ip device) \<noteq> []"
    and res: "resolveDevice device s = (s1, key1)"
  obtains (same) "s1 = s" "key1 = deviceKey s (dv_mac device) (dv_ip device)"
      "dv_mac device = [] \<or> \<not> prefix ''ip:'' key1"
  | (moved) m node where "m = lower (dv_mac device)" "m \<noteq> []" "lower m = m"
      "dget (st_devices s) (ip_key (dv_ip device)) = Some node" "dget (st_devices s) (mac_key m) = None"
      "rekeyDevice (ip_key (dv_ip device)) (mac_key m) s = (s1, key1)"
proof (cases "dv_mac device = [] \<or> \<not> prefix ''ip:'' (deviceKey s (dv_mac device) (dv_ip device))")
  case True
  then show thesis using res by (intro same) (auto simp: resolveDevice_def Let_def)
next
  case False
  define m where "m = lower (dv_mac device)"
  have m: "m \<noteq> []" "lower m = m" "makeKey (dv_mac device) (dv_ip device) = mac_key m" "dv_mac device \<noteq> []"
    using False by (simp_all add: m_def makeKey_def)
  obtain x where x: "deviceKey s (dv_mac device) (dv_ip device) = ip_key x"
    using False by (auto simp: prefix_ip_iff)
  then have ip: "x = dv_ip device" using lookup_key_ok(2) [OF inv refl key] by simp
  have found: "findKeyLocked s (dv_mac device) (dv_ip device) = ip_key x"
    using x m(3) by (auto simp: deviceKey_def Let_def split: if_splits)
  then obtain node where "dget (st_devices s) (ip_key x) = Some node"
    using findKey_known(1) [OF inv, of "dv_mac device" "dv_ip device"] by (auto simp: dkeys_iff)
  moreover have "dget (st_devices s) (mac_key m) = None"
    using findKey_ip_no_mac [OF found m(4)] by (simp add: m_def)
  ultimately show thesis
    using moved [of m node] m res False x ip by (auto simp: m_def resolveDevice_def Let_def)
qed

lemma store_inv_updateDevice:
  assumes inv: "store_inv s"
  shows "store_inv (updateDevice clk device s)"
proof (cases "deviceKey s (dv_mac device) (dv_ip device) = []")
  case False
  obtain s1 key1 where res: "resolveDevice device s = (s1, key1)" by fastforce
  define current where
    "current = mergeDeviceLocked (st_config s) (dget_or (st_devices s1) key1 new_device) device (clk 0)"
  from inv False res have "store_inv (storeDevice key1 current s1)"
  proof (cases rule: resolveDevice_cases)
    case same
    have "device_ok key1 current"
      using lookup_key_ok(2,3) [OF inv refl False] same by (simp add: current_def device_ok_merge)
    then show ?thesis using store_inv_storeDevice_known [OF inv] same by simp
  next
    case moved
    from moved(4,2,3,5,6) show ?thesis unfolding current_def by (rule store_inv_rekeyed [OF inv])
  qed
  then show ?thesis using False res by (simp add: updateDevice_def Let_def current_def)
qed (use inv in \<open>simp add: updateDevice_def\<close>)

lemma store_inv_updateTraffic:
  assumes inv: "store_inv s"
  shows "store_inv (updateTraffic clk snapshot s)"
proof -
  define cur where "cur = normalizeTraffic (clk 0) snapshot"
  define key where "key = deviceKey s (ts_mac cur) (ts_ip cur)"
  define points where "points = dget_or (st_traffic s) key []"
  define device where "device = dget_or (st_devices s) key new_device"
  obtain rates should_store reset where
    rate: "traffic_rate (st_config s) device (if points = [] then None else Some (last points)) cur
           = (rates, should_store, reset)"
    by (metis prod_cases3)
  define n where "n = unat (max_traffic_points_per_device (st_config s))"
  define points' where "points' = (if should_store then trim_points n (points @ [cur]) else points)"
  define device' where "device' = applyTraffic (st_config s) device rates reset cur"
  define s1 where "s1 = s\<lparr>st_traffic := dput key points' (st_traffic s)\<rparr>"
  have step: "updateTraffic clk snapshot s =
      (if ts_mac snapshot = [] \<and> ts_ip snapshot = [] \<or> key = [] then s
       else touchLastLogLocked (clk 1) (ts_ts cur) (storeDevice key device' s1))"
    using rate unfolding s1_def points'_def device'_def n_def
    by (simp add: updateTraffic_def Let_def cur_def [symmetric] key_def [symmetric] points_def [symmetric]
        device_def [symmetric])
  have "store_inv (storeDevice key device' s1)" if "key \<noteq> []"
  proof (rule store_inv_storeDevice [where B = "{}"])
    note ok = lookup_key_ok [OF inv key_def that]
    show "device_ok key device'"
      using ok unfolding device'_def device_def
      by (intro device_ok_traffic) (simp_all add: cur_def normalizeTraffic_def)
    have "length points \<le> n"
      using inv by (auto simp: points_def dget_or_def n_def store_inv_def traffic_ok_def split: option.split)
    then have "length points' \<le> n"
      using traffic_points.push_bounded [of "(n, points)"] by (simp add: points'_def)
    then show "traffic_ok (s1\<lparr>st_devices := dput key device' (st_devices s1)\<rparr>)"
      using inv by (auto simp: s1_def store_inv_def traffic_ok_def n_def dict_simps)
  qed (use inv in \<open>simp_all add: s1_def store_inv_def inv_defs\<close>)
  then show ?thesis using inv by (simp add: step)
qed

lemma store_inv_updateInterface: "store_inv s \<Longrightarrow> store_inv (updateInterface clk snapshot s)"
  by (auto simp: updateInterface_def Let_def store_inv_def inv_defs dict_simps)

lemma store_inv_pushEvent: "store_inv s \<Longrightarrow> store_inv (s\<lparr>st_events := rb_push event (st_events s)\<rparr>)"
  by (simp add: store_inv_def inv_defs)

lemma store_inv_seq [simp]:
  "store_inv (s\<lparr>st_event_seq := n, st_events := b\<rparr>) = store_inv (s\<lparr>st_events := b\<rparr>)"
  by (simp add: store_inv_def inv_defs)

lemma store_inv_nextEventId: "store_inv s \<Longrightarrow> store_inv (snd (nextEventId s))"
  by (simp add: nextEventId_def Let_def store_inv_def inv_defs)

lemma store_inv_addEvent: "store_inv s \<Longrightarrow> store_inv (addEvent clk event s)"
  by (auto simp: addEvent_def pushEventLocked_def nextEventId_def Let_def intro!: store_inv_pushEvent)

lemma store_inv_addWANAttack: "store_inv s \<Longrightarrow> store_inv (addWANAttack clk event s)"
  by (simp add: addWANAttack_def Let_def) (simp add: store_inv_def inv_defs)

section \<open>Cleanup\<close>

definition newly_offline :: "Config \<Rightarrow> time \<Rightarrow> DeviceState \<Rightarrow> bool" where
  "newly_offline config now d \<longleftrightarrow> dv_status d \<noteq> Offline \<and> dv_status (refresh_device config now d) = Offline"

fun offline_events :: "Config \<Rightarrow> time \<Rightarrow> u64 \<Rightarrow> DeviceState list \<Rightarrow> Event list" where
  "offline_events config now q [] = []"
| "offline_events config now q (d # ds) =
     (if newly_offline config now d
      then offline_event (''evt-'' @ show_nat (unat (q + 1))) now (refresh_device config now d)
             # offline_events config now (q + 1) ds
      else offline_events config now q ds)"

definition refreshed :: "Config \<Rightarrow> time \<Rightarrow> (string, DeviceState) dict \<Rightarrow> (string, DeviceState) dict" where
  "refreshed config now = map (\<lambda>(key, d). (key, refresh_device config now d))"

definition expired_keys :: "Config \<Rightarrow> time \<Rightarrow> (string, DeviceState) dict \<Rightarrow> string list" where
  "expired_keys config now ds = map fst (filter (\<lambda>(_, d). expired config now d) (refreshed config now ds))"

lemma refreshed_simps [simp]:
  "refreshed config now [] = []"
  "refreshed config now ((key, d) # ds) = (key, refresh_device config now d) # refreshed config now ds"
  "map fst (refreshed config now ds) = map fst ds"
  by (auto simp: refreshed_def)

lemma update_append_notin: "key \<notin> dkeys as \<Longrightarrow> dput key v (as @ (key, w) # bs) = as @ (key, v) # bs"
  by (induction as) auto

definition push_all :: "Event list \<Rightarrow> Event ring_buffer \<Rightarrow> Event ring_buffer" where
  "push_all es b = fold rb_push es b"

definition touched :: "time \<Rightarrow> time \<Rightarrow> time \<Rightarrow> time" where
  "touched now ts0 l = (let ts = (if ts0 = 0 then now else ts0) in if l = 0 \<or> l < ts then ts else l)"

lemma touch_eq: "touchLastLogLocked now ts s = s\<lparr>st_last_log := touched now ts (st_last_log s)\<rparr>"
  by (simp add: touchLastLogLocked_def touched_def Let_def)

lemma touched_idem [simp]: "touched now ts (touched now ts l) = touched now ts l"
  by (simp add: touched_def Let_def)

lemma push_all_simps [simp]: "push_all [] b = b" "push_all (e # es) b = push_all es (rb_push e b)"
  by (simp_all add: push_all_def)

lemma expired_keys_simps [simp]:
  "expired_keys config now [] = []"
  "expired_keys config now ((key, d) # ds) =
     (if expired config now (refresh_device config now d) then [key] else []) @ expired_keys config now ds"
  by (simp_all add: expired_keys_def)

definition swept :: "time \<Rightarrow> time \<Rightarrow> (string, DeviceState) dict \<Rightarrow> (string, DeviceState) dict
    \<Rightarrow> StateStore \<Rightarrow> StateStore" where
  "swept c now as ds s =
     (let es = offline_events (st_config s) now (st_event_seq s) (map snd ds)
      in s\<lparr>st_devices := as @ refreshed (st_config s) now ds,
           st_events := push_all es (st_events s),
           st_last_log := (if es = [] then st_last_log s else touched c now (st_last_log s)),
           st_event_seq := st_event_seq s + of_nat (length es)\<rparr>)"

lemma cleanup_device_swept:
  assumes "st_devices s = as @ (key, d) # ds" "dwf (st_devices s)"
  shows "cleanup_device c now (s, ks) (key, d) =
    ((swept c now as [(key, d)] s)\<lparr>st_devices := (as @ refreshed (st_config s) now [(key, d)]) @ ds\<rparr>,
     ks @ expired_keys (st_config s) now [(key, d)])"
  using assms
  by (auto simp: cleanup_device_def swept_def touch_eq nextEventId_def newly_offline_def Let_def
      update_append_notin)

lemma swept_step:
  "swept c now (as @ refreshed (st_config s) now [e]) ds
     ((swept c now as [e] s)\<lparr>st_devices := ds'\<rparr>) = swept c now as (e # ds) s"
  by (cases e) (auto simp: swept_def Let_def add.assoc)

lemma cleanup_fold:
  assumes "st_devices s = as @ ds" "dwf (as @ ds)"
  shows "foldl (cleanup_device c now) (s, ks) ds
         = (swept c now as ds s, ks @ expired_keys (st_config s) now ds)"
  using assms
proof (induction ds arbitrary: s as ks)
  case Nil
  then show ?case by (simp add: swept_def)
next
  case (Cons e ds)
  obtain key d where e: "e = (key, d)" by (cases e)
  let ?as = "as @ refreshed (st_config s) now [e]"
  let ?s = "(swept c now as [e] s)\<lparr>st_devices := ?as @ ds\<rparr>"
  have "foldl (cleanup_device c now) (s, ks) (e # ds)
        = foldl (cleanup_device c now) (?s, ks @ expired_keys (st_config s) now [e]) ds"
    using Cons.prems by (simp add: e cleanup_device_swept [where as = as and ds = ds])
  also have "\<dots> = (swept c now ?as ds ?s, (ks @ expired_keys (st_config s) now [e]) @ expired_keys (st_config s) now ds)"
    using Cons.prems by (subst Cons.IH [where as = ?as]) (auto simp: e swept_def Let_def)
  finally show ?case unfolding swept_step by (simp add: e)
qed

lemma derase_filter: "derase key xs = filter (\<lambda>(k, _). k \<noteq> key) xs"
  by (auto simp: AList.delete_eq intro: filter_cong)

lemma erase_fold:
  "foldl erase_device s ks =
     s\<lparr>st_devices := filter (\<lambda>(key, _). key \<notin> set ks) (st_devices s),
       st_traffic := filter (\<lambda>(key, _). key \<notin> set ks) (st_traffic s),
       st_ip_to_key := filter (\<lambda>(_, key). key \<notin> set ks) (st_ip_to_key s)\<rparr>"
  by (induction ks arbitrary: s) (simp_all add: erase_device_def derase_filter case_prod_unfold conj_commute)

lemma cleanup_eq:
  assumes "dwf (st_devices s)"
  shows "cleanup c now s =
    (let ks = set (expired_keys (st_config s) now (st_devices s));
         es = offline_events (st_config s) now (st_event_seq s) (map snd (st_devices s))
     in s\<lparr>st_devices := filter (\<lambda>(key, _). key \<notin> ks) (refreshed (st_config s) now (st_devices s)),
           st_ip_to_key := filter (\<lambda>(_, key). key \<notin> ks) (st_ip_to_key s),
           st_traffic := filter (\<lambda>(key, _). key \<notin> ks) (st_traffic s),
           st_events := push_all es (st_events s),
           st_last_log := (if es = [] then st_last_log s else touched c now (st_last_log s)),
           st_event_seq := st_event_seq s + of_nat (length es)\<rparr>)"
  using assms by (simp add: cleanup_def cleanup_fold [of s "[]"] erase_fold swept_def Let_def)

lemma dget_filter_key: "dget (filter (\<lambda>(k, _). P k) xs) key = (if P key then dget xs key else None)"
  by (induction xs) auto

lemma dwf_filter: "dwf xs \<Longrightarrow> dwf (filter P xs)"
  by (induction xs) auto

lemma dget_filter_val: "dwf xs \<Longrightarrow> dget (filter (\<lambda>(_, v). P v) xs) key =
    (case dget xs key of None \<Rightarrow> None | Some v \<Rightarrow> if P v then Some v else None)"
  by (induction xs) (auto split: option.split simp: map_of_eq_None_iff)

lemma dget_refreshed: "dget (refreshed config now ds) key = map_option (refresh_device config now) (dget ds key)"
  by (simp add: refreshed_def map_of_map)

lemma dkeys_filter_key: "dkeys (filter (\<lambda>(k, _). P k) xs) = {key \<in> dkeys xs. P key}"
  by auto

lemma dkeys_refreshed: "dkeys (refreshed config now ds) = dkeys ds"
  by (simp add: refreshed_def image_image case_prod_unfold)

lemma push_all_keeps [simp]:
  "rb_wf b \<Longrightarrow> rb_wf (push_all es b)" "rb_capacity (push_all es b) = rb_capacity b"
  by (induction es arbitrary: b) simp_all

lemma store_inv_cleanup:
  assumes "store_inv s"
  shows "store_inv (cleanup c now s)"
proof -
  have wf: "dwf (st_devices s)" using assms by (simp add: store_inv_def devices_ok_def)
  then show ?thesis using assms
    unfolding store_inv_def cleanup_eq [OF wf] Let_def inv_defs
    by (auto simp: dwf_filter dget_filter_key dget_filter_val dget_refreshed device_ok_refresh
        dkeys_filter_key dkeys_refreshed simp del: set_filter split: if_splits option.splits)
qed

section \<open>Reachable stores\<close>

inductive store_step :: "StateStore \<Rightarrow> StateStore \<Rightarrow> bool" where
  UpdateDevice: "store_step s (updateDevice clk device s)"
| UpdateTraffic: "store_step s (updateTraffic clk traffic_snapshot s)"
| UpdateInterface: "store_step s (updateInterface clk interface_snapshot s)"
| AddEvent: "store_step s (addEvent clk event s)"
| AddWANAttack: "store_step s (addWANAttack clk attack s)"
| NextEventId: "store_step s (snd (nextEventId s))"
| Cleanup: "store_step s (cleanup c now s)"

inductive_cases store_stepE: "store_step s t"

interpretation store: invariant_system "\<lambda>s. s = store_new config" store_step store_inv
  by unfold_locales
     (auto elim!: store_stepE intro: store_inv_new store_inv_nextEventId store_inv_updateDevice store_inv_updateTraffic
       store_inv_updateInterface store_inv_addEvent store_inv_addWANAttack store_inv_cleanup)

text \<open>What the operations leave alone.\<close>

lemma resolveDevice_frame:
  assumes "resolveDevice device s = (s1, key1)"
  shows "st_config s1 = st_config s" "st_events s1 = st_events s" "st_attacks s1 = st_attacks s"
    "st_event_seq s1 = st_event_seq s" "st_last_log s1 = st_last_log s"
  using assms by (auto simp: resolveDevice_def rekeyDevice_def Let_def split: if_splits option.splits)

lemma update_frame [frame_simps]:
  "st_config (updateDevice clk device s) = st_config s" "st_events (updateDevice clk device s) = st_events s"
  "st_attacks (updateDevice clk device s) = st_attacks s" "st_event_seq (updateDevice clk device s) = st_event_seq s"
  "st_config (updateTraffic clk traffic s) = st_config s" "st_events (updateTraffic clk traffic s) = st_events s"
  "st_attacks (updateTraffic clk traffic s) = st_attacks s" "st_event_seq (updateTraffic clk traffic s) = st_event_seq s"
  "st_config (updateInterface clk iface s) = st_config s" "st_events (updateInterface clk iface s) = st_events s"
  "st_attacks (updateInterface clk iface s) = st_attacks s" "st_event_seq (updateInterface clk iface s) = st_event_seq s"
  "st_config (addWANAttack clk attack s) = st_config s" "st_events (addWANAttack clk attack s) = st_events s"
  "st_attacks (addWANAttack clk attack s) =
     rb_push (attack\<lparr>wa_ts := (if wa_ts attack = 0 then clk 0 else wa_ts attack)\<rparr>) (st_attacks s)"
  "st_event_seq (addWANAttack clk attack s) = st_event_seq s"
  "st_config (addEvent clk event s) = st_config s" "st_attacks (addEvent clk event s) = st_attacks s"
  "st_config (snd (nextEventId s)) = st_config s" "st_attacks (snd (nextEventId s)) = st_attacks s"
  "st_events (snd (nextEventId s)) = st_events s" "st_event_seq (snd (nextEventId s)) = st_event_seq s + 1"
  by (auto simp: updateDevice_def updateTraffic_def updateInterface_def addWANAttack_def addEvent_def
      pushEventLocked_def nextEventId_def Let_def resolveDevice_frame split: prod.split)

lemma addEvent_known_id:
  assumes "ev_id event \<noteq> []"
  shows "st_events (addEvent clk event s) =
      rb_push (event\<lparr>ev_ts := (if ev_ts event = 0 then clk 0 else ev_ts event)\<rparr>) (st_events s)"
    and "st_event_seq (addEvent clk event s) = st_event_seq s"
  using assms by (simp_all add: addEvent_def pushEventLocked_def Let_def)

text \<open>
  C1: Whatever sequence of updates, events and cleanups the threads of the program run on a new
  store, the store stays consistent: keys are canonical, every entry of the IP index names a known
  device whose key fits the address, traffic history exists only for known devices and is bounded,
  and the event buffers are within their capacity.
\<close>

theorem reachable_store_inv:
  "reach (\<lambda>s. s = store_new config) store_step s \<Longrightarrow> store_inv s"
  by (rule store.reach_inv)

theorem reachable_store_inv_witness:
  "store_inv (updateDevice (\<lambda>_. 7) (new_device\<lparr>dv_mac := ''AA'', dv_ip := ''10.0.0.2''\<rparr>)
     (store_new default_config))"
  by (rule reachable_store_inv [of default_config])
     (rule reach.step, rule reach.init, rule refl, rule store_step.UpdateDevice)

end
