(* ===== verification/Store_Properties.thy ===== *)
theory Store_Properties
  imports Store_Invariant
begin

text \<open>
  What the operations of the state store (\<^verbatim>\<open>src/src/state_store.cpp\<close>) do: lookup after an update, the
  frame of an update, traffic rates and their accuracy, ageing of devices, cleanup, and the
  agreement of \<open>summary\<close> with \<open>devices\<close>.
\<close>

section \<open>Lookup after an update\<close>

lemma find_after_store_mac:
  "mac \<noteq> [] \<Longrightarrow> findKeyLocked (storeDevice (mac_key (lower mac)) d s) mac ip = mac_key (lower mac)"
  by (simp add: findKeyLocked_def dict_simps)

lemma find_after_store_ip:
  assumes "dget (st_devices (storeDevice key d s)) (mac_key (lower mac)) = None \<or> mac = []"
    and "ip \<noteq> []" and "informative ip \<Longrightarrow> dv_ip d = ip" and "\<not> informative ip \<Longrightarrow> key = ip_key ip"
    and inv: "store_inv (storeDevice key d s)"
  shows "findKeyLocked (storeDevice key d s) mac ip = key"
proof -
  have "findKeyLocked (storeDevice key d s) mac ip = find_by_ip (storeDevice key d s) ip"
    using assms(1) by (auto simp: findKeyLocked_def)
  also have "\<dots> = key"
  proof (cases "informative ip")
    case True
    then show ?thesis using assms(2,3) by (simp add: find_by_ip_def storeDevice_def Let_def dict_simps)
  next
    case False
    then have "dget (st_ip_to_key (storeDevice key d s)) ip = None"
      using inv by (cases "dget (st_ip_to_key (storeDevice key d s)) ip") (auto simp: store_inv_def index_ok_def)
    then show ?thesis using assms(2,4) False by (simp add: find_by_ip_def dict_simps)
  qed
  finally show ?thesis .
qed

lemma deviceKey_empty_iff: "deviceKey s mac ip = [] \<longleftrightarrow> mac = [] \<and> ip = []"
proof -
  have "makeKey mac ip = [] \<longleftrightarrow> mac = [] \<and> ip = []" "findKeyLocked s [] [] = []"
    by (simp_all add: makeKey_def findKeyLocked_def find_by_ip_def)
  then show ?thesis by (auto simp: deviceKey_def Let_def)
qed

lemma deviceKey_by_ip:
  assumes "store_inv s" "deviceKey s mac ip \<noteq> mac_key (lower mac)" "mac \<noteq> [] \<or> ip \<noteq> []"
  shows "ip \<noteq> []" and "\<not> informative ip \<Longrightarrow> deviceKey s mac ip = ip_key ip"
    and "mac = [] \<or> dget (st_devices s) (mac_key (lower mac)) = None"
  using assms
  by (cases "dget (st_devices s) (ip_key ip)"; cases "dget (st_ip_to_key s) ip";
      auto simp: deviceKey_def makeKey_def findKeyLocked_def find_by_ip_def store_inv_def index_ok_def Let_def
      split: if_splits)+

lemma updateDevice_stored:
  assumes inv: "store_inv s" and "dv_mac device \<noteq> [] \<or> dv_ip device \<noteq> []"
  obtains s1 key1 current where
    "updateDevice clk device s = touchLastLogLocked (clk 1) (dv_last_seen current) (storeDevice key1 current s1)"
    "resolveDevice device s = (s1, key1)"
    "current = mergeDeviceLocked (st_config s) (dget_or (st_devices s1) key1 new_device) device (clk 0)"
  using assms(2) deviceKey_empty_iff [of s "dv_mac device" "dv_ip device"]
  by (cases "resolveDevice device s") (auto simp: updateDevice_def Let_def)

lemma findKey_touch [simp]: "findKeyLocked (touchLastLogLocked now ts s) mac ip = findKeyLocked s mac ip"
  unfolding findKeyLocked_def find_by_ip_def touch_frame by (rule refl)

lemma set_add_tags: "set (foldl add_tag tags ts) = set tags \<union> set ts"
  by (induction ts arbitrary: tags) (auto simp: add_tag_def hasTag_def)

lemma merge_takes:
  fixes config current incoming now
  defines "d \<equiv> mergeDeviceLocked config current incoming now"
  shows "dv_mac d = setIfNotEmpty (dv_mac d) (lower (dv_mac incoming))"
    "dv_ip d = setIfNotEmpty (dv_ip d) (dv_ip incoming)"
    "dv_hostname d = setIfNotEmpty (dv_hostname d) (dv_hostname incoming)"
    "dv_neigh_state d = setIfNotEmpty (dv_neigh_state d) (dv_neigh_state incoming)"
    "(if dv_last_seen incoming = 0 then now else dv_last_seen incoming) \<le> dv_last_seen d"
    "set (dv_tags incoming) \<subseteq> set (dv_tags d)"
  by (auto simp: d_def mergeDeviceLocked_def Let_def setIfNotEmpty_def set_add_tags)

lemma updateDevice_lookup:
  assumes inv: "store_inv s" and addr: "dv_mac device \<noteq> [] \<or> dv_ip device \<noteq> []"
    and res: "resolveDevice device s = (s1, key1)"
    and st: "store_inv (storeDevice key1 current s1)"
    and ip: "informative (dv_ip device) \<Longrightarrow> dv_ip current = dv_ip device"
  shows "findKeyLocked (storeDevice key1 current s1) (dv_mac device) (dv_ip device) = key1"
proof -
  have "deviceKey s (dv_mac device) (dv_ip device) \<noteq> []" using addr by (simp add: deviceKey_empty_iff)
  from inv this res show ?thesis
  proof (cases rule: resolveDevice_cases)
    case same
    show ?thesis
    proof (cases "key1 = mac_key (lower (dv_mac device))")
      case True
      then have "dv_mac device \<noteq> []"
        using lookup_key_ok(1) [OF inv same(2)] by auto
      then show ?thesis using True by (simp add: find_after_store_mac)
    next
      case False
      note by_ip = deviceKey_by_ip [OF inv False [unfolded same(2)] addr]
      show ?thesis
        by (rule find_after_store_ip)
           (use by_ip ip st False in \<open>auto simp: same dict_simps\<close>)
    qed
  next
    case moved
    then have "key1 = mac_key (lower (dv_mac device))"
      using rekeyDevice_ok(1) [OF inv] by simp
    then show ?thesis using moved(1,2) by (simp add: find_after_store_mac)
  qed
qed

lemma updateDevice_finds:
  assumes inv: "store_inv s" and addr: "dv_mac device \<noteq> [] \<or> dv_ip device \<noteq> []"
  shows "\<exists>d. dget (st_devices (updateDevice clk device s))
               (findKeyLocked (updateDevice clk device s) (dv_mac device) (dv_ip device)) = Some d
    \<and> dv_mac d = setIfNotEmpty (dv_mac d) (lower (dv_mac device))
    \<and> dv_ip d = setIfNotEmpty (dv_ip d) (dv_ip device)
    \<and> dv_hostname d = setIfNotEmpty (dv_hostname d) (dv_hostname device)
    \<and> dv_neigh_state d = setIfNotEmpty (dv_neigh_state d) (dv_neigh_state device)
    \<and> (if dv_last_seen device = 0 then clk 0 else dv_last_seen device) \<le> dv_last_seen d
    \<and> set (dv_tags device) \<subseteq> set (dv_tags d)"
proof -
  obtain s1 key1 current where
    eq: "updateDevice clk device s = touchLastLogLocked (clk 1) (dv_last_seen current) (storeDevice key1 current s1)"
    and res: "resolveDevice device s = (s1, key1)"
    and current: "current = mergeDeviceLocked (st_config s) (dget_or (st_devices s1) key1 new_device) device (clk 0)"
    by (rule updateDevice_stored [OF inv addr, of clk])
  have "store_inv (storeDevice key1 current s1)"
    using store_inv_updateDevice [OF inv, of clk device] by (simp add: eq)
  from updateDevice_lookup [OF inv addr res this]
  have "findKeyLocked (storeDevice key1 current s1) (dv_mac device) (dv_ip device) = key1"
    by (simp add: current setIfNotEmpty_def)
  then have "dget (st_devices (updateDevice clk device s))
      (findKeyLocked (updateDevice clk device s) (dv_mac device) (dv_ip device)) = Some current"
    by (simp add: eq dict_simps)
  then show ?thesis
    using merge_takes [where config = "st_config s" and incoming = device and now = "clk 0"
        and current = "dget_or (st_devices s1) key1 new_device"]
    unfolding current [symmetric] by blast
qed



section \<open>Other devices\<close>

text \<open>
  \<open>updateDevice\<close> touches one device only: every record but the one the report is stored under, and the
  \<open>ip:\<close> record that may move to its MAC key, is unchanged, and no device disappears except by such a move.
\<close>

theorem updateDevice_frame:
  assumes inv: "store_inv s" and "key \<noteq> findKeyLocked (updateDevice clk device s) (dv_mac device) (dv_ip device)"
    and "dv_mac device = [] \<or> key \<noteq> ip_key (dv_ip device)"
  shows "dget (st_devices (updateDevice clk device s)) key = dget (st_devices s) key"
proof (cases "dv_mac device = [] \<and> dv_ip device = []")
  case True
  then show ?thesis using deviceKey_empty_iff [of s "[]" "[]"] by (simp add: updateDevice_def)
next
  case False
  then have addr: "dv_mac device \<noteq> [] \<or> dv_ip device \<noteq> []" by simp
  obtain s1 key1 current where
    eq: "updateDevice clk device s = touchLastLogLocked (clk 1) (dv_last_seen current) (storeDevice key1 current s1)"
    and res: "resolveDevice device s = (s1, key1)"
    and current: "current = mergeDeviceLocked (st_config s) (dget_or (st_devices s1) key1 new_device) device (clk 0)"
    by (rule updateDevice_stored [OF inv addr, of clk])
  have "store_inv (storeDevice key1 current s1)"
    using store_inv_updateDevice [OF inv, of clk device] by (simp add: eq)
  from updateDevice_lookup [OF inv addr res this] assms(2)
  have "key \<noteq> key1" by (simp add: eq current setIfNotEmpty_def)
  moreover have "deviceKey s (dv_mac device) (dv_ip device) \<noteq> []" using addr by (simp add: deviceKey_empty_iff)
  from inv this res have "key \<noteq> key1 \<longrightarrow> dget (st_devices s1) key = dget (st_devices s) key"
  proof (cases rule: resolveDevice_cases)
    case moved
    then show ?thesis using assms(3) by (auto simp: rekeyDevice_def Let_def dict_simps)
  qed simp
  ultimately show ?thesis by (simp add: eq dict_simps)
qed

theorem updateDevice_frame_witness:
  "dget (st_devices (updateDevice (\<lambda>_. 9) (new_device\<lparr>dv_mac := ''bb''\<rparr>)
     (updateDevice (\<lambda>_. 7) (new_device\<lparr>dv_mac := ''aa''\<rparr>) (store_new default_config)))) ''mac:aa''
   = dget (st_devices (updateDevice (\<lambda>_. 7) (new_device\<lparr>dv_mac := ''aa''\<rparr>) (store_new default_config))) ''mac:aa''"
proof (rule updateDevice_frame [OF store_inv_updateDevice [OF store_inv_new]])
  show "''mac:aa'' \<noteq> findKeyLocked (updateDevice (\<lambda>_. 9) (new_device\<lparr>dv_mac := ''bb''\<rparr>)
      (updateDevice (\<lambda>_. 7) (new_device\<lparr>dv_mac := ''aa''\<rparr>) (store_new default_config)))
      (dv_mac (new_device\<lparr>dv_mac := ''bb''\<rparr>)) (dv_ip (new_device\<lparr>dv_mac := ''bb''\<rparr>))"
    by code_simp
qed (simp add: ip_key_def)

section \<open>An address that changes hands\<close>

text \<open>
  C39: The store identifies a device by its address before it creates a new record. When an address that
  belonged to the MAC address \<open>m\<close> is reported with a MAC address \<open>m'\<close> not seen before, the new device takes over
  the record of the old one: there is a single device, still under the key of \<open>m\<close>, whose MAC field is
  \<open>m'\<close>, and no device is found under \<open>m'\<close> alone.
\<close>

theorem address_reuse_merges_devices:
  assumes "m \<noteq> m'" "informative m" "informative m'" "lower m = m" "lower m' = m'" "informative x"
    and s1_eq: "s1 = updateDevice clk (new_device\<lparr>dv_mac := m, dv_ip := x\<rparr>) (store_new config)"
    and s_eq: "s = updateDevice clk' (new_device\<lparr>dv_mac := m', dv_ip := x\<rparr>) s1"
  shows "(\<exists>d. st_devices s = [(mac_key m, d)] \<and> dv_mac d = m' \<and> dv_ip d = x) \<and> findKeyLocked s m' [] = []"
proof -
  have ne: "m \<noteq> []" "m' \<noteq> []" "x \<noteq> []" using assms by (auto dest: informative_nonempty)
  obtain d1 where s1: "st_devices s1 = [(mac_key m, d1)]" "st_ip_to_key s1 = [(x, mac_key m)]"
    using assms ne
    by (simp add: s1_eq updateDevice_def Let_def deviceKey_def findKeyLocked_def find_by_ip_def store_new_def
        makeKey_def resolveDevice_def prefix_ip_iff storeDevice_def mergeDeviceLocked_def setIfNotEmpty_def
        new_device_def)
  have "mac_key m' \<noteq> mac_key m" using assms(1) by simp
  with s1 ne assms(3,5,6) have s: "\<exists>d. st_devices s = [(mac_key m, d)] \<and> dv_mac d = m' \<and> dv_ip d = x"
    unfolding s_eq
    by (simp add: updateDevice_def Let_def deviceKey_def findKeyLocked_def find_by_ip_def makeKey_def
        resolveDevice_def prefix_ip_iff dget_or_def mergeDeviceLocked_def setIfNotEmpty_def)
  then show ?thesis using ne assms(1,5) by (auto simp: findKeyLocked_def find_by_ip_def)
qed

theorem address_reuse_merges_devices_witness:
  "findKeyLocked (updateDevice (\<lambda>_. 9) (new_device\<lparr>dv_mac := ''bb'', dv_ip := ''10.0.0.2''\<rparr>)
     (updateDevice (\<lambda>_. 7) (new_device\<lparr>dv_mac := ''aa'', dv_ip := ''10.0.0.2''\<rparr>) (store_new default_config)))
     ''bb'' [] = []"
proof -
  have "lower ''aa'' = ''aa''" "lower ''bb'' = ''bb''" by code_simp+
  then show ?thesis
    using address_reuse_merges_devices [OF _ _ _ _ _ _ refl refl,
        of "''aa''" "''bb''" "''10.0.0.2''" "\<lambda>_. 9" "\<lambda>_. 7" default_config]
    by (simp add: informative_def)
qed

section \<open>Traffic\<close>

lemma updateTraffic_result:
  assumes addr: "ts_mac snap \<noteq> [] \<or> ts_ip snap \<noteq> []"
    and cur: "cur = normalizeTraffic (clk 0) snap" and key: "key = deviceKey s (ts_mac cur) (ts_ip cur)"
    and points: "points = dget_or (st_traffic s) key []" and device: "device = dget_or (st_devices s) key new_device"
    and rate: "traffic_rate (st_config s) device (if points = [] then None else Some (last points)) cur
               = (rates, store_point, reset)"
  shows "dget (st_devices (updateTraffic clk snap s)) key = Some (applyTraffic (st_config s) device rates reset cur)"
    and "dget (st_traffic (updateTraffic clk snap s)) key =
      Some (if store_point then last_n (unat (max_traffic_points_per_device (st_config s))) (points @ [cur]) else points)"
proof -
  have "key \<noteq> []" using addr by (auto simp: key cur normalizeTraffic_def deviceKey_empty_iff)
  then have eq: "updateTraffic clk snap s = touchLastLogLocked (clk 1) (ts_ts cur)
      (storeDevice key (applyTraffic (st_config s) device rates reset cur)
        (s\<lparr>st_traffic := dput key (if store_point
            then last_n (unat (max_traffic_points_per_device (st_config s))) (points @ [cur]) else points)
            (st_traffic s)\<rparr>))"
    using addr rate unfolding points device
    by (auto simp: updateTraffic_def Let_def cur [symmetric] key [symmetric] trim_points_eq)
  show "dget (st_devices (updateTraffic clk snap s)) key = Some (applyTraffic (st_config s) device rates reset cur)"
    by (simp add: eq dict_simps)
  show "dget (st_traffic (updateTraffic clk snap s)) key =
      Some (if store_point then last_n (unat (max_traffic_points_per_device (st_config s))) (points @ [cur]) else points)"
    by (simp add: eq dict_simps)
qed

lemma updateTraffic_known:
  assumes addr: "ts_mac snap \<noteq> [] \<or> ts_ip snap \<noteq> []" and ts: "ts_ts snap \<noteq> 0"
    and key: "key = deviceKey s (lower (ts_mac snap)) (ts_ip snap)"
    and points: "dget (st_traffic s) key = Some (ps @ [prev])"
    and device: "device = dget_or (st_devices s) key new_device"
    and cur: "cur = snap\<lparr>ts_mac := lower (ts_mac snap)\<rparr>"
    and rate: "traffic_rate (st_config s) device (Some prev) cur = (rates, store_point, reset)"
  shows "dget (st_devices (updateTraffic clk snap s)) key = Some (applyTraffic (st_config s) device rates reset cur)"
    and "dget (st_traffic (updateTraffic clk snap s)) key =
      Some (if store_point then last_n (unat (max_traffic_points_per_device (st_config s))) (ps @ [prev, cur])
            else ps @ [prev])"
proof -
  have norm: "cur = normalizeTraffic (clk 0) snap" using ts by (simp add: cur normalizeTraffic_def)
  have k: "key = deviceKey s (ts_mac cur) (ts_ip cur)" by (simp add: key cur)
  have p: "dget_or (st_traffic s) key [] = ps @ [prev]" using points by (simp add: dget_or_def)
  have t: "traffic_rate (st_config s) device
      (if ps @ [prev] = [] then None else Some (last (ps @ [prev]))) cur = (rates, store_point, reset)"
    using rate by simp
  note result = updateTraffic_result [where clk = clk, OF addr norm k p [symmetric] device t]
  show "dget (st_devices (updateTraffic clk snap s)) key = Some (applyTraffic (st_config s) device rates reset cur)"
    by (rule result(1))
  show "dget (st_traffic (updateTraffic clk snap s)) key =
      Some (if store_point then last_n (unat (max_traffic_points_per_device (st_config s))) (ps @ [prev, cur])
            else ps @ [prev])"
    using result(2) by simp
qed

lemma applyTraffic_simps [simp]:
  "dv_rx_rate_bps (applyTraffic config device rates reset cur) = fst rates"
  "dv_tx_rate_bps (applyTraffic config device rates reset cur) = snd rates"
  "dv_last_rate (applyTraffic config device rates reset cur) =
     (if 0 < fst rates \<or> 0 < snd rates then ts_ts cur else if reset then 0 else dv_last_rate device)"
  "dv_rx_bytes_total (applyTraffic config device rates reset cur) = ts_rx_bytes cur"
  "dv_tx_bytes_total (applyTraffic config device rates reset cur) = ts_tx_bytes cur"
  by (simp_all add: applyTraffic_def Let_def split: prod.split)

text \<open>
  C21: When a device's counters grew since the last stored point and time passed, both rates of the device
  are the exact number of bits per second up to a relative rounding error of \<open>6 / 2^53\<close>, at least one
  of them is positive, and the time of the snapshot is recorded as the time of the rate.
\<close>

theorem updateTraffic_rate_accurate:
  assumes addr: "ts_mac snap \<noteq> [] \<or> ts_ip snap \<noteq> []"
    and key: "key = deviceKey s (lower (ts_mac snap)) (ts_ip snap)"
    and points: "dget (st_traffic s) key = Some (ps @ [prev])"
    and time: "valid_time (ts_ts snap)" "valid_time (ts_ts prev)" "ts_ts prev < ts_ts snap"
    and grew: "ts_rx_bytes prev \<le> ts_rx_bytes snap" "ts_tx_bytes prev \<le> ts_tx_bytes snap"
      "ts_rx_bytes snap \<noteq> ts_rx_bytes prev \<or> ts_tx_bytes snap \<noteq> ts_tx_bytes prev"
    and rx: "rx = exact_rate (ts_rx_bytes snap - ts_rx_bytes prev) (ts_ts snap - ts_ts prev)"
    and tx: "tx = exact_rate (ts_tx_bytes snap - ts_tx_bytes prev) (ts_ts snap - ts_ts prev)"
  shows "\<exists>d. dget (st_devices (updateTraffic clk snap s)) key = Some d
    \<and> \<bar>dv_rx_rate_bps d - rx\<bar> \<le> 6 / 2 ^ 53 * rx \<and> \<bar>dv_tx_rate_bps d - tx\<bar> \<le> 6 / 2 ^ 53 * tx
    \<and> (0 < dv_rx_rate_bps d \<or> 0 < dv_tx_rate_bps d) \<and> dv_last_rate d = ts_ts snap"
proof -
  define cur where "cur = snap\<lparr>ts_mac := lower (ts_mac snap)\<rparr>"
  define n where "n = ts_ts snap - ts_ts prev"
  have n: "0 < n" "tdiff (ts_ts snap) (ts_ts prev) = n" using time by (simp_all add: n_def tdiff_valid)
  define rates where "rates = (rate_of (ts_rx_bytes snap - ts_rx_bytes prev) (seconds_of_ns n),
                               rate_of (ts_tx_bytes snap - ts_tx_bytes prev) (seconds_of_ns n))"
  have "traffic_rate config device (Some prev) cur = (rates, True, False)" for config device
    using grew n by (simp add: traffic_rate_def cur_def rates_def Let_def linorder_not_less [symmetric])
  moreover have "ts_ts snap \<noteq> 0" using time by (auto simp: valid_time_def)
  ultimately have "dget (st_devices (updateTraffic clk snap s)) key =
      Some (applyTraffic (st_config s) (dget_or (st_devices s) key new_device) rates False cur)"
    by (intro updateTraffic_known(1) [OF addr _ key points refl cur_def])
  moreover have "0 < fst rates \<or> 0 < snd rates"
    using grew(3) n by (simp add: rates_def rate_of_pos_iff)
  ultimately show ?thesis
    using rate_of_error [OF n(1)] by (simp add: rx tx n_def [symmetric] cur_def) (simp add: rates_def)
qed

text \<open>A store that has seen one traffic snapshot, for the witnesses.\<close>

definition sample_traffic :: "time \<Rightarrow> u64 \<Rightarrow> TrafficSnapshot" where
  "sample_traffic ts rx = \<lparr>ts_mac = ''aa'', ts_ip = ''10.0.0.2'', ts_ts = ts, ts_rx_bytes = rx, ts_tx_bytes = 0\<rparr>"

definition sample_store :: StateStore where
  "sample_store = updateTraffic (\<lambda>_. 7) (sample_traffic 1000000000 1000) (store_new default_config)"

lemma sample_store_facts:
  "deviceKey sample_store (lower (ts_mac (sample_traffic ts rx))) (ts_ip (sample_traffic ts rx)) = ''mac:aa''"
  "dget (st_traffic sample_store) ''mac:aa'' = Some ([] @ [sample_traffic 1000000000 1000])"
  "\<exists>old. dget (st_devices sample_store) ''mac:aa'' = Some old"
proof -
  have "deviceKey sample_store (lower ''aa'') ''10.0.0.2'' = ''mac:aa''" by code_simp
  then show "deviceKey sample_store (lower (ts_mac (sample_traffic ts rx))) (ts_ip (sample_traffic ts rx)) = ''mac:aa''"
    by (simp add: sample_traffic_def)
  show "dget (st_traffic sample_store) ''mac:aa'' = Some ([] @ [sample_traffic 1000000000 1000])" by code_simp
  have "dget (st_devices sample_store) ''mac:aa'' \<noteq> None" by code_simp
  then show "\<exists>old. dget (st_devices sample_store) ''mac:aa'' = Some old" by simp
qed

theorem updateTraffic_rate_accurate_witness:
  "\<exists>d. dget (st_devices (updateTraffic (\<lambda>_. 7) (sample_traffic 3000000000 3000) sample_store)) ''mac:aa'' = Some d
     \<and> \<bar>dv_rx_rate_bps d - 8000\<bar> \<le> 6 / 2 ^ 53 * 8000 \<and> dv_last_rate d = 3000000000"
  using updateTraffic_rate_accurate [OF _ sample_store_facts(1) [symmetric] sample_store_facts(2) _ _ _ _ _ _ refl refl,
      of 3000000000 3000 "\<lambda>_. 7"]
  by (auto simp: sample_traffic_def valid_time_def exact_rate_def)

text \<open>
  Without growth there is no new rate. Counters that went back (a router restart, never an unsigned
  underflow) set both rates and the time of the rate to zero and make the snapshot the new reference
  point; unchanged counters keep the rates for \<open>traffic_rate_hold_seconds\<close> after the last rate and set
  them to zero afterwards, and store no point.
\<close>

theorem updateTraffic_without_growth:
  assumes addr: "ts_mac snap \<noteq> [] \<or> ts_ip snap \<noteq> []" and ts: "ts_ts snap \<noteq> 0"
    and key: "key = deviceKey s (lower (ts_mac snap)) (ts_ip snap)"
    and points: "dget (st_traffic s) key = Some (ps @ [prev])"
    and device: "dget (st_devices s) key = Some old"
  shows "\<exists>d qs. dget (st_devices (updateTraffic clk snap s)) key = Some d
    \<and> dget (st_traffic (updateTraffic clk snap s)) key = Some qs
    \<and> (ts_rx_bytes snap < ts_rx_bytes prev \<or> ts_tx_bytes snap < ts_tx_bytes prev \<longrightarrow>
         dv_rx_rate_bps d = 0 \<and> dv_tx_rate_bps d = 0 \<and> dv_last_rate d = 0
         \<and> qs = last_n (unat (max_traffic_points_per_device (st_config s)))
                  (ps @ [prev, snap\<lparr>ts_mac := lower (ts_mac snap)\<rparr>]))
    \<and> (ts_rx_bytes snap = ts_rx_bytes prev \<and> ts_tx_bytes snap = ts_tx_bytes prev \<longrightarrow>
         (let hold = dv_last_rate old \<noteq> 0
                     \<and> tdiff (ts_ts snap) (dv_last_rate old) \<le> seconds (traffic_rate_hold_seconds (st_config s))
          in dv_rx_rate_bps d = (if hold then dv_rx_rate_bps old else 0)
             \<and> dv_tx_rate_bps d = (if hold then dv_tx_rate_bps old else 0))
         \<and> qs = ps @ [prev])"
proof -
  define cur where "cur = snap\<lparr>ts_mac := lower (ts_mac snap)\<rparr>"
  obtain rates store_point reset where
    rate: "traffic_rate (st_config s) old (Some prev) cur = (rates, store_point, reset)"
    by (metis prod_cases3)
  have "old = dget_or (st_devices s) key new_device" using device by (simp add: dget_or_def)
  note known = updateTraffic_known [where clk = clk, OF addr ts key points this cur_def rate]
  show ?thesis
    unfolding known using rate
    by (auto simp: traffic_rate_def cur_def Let_def split: if_splits)
qed

theorem updateTraffic_without_growth_witness:
  "\<exists>d qs. dget (st_devices (updateTraffic (\<lambda>_. 7) (sample_traffic 3000000000 500) sample_store)) ''mac:aa'' = Some d
     \<and> dget (st_traffic (updateTraffic (\<lambda>_. 7) (sample_traffic 3000000000 500) sample_store)) ''mac:aa'' = Some qs
     \<and> dv_rx_rate_bps d = 0"
proof -
  obtain old where "dget (st_devices sample_store) ''mac:aa'' = Some old" using sample_store_facts(3) by blast
  from updateTraffic_without_growth [OF _ _ sample_store_facts(1) [symmetric] sample_store_facts(2) this,
      of 3000000000 500 "\<lambda>_. 7"]
  show ?thesis by (auto simp: sample_traffic_def)
qed

section \<open>Ageing\<close>

text \<open>
  A device only ages. As long as no report about it arrives, its status never gets better as time
  passes: from online to idle to offline.
\<close>

theorem statusFor_ages:
  assumes "valid_time (dv_last_seen device)" "valid_time t" "valid_time t'" "t \<le> t'"
  shows "status_rank (statusFor config device t) \<le> status_rank (statusFor config device t')"
  using assms by (auto simp: statusFor_def Let_def tdiff_valid)

theorem statusFor_ages_witness:
  "status_rank (statusFor default_config (new_device\<lparr>dv_last_seen := 1\<rparr>) 2)
     \<le> status_rank (statusFor default_config (new_device\<lparr>dv_last_seen := 1\<rparr>) 1000000000000)"
  by (rule statusFor_ages) (simp_all add: valid_time_def)

section \<open>Cleanup\<close>

lemma statusFor_update [simp]:
  "statusFor config (d\<lparr>dv_status := x\<rparr>) now = statusFor config d now"
  "statusFor config (d\<lparr>dv_rx_rate_bps := r\<rparr>) now = statusFor config d now"
  "statusFor config (d\<lparr>dv_tx_rate_bps := r\<rparr>) now = statusFor config d now"
  by (simp_all add: statusFor_def Let_def)

lemma statusFor_expire [simp]: "statusFor config (expire_rate config t d) now = statusFor config d now"
  by (simp add: expire_rate_def)

lemma refresh_device_status [simp]: "dv_status (refresh_device config now d) = statusFor config d now"
  by (simp add: refresh_device_def)

lemma refresh_device_idem [simp]:
  "refresh_device config now (refresh_device config now d) = refresh_device config now d"
  by (simp add: refresh_device_def Let_def expire_rate_def)

lemma not_newly_offline_refresh [simp]: "\<not> newly_offline config now (refresh_device config now d)"
  by (simp add: newly_offline_def)

lemma expired_keys_iff:
  "dwf ds \<Longrightarrow> (key, d) \<in> set (refreshed config now ds) \<Longrightarrow>
     key \<in> set (expired_keys config now ds) \<longleftrightarrow> expired config now d"
  unfolding expired_keys_def
  by (auto simp: image_iff) (metis eq_key_imp_eq_value refreshed_simps(3))

lemma cleanup_devices:
  assumes "dwf (st_devices s)"
  shows "st_devices (cleanup c now s) =
    filter (\<lambda>(_, d). \<not> expired (st_config s) now d) (refreshed (st_config s) now (st_devices s))"
  using assms by (auto simp: cleanup_eq Let_def expired_keys_iff intro!: filter_cong)

lemma st_config_cleanup [simp]: "dwf (st_devices s) \<Longrightarrow> st_config (cleanup c now s) = st_config s"
  by (simp add: cleanup_eq Let_def)

lemma refreshed_fixed:
  "(\<And>key d. (key, d) \<in> set ds \<Longrightarrow> refresh_device config now d = d) \<Longrightarrow> refreshed config now ds = ds"
  by (auto simp: refreshed_def intro!: map_idI)

lemma offline_events_none:
  "(\<And>d. d \<in> set ds \<Longrightarrow> \<not> newly_offline config now d) \<Longrightarrow> offline_events config now q ds = []"
  by (induction ds) auto

lemma cleanup_unchanged:
  assumes wf: "dwf (st_devices s)"
    and fixed: "\<And>key d. (key, d) \<in> set (st_devices s) \<Longrightarrow> refresh_device (st_config s) now d = d"
    and live: "\<And>key d. (key, d) \<in> set (st_devices s) \<Longrightarrow> \<not> expired (st_config s) now d"
  shows "cleanup c now s = s"
proof -
  have ref: "refreshed (st_config s) now (st_devices s) = st_devices s"
    by (rule refreshed_fixed) (rule fixed)
  have "expired_keys (st_config s) now (st_devices s) = []"
    using live by (auto simp: expired_keys_def ref filter_empty_conv)
  moreover have "offline_events (st_config s) now (st_event_seq s) (map snd (st_devices s)) = []"
  proof (rule offline_events_none)
    fix d assume "d \<in> set (map snd (st_devices s))"
    then have "refresh_device (st_config s) now d = d" using fixed by auto
    then show "\<not> newly_offline (st_config s) now d" by (metis not_newly_offline_refresh)
  qed
  ultimately show ?thesis
    by (simp add: cleanup_eq [OF wf] Let_def ref)
qed

text \<open>
  \<open>cleanup\<close> is idempotent at a given time: running it again changes nothing, so a device is
  reported offline once and no further event is produced.
\<close>

theorem cleanup_idempotent:
  assumes inv: "store_inv s"
  shows "cleanup c' now (cleanup c now s) = cleanup c now s"
proof -
  have wf: "dwf (st_devices s)" "dwf (st_devices (cleanup c now s))"
    using inv store_inv_cleanup [OF inv, of c now] by (simp_all add: store_inv_def devices_ok_def)
  show ?thesis
    by (rule cleanup_unchanged [OF wf(2)])
       (auto simp: cleanup_devices [OF wf(1)] wf(1) refreshed_def)
qed

theorem cleanup_idempotent_witness:
  "cleanup 0 9000000000000 (cleanup 0 9000000000000 sample_store) = cleanup 0 9000000000000 sample_store"
  unfolding sample_store_def
  by (rule cleanup_idempotent [OF store_inv_updateTraffic [OF store_inv_new]])

lemma push_all_items: "rb_wf b \<Longrightarrow> rb_items (push_all es b) = last_n (rb_capacity b) (rb_items b @ es)"
  by (simp add: push_all_def ring.contents_pushes rb_wf_def)

lemma offline_events_eq:
  "offline_events config now q ds =
     map (\<lambda>(i, d). offline_event (''evt-'' @ show_nat (unat (q + of_nat i))) now (refresh_device config now d))
       (enumerate 1 (filter (newly_offline config now) ds))"
proof -
  have "offline_events config now (q + of_nat k) ds =
     map (\<lambda>(i, d). offline_event (''evt-'' @ show_nat (unat (q + of_nat i))) now (refresh_device config now d))
       (enumerate (Suc k) (filter (newly_offline config now) ds))" for k
  proof (induction ds arbitrary: k)
    case (Cons d ds)
    from Cons.IH [of "Suc k"] Cons.IH [of k] show ?case by (simp add: add_ac)
  qed simp
  from this [of 0] show ?thesis by simp
qed

text \<open>
  What one \<open>cleanup\<close> does to the devices and events: every record gets the status of its age and
  loses a rate that is too old; exactly the records that are then offline for longer than the keep
  time are removed; and for every device that went offline since its status was last set, one
  warning is appended to the event buffer, in the order of the table and with consecutive identifiers.
\<close>

theorem cleanup_effect:
  assumes "store_inv s"
  shows "st_devices (cleanup c now s) =
      filter (\<lambda>(_, d). \<not> expired (st_config s) now d)
        (map (\<lambda>(key, d). (key, refresh_device (st_config s) now d)) (st_devices s))
    \<and> rb_items (st_events (cleanup c now s)) =
        last_n (unat (max_events (st_config s)))
          (rb_items (st_events s)
           @ map (\<lambda>(i, d). offline_event (''evt-'' @ show_nat (unat (st_event_seq s + of_nat i))) now
                             (refresh_device (st_config s) now d))
               (enumerate 1 (filter (\<lambda>d. dv_status d \<noteq> Offline \<and> statusFor (st_config s) d now = Offline)
                               (map snd (st_devices s)))))"
proof -
  have wf: "dwf (st_devices s)" "rb_wf (st_events s)" "rb_capacity (st_events s) = unat (max_events (st_config s))"
    using assms by (simp_all add: store_inv_def devices_ok_def buffers_ok_def)
  have "newly_offline (st_config s) now = (\<lambda>d. dv_status d \<noteq> Offline \<and> statusFor (st_config s) d now = Offline)"
    by (auto simp: newly_offline_def)
  moreover have "rb_items (st_events (cleanup c now s)) = last_n (unat (max_events (st_config s)))
      (rb_items (st_events s) @ offline_events (st_config s) now (st_event_seq s) (map snd (st_devices s)))"
    using wf by (simp add: cleanup_eq Let_def push_all_items)
  ultimately show ?thesis
    by (simp only: cleanup_devices [OF wf(1)] offline_events_eq refreshed_def simp_thms)
qed

theorem cleanup_effect_witness:
  "map fst (st_devices (cleanup 0 900000000000 sample_store)) = [''mac:aa'']
   \<and> map ev_message (rb_items (st_events (cleanup 0 900000000000 sample_store))) = [''Device offline'']"
proof -
  have "store_inv sample_store"
    unfolding sample_store_def by (rule store_inv_updateTraffic [OF store_inv_new])
  note effect = cleanup_effect [OF this, of 0 900000000000]
  show ?thesis
    unfolding effect [THEN conjunct1] effect [THEN conjunct2] by code_simp
qed

section \<open>Queries\<close>

lemma device_before_iff: "device_before a b \<longleftrightarrow> device_sort_key a < device_sort_key b"
  by (cases "dv_status a"; cases "dv_status b") (auto simp: device_before_def device_sort_key_def)

text \<open>
  \<open>devices()\<close> returns every known device exactly once with the status of its age, ordered by the comparison
  of the code: no device is followed by one that must come before it.
\<close>

theorem devices_sorted:
  "mset (devices now s) =
     image_mset (\<lambda>(_, d). d\<lparr>dv_status := statusFor (st_config s) d now\<rparr>) (mset (st_devices s))
   \<and> sorted_wrt (\<lambda>a b. \<not> device_before b a) (devices now s)"
proof -
  have "sorted (map device_sort_key (devices now s))"
    by (simp add: devices_def)
  then have "sorted_wrt (\<lambda>a b. \<not> device_before b a) (devices now s)"
    by (simp add: sorted_map device_before_iff linorder_not_less)
  then show ?thesis
    by (simp add: devices_def)
qed

lemma summary_fields [simp]:
  "sm_active_devices (summary now s) = sm_active_devices (foldl (sum_device (st_config s) now)
     (new_summary\<lparr>sm_last_log_ts := st_last_log s\<rparr>) (map snd (st_devices s)))"
  "sm_idle_devices (summary now s) = sm_idle_devices (foldl (sum_device (st_config s) now)
     (new_summary\<lparr>sm_last_log_ts := st_last_log s\<rparr>) (map snd (st_devices s)))"
  "sm_offline_devices (summary now s) = sm_offline_devices (foldl (sum_device (st_config s) now)
     (new_summary\<lparr>sm_last_log_ts := st_last_log s\<rparr>) (map snd (st_devices s)))"
  "sm_unknown_devices (summary now s) = sm_unknown_devices (foldl (sum_device (st_config s) now)
     (new_summary\<lparr>sm_last_log_ts := st_last_log s\<rparr>) (map snd (st_devices s)))"
  by (simp_all add: summary_def Let_def split: option.split)

definition with_status :: "DeviceStatus \<Rightarrow> DeviceState list \<Rightarrow> nat" where
  "with_status st ds = length (filter (\<lambda>d. dv_status d = st) ds)"

lemma sum_devices_count:
  fixes config now out ds
  defines "out' \<equiv> foldl (sum_device config now) out ds"
    and "num \<equiv> \<lambda>st. length (filter (\<lambda>d. statusFor config d now = st) ds)"
  shows "sm_active_devices out' = sm_active_devices out + num Online"
    and "sm_idle_devices out' = sm_idle_devices out + num Idle"
    and "sm_offline_devices out' = sm_offline_devices out + num Offline"
    and "sm_unknown_devices out' = sm_unknown_devices out + num Unknown"
  unfolding out'_def num_def
  by (induction ds arbitrary: out)
     (simp_all add: sum_device_def count_status_def Let_def split: DeviceStatus.split)

lemma with_status_devices:
  "with_status st (devices now s) = length (filter (\<lambda>d. statusFor (st_config s) d now = st) (map snd (st_devices s)))"
  by (simp add: with_status_def devices_def filter_sort filter_map o_def case_prod_unfold)

text \<open>
  The counters of \<open>summary()\<close> agree with the list of \<open>devices()\<close> at the same time: each is the
  number of listed devices with that status, and together they count every device once.
\<close>

theorem summary_counts_devices:
  "sm_active_devices (summary now s) = with_status Online (devices now s)
   \<and> sm_idle_devices (summary now s) = with_status Idle (devices now s)
   \<and> sm_offline_devices (summary now s) = with_status Offline (devices now s)
   \<and> sm_unknown_devices (summary now s) = with_status Unknown (devices now s)
   \<and> sm_active_devices (summary now s) + sm_idle_devices (summary now s) + sm_offline_devices (summary now s)
     + sm_unknown_devices (summary now s) = length (st_devices s)"
proof -
  have "with_status Online ds + with_status Idle ds + with_status Offline ds + with_status Unknown ds = length ds" for ds
  proof (induction ds)
    case (Cons d ds)
    then show ?case by (cases "dv_status d") (simp_all add: with_status_def)
  qed (simp add: with_status_def)
  from this [of "devices now s"] show ?thesis
    by (simp add: sum_devices_count with_status_devices new_summary_def) (simp add: devices_def)
qed

definition fresh_interface :: "time \<Rightarrow> InterfaceState \<Rightarrow> bool" where
  "fresh_interface now iface \<longleftrightarrow>
     if_last_rate iface \<noteq> 0 \<and> tdiff now (if_last_rate iface) \<le> seconds kInterfaceRateFreshWindow"

lemma freshest_spec:
  fixes now best ifs
  defines "fresh \<equiv> filter (fresh_interface now) ifs"
  shows "case foldl (fresher now) best ifs of
      None \<Rightarrow> best = None \<and> fresh = []
    | Some i \<Rightarrow> (best = Some i \<or> i \<in> set fresh) \<and> (\<forall>j \<in> set fresh. if_last_rate j \<le> if_last_rate i)
               \<and> (\<forall>b. best = Some b \<longrightarrow> if_last_rate b \<le> if_last_rate i)"
  unfolding fresh_def
proof (induction ifs arbitrary: best)
  case Nil
  then show ?case by (cases best) simp_all
next
  case (Cons iface ifs)
  have "fresher now best iface =
      (if \<not> fresh_interface now iface then best
       else case best of None \<Rightarrow> Some iface
            | Some b \<Rightarrow> if if_last_rate b < if_last_rate iface then Some iface else Some b)"
    by (auto simp: fresher_def fresh_interface_def split: option.split)
  then show ?case
    using Cons.IH [of "fresher now best iface"] by (cases best) (auto split: option.splits if_splits)
qed

text \<open>
  The rates of \<open>summary()\<close> come from the interface whose rate is the most recent among those not older
  than ten seconds, whatever the order of the table; only when there is none are they the sums over
  the devices.
\<close>

theorem summary_rate_source:
  "(if \<exists>i \<in> set (map snd (st_ifs s)). fresh_interface now i
    then \<exists>i \<in> set (map snd (st_ifs s)). fresh_interface now i
           \<and> (\<forall>j \<in> set (map snd (st_ifs s)). fresh_interface now j \<longrightarrow> if_last_rate j \<le> if_last_rate i)
           \<and> sm_rx_rate_bps (summary now s) = if_rx_rate_bps i \<and> sm_tx_rate_bps (summary now s) = if_tx_rate_bps i
           \<and> sm_rate_source (summary now s) = ''interface'' \<and> sm_rate_interface (summary now s) = if_interface_name i
    else sm_rx_rate_bps (summary now s) = foldl (\<lambda>r d. fl (r + dv_rx_rate_bps d)) 0 (map snd (st_devices s))
           \<and> sm_tx_rate_bps (summary now s) = foldl (\<lambda>r d. fl (r + dv_tx_rate_bps d)) 0 (map snd (st_devices s))
           \<and> sm_rate_source (summary now s) = ''devices'')"
proof -
  have sums: "sm_rx_rate_bps (foldl (sum_device config now) out ds)
        = foldl (\<lambda>r d. fl (r + dv_rx_rate_bps d)) (sm_rx_rate_bps out) ds
      \<and> sm_tx_rate_bps (foldl (sum_device config now) out ds)
        = foldl (\<lambda>r d. fl (r + dv_tx_rate_bps d)) (sm_tx_rate_bps out) ds
      \<and> sm_rate_source (foldl (sum_device config now) out ds) = sm_rate_source out" for config out ds
    by (induction ds arbitrary: out)
       (simp_all add: sum_device_def count_status_def Let_def split: DeviceStatus.split)
  show ?thesis
    using freshest_spec [where now = now and best = None and ifs = "map snd (st_ifs s)"]
    by (cases "foldl (fresher now) None (map snd (st_ifs s))")
       (auto simp: summary_def Let_def sums new_summary_def filter_empty_conv)
qed

theorem summary_rate_source_witness:
  "sm_rate_interface (summary 9 ((store_new default_config)
     \<lparr>st_ifs := [(''lan'', new_interface\<lparr>if_interface_name := ''lan'', if_last_rate := 5\<rparr>),
                 (''wan'', new_interface\<lparr>if_interface_name := ''wan'', if_last_rate := 7\<rparr>)]\<rparr>)) = ''wan''"
  (is "sm_rate_interface (summary 9 ?s) = _")
proof -
  have "fresh_interface 9 (new_interface\<lparr>if_interface_name := ''lan'', if_last_rate := 5\<rparr>)"
    "fresh_interface 9 (new_interface\<lparr>if_interface_name := ''wan'', if_last_rate := 7\<rparr>)"
    by (simp_all add: fresh_interface_def tdiff_def wrap64_def seconds_def kInterfaceRateFreshWindow_def ns_per_s_def)
  then show ?thesis
    using summary_rate_source [of ?s 9] by auto
qed

section \<open>The time of the last log\<close>

lemma touched_ge: "l \<noteq> 0 \<Longrightarrow> l \<le> touched now ts l"
  by (simp add: touched_def Let_def)

text \<open>
  Once set, the time of the last log never goes back, whatever operation runs and however old the
  timestamp of its report is.
\<close>

theorem last_log_monotone:
  assumes "store_step s t" "store_inv s" "st_last_log s \<noteq> 0"
  shows "st_last_log s \<le> st_last_log t"
  using assms
proof cases
  case (UpdateDevice clk device)
  then show ?thesis
    using assms(3) resolveDevice_frame(5) [of device s]
    by (auto simp: updateDevice_def Let_def touch_eq intro: touched_ge split: prod.split)
next
  case (Cleanup c now)
  then show ?thesis using assms by (simp add: cleanup_eq store_inv_def devices_ok_def Let_def touched_ge)
qed (use assms in \<open>simp_all add: updateTraffic_def updateInterface_def addEvent_def pushEventLocked_def nextEventId_def
      addWANAttack_def Let_def touch_eq touched_ge split: prod.split\<close>)

theorem last_log_monotone_witness:
  "st_last_log sample_store \<le> st_last_log (addEvent (\<lambda>_. 3) new_event sample_store)"
proof (rule last_log_monotone)
  show "store_step sample_store (addEvent (\<lambda>_. 3) new_event sample_store)" by (rule store_step.AddEvent)
  show "store_inv sample_store"
    unfolding sample_store_def by (rule store_inv_updateTraffic [OF store_inv_new])
  show "st_last_log sample_store \<noteq> 0" by code_simp
qed

end
