(* ===== verification/Std_Regex.thy ===== *)
theory Std_Regex
  imports Netmon_Utils
begin

text \<open>
  The part of \<^verbatim>\<open>std::regex\<close> (ECMAScript syntax) that \<^verbatim>\<open>src/src/log_parser.cpp\<close> uses. A match yields the
  captured groups and the unread rest; the list of matches is in the order in which the
  backtracking matcher tries them, so its head is the match the library reports.
\<close>

datatype regex =
    Lit string
  | Cls "char \<Rightarrow> bool"
  | Many "char \<Rightarrow> bool"
  | Cat regex regex
  | Alt regex regex
  | Group nat regex
  | Eol

type_synonym captures = "(nat \<times> string) list"

fun matches :: "regex \<Rightarrow> string \<Rightarrow> (captures \<times> string) list" where
  "matches (Lit w) s = (if prefix w s then [([], drop (length w) s)] else [])"
| "matches (Cls P) s = (case s of c # cs \<Rightarrow> if P c then [([], cs)] else [] | [] \<Rightarrow> [])"
| "matches (Many P) s = map (\<lambda>k. ([], drop k s)) (rev [0 ..< Suc (length (takeWhile P s))])"
| "matches (Cat r q) s = concat (map (\<lambda>(g, t). map (\<lambda>(h, u). (g @ h, u)) (matches q t)) (matches r s))"
| "matches (Alt r q) s = matches r s @ matches q s"
| "matches (Group n r) s = map (\<lambda>(g, t). (g @ [(n, take (length s - length t) s)], t)) (matches r s)"
| "matches Eol s = (if s = [] then [([], [])] else [])"

text \<open>\<^verbatim>\<open>r+\<close> for a class and \<^verbatim>\<open>r{n}\<close>.\<close>

definition Plus :: "(char \<Rightarrow> bool) \<Rightarrow> regex" where
  "Plus P = Cat (Cls P) (Many P)"

fun Times :: "nat \<Rightarrow> regex \<Rightarrow> regex" where
  "Times 0 r = Lit []"
| "Times (Suc n) r = Cat r (Times n r)"

text \<open>\<^verbatim>\<open>std::regex_match\<close>: a match of the whole text; \<^verbatim>\<open>std::regex_search\<close>: the leftmost match.\<close>

definition regex_match :: "regex \<Rightarrow> string \<Rightarrow> bool" where
  "regex_match r s = list_ex (\<lambda>(_, rest). rest = []) (matches r s)"

fun regex_search :: "regex \<Rightarrow> string \<Rightarrow> captures option" where
  "regex_search r [] = (case matches r [] of [] \<Rightarrow> None | (g, _) # _ \<Rightarrow> Some g)"
| "regex_search r (c # cs) = (case matches r (c # cs) of [] \<Rightarrow> regex_search r cs | (g, _) # _ \<Rightarrow> Some g)"

definition capture :: "captures \<Rightarrow> nat \<Rightarrow> string" where
  "capture g n = (case map_of (rev g) n of None \<Rightarrow> [] | Some s \<Rightarrow> s)"

section \<open>Character classes\<close>

definition isxdigit :: "char \<Rightarrow> bool" where
  "isxdigit c \<longleftrightarrow> isdigit c \<or> 97 \<le> code c \<and> code c \<le> 102 \<or> 65 \<le> code c \<and> code c \<le> 70"

text \<open>The dot does not match the line terminators.\<close>

definition any_char :: "char \<Rightarrow> bool" where
  "any_char c \<longleftrightarrow> c \<noteq> CHR 0x0A \<and> c \<noteq> CHR 0x0D"

text \<open>\<^verbatim>\<open>[0-9a-fA-F]{2}(:[0-9a-fA-F]{2}){5}\<close>, whose group has number \<open>n\<close>.\<close>

definition mac_body :: "nat \<Rightarrow> regex" where
  "mac_body n =
     Cat (Times 2 (Cls isxdigit)) (Times 5 (Group n (Cat (Lit '':'') (Times 2 (Cls isxdigit)))))"

section \<open>Properties of matching\<close>

lemma matches_suffix: "(g, t) \<in> set (matches r s) \<Longrightarrow> suffix t s"
proof (induction r arbitrary: s g t)
  case (Cat r q)
  then show ?case by (fastforce intro: suffix_order.trans)
next
  case (Group n r)
  then show ?case by auto
qed (auto simp: suffix_drop suffix_def split: if_splits list.splits intro: append_take_drop_id [symmetric])

lemma regex_search_skip:
  "(\<And>k. k < length pre \<Longrightarrow> matches r (drop k (pre @ s)) = []) \<Longrightarrow> regex_search r (pre @ s) = regex_search r s"
proof (induction pre)
  case (Cons c pre)
  from Cons.prems [of 0] have "matches r ((c # pre) @ s) = []" by simp
  moreover have "regex_search r (pre @ s) = regex_search r s"
    using Cons.prems [of "Suc _"] by (intro Cons.IH) simp
  ultimately show ?case by simp
qed simp

section \<open>The first match\<close>

text \<open>
  \<open>first_match r s g t\<close>: the match that the library reports at the start of \<open>s\<close> captures \<open>g\<close> and leaves \<open>t\<close>.
\<close>

definition first_match :: "regex \<Rightarrow> string \<Rightarrow> captures \<Rightarrow> string \<Rightarrow> bool" where
  "first_match r s g t \<longleftrightarrow> (\<exists>more. matches r s = (g, t) # more)"

lemma first_Lit: "first_match (Lit w) (w @ t) [] t"
  by (simp add: first_match_def)

lemma first_Cls: "P c \<Longrightarrow> first_match (Cls P) (c # t) [] t"
  by (simp add: first_match_def)

lemma first_Many: "list_all P a \<Longrightarrow> t = [] \<or> \<not> P (hd t) \<Longrightarrow> first_match (Many P) (a @ t) [] t"
proof -
  assume "list_all P a" "t = [] \<or> \<not> P (hd t)"
  then have "takeWhile P (a @ t) = a" by (cases t) (auto simp: list_all_iff takeWhile_append)
  then show ?thesis by (simp add: first_match_def)
qed

lemma first_Cat: "first_match r s g t \<Longrightarrow> first_match q t h u \<Longrightarrow> first_match (Cat r q) s (g @ h) u"
  by (auto simp: first_match_def)

lemma first_Plus: "list_all P a \<Longrightarrow> a \<noteq> [] \<Longrightarrow> t = [] \<or> \<not> P (hd t) \<Longrightarrow> first_match (Plus P) (a @ t) [] t"
  unfolding Plus_def using first_Cat [OF first_Cls first_Many, of P _ P _ t]
  by (cases a) auto

lemma first_Alt1: "first_match r s g t \<Longrightarrow> first_match (Alt r q) s g t"
  by (auto simp: first_match_def)

lemma first_Alt2: "matches r s = [] \<Longrightarrow> first_match q s g t \<Longrightarrow> first_match (Alt r q) s g t"
  by (auto simp: first_match_def)

lemma first_Group: "first_match r (a @ t) g t \<Longrightarrow> first_match (Group n r) (a @ t) (g @ [(n, a)]) t"
  by (auto simp: first_match_def)

lemma first_Eol: "first_match Eol [] [] []"
  by (simp add: first_match_def)

lemma regex_search_first: "first_match r s g t \<Longrightarrow> regex_search r s = Some g"
  by (cases s) (auto simp: first_match_def)

section \<open>What can be left unread\<close>

definition leaves :: "regex \<Rightarrow> string \<Rightarrow> string \<Rightarrow> bool" where
  "leaves r s t \<longleftrightarrow> t \<in> snd ` set (matches r s)"

lemma leaves_simps [simp]:
  "leaves (Lit w) s t \<longleftrightarrow> s = w @ t"
  "leaves (Cls P) s t \<longleftrightarrow> (\<exists>c. P c \<and> s = c # t)"
  "leaves (Cat r q) s t \<longleftrightarrow> (\<exists>u. leaves r s u \<and> leaves q u t)"
  "leaves (Alt r q) s t \<longleftrightarrow> leaves r s t \<or> leaves q s t"
  "leaves (Group n r) s t \<longleftrightarrow> leaves r s t"
  "leaves Eol s t \<longleftrightarrow> s = [] \<and> t = []"
  by (auto simp: leaves_def prefix_def image_image case_prod_unfold split: list.splits) (force simp: image_iff)+

lemma regex_match_leaves: "regex_match r s \<longleftrightarrow> leaves r s []"
  by (force simp: regex_match_def leaves_def list_ex_iff image_iff)

end
