(* ===== verification/Log_Parser.thy ===== *)
theory Log_Parser
  imports Std_Regex
begin

text \<open>
  \<^verbatim>\<open>src/src/log_parser.cpp\<close>: recognising syslog lines. One definition per function; \<open>parse\<close> tries the
  recognisers in the order of the code.
\<close>

record ParseResult =
  pr_matched :: bool
  pr_type :: string
  pr_fields :: fields
  pr_raw :: string

definition no_result :: ParseResult where
  "no_result = \<lparr>pr_matched = False, pr_type = ''unknown'', pr_fields = [], pr_raw = []\<rparr>"

definition matched :: "string \<Rightarrow> fields \<Rightarrow> ParseResult" where
  "matched type flds = no_result\<lparr>pr_matched := True, pr_type := type, pr_fields := flds\<rparr>"

section \<open>Helpers\<close>

definition stripSyslogPriority :: "string \<Rightarrow> string" where
  "stripSyslogPriority line =
     (let text = trim line
      in if text \<noteq> [] \<and> hd text = CHR ''<''
         then case find_char (CHR ''>'') text of
                Some e \<Rightarrow> if e < 8 then trim (drop (Suc e) text) else text
              | None \<Rightarrow> text
         else text)"

definition looksLikeIpv4 :: "string \<Rightarrow> bool" where
  "looksLikeIpv4 value \<longleftrightarrow>
     list_all (\<lambda>c. c = CHR ''.'' \<or> isdigit c) value \<and> length (filter (\<lambda>c. c = CHR ''.'') value) = 3"

definition looksLikeMac :: "string \<Rightarrow> bool" where
  "looksLikeMac value = regex_match (Cat (mac_body 1) Eol) value"

definition eventNameForDhcpMethod :: "string \<Rightarrow> string" where
  "eventNameForDhcpMethod method =
     (if method = ''DHCPREQUEST'' then ''dhcp_request''
      else if method = ''DHCPACK'' then ''dhcp_ack''
      else if method = ''DHCPDISCOVER'' then ''dhcp_discover''
      else if method = ''DHCPOFFER'' then ''dhcp_offer''
      else ''dhcp'')"

definition afterTag :: "string \<Rightarrow> string \<Rightarrow> string" where
  "afterTag line tag =
     (case find_str tag line of
        None \<Rightarrow> []
      | Some tag_pos \<Rightarrow>
          let rest = drop (tag_pos + length tag) line
          in trim (case rest of c # cs \<Rightarrow> if c = CHR '':'' then cs else rest | [] \<Rightarrow> []))"

definition isNumericToken :: "string \<Rightarrow> bool" where
  "isNumericToken value \<longleftrightarrow> value \<noteq> [] \<and> list_all isdigit value"

text \<open>The loop of \<^verbatim>\<open>splitSeparated\<close>: \<open>quote\<close> is the open quote, if any, and \<open>current\<close> the text of the field.\<close>

fun split_quoted :: "char \<Rightarrow> char option \<Rightarrow> string \<Rightarrow> string \<Rightarrow> string list" where
  "split_quoted separator quote current [] = [stripQuotes (trim current)]"
| "split_quoted separator quote current (ch # line) =
     (if (ch = dquote \<or> ch = squote) \<and> (quote = None \<or> quote = Some ch)
      then split_quoted separator (if quote = None then Some ch else None) current line
      else if ch = separator \<and> quote = None
      then stripQuotes (trim current) # split_quoted separator quote [] line
      else split_quoted separator quote (current @ [ch]) line)"

definition splitSeparated :: "string \<Rightarrow> char \<Rightarrow> string list" where
  "splitSeparated line separator = split_quoted separator None [] line"

text \<open>\<^verbatim>\<open>while (stream >> token)\<close>: the maximal runs without white space.\<close>

function tokens_of :: "string \<Rightarrow> string list" where
  "tokens_of s =
     (let s1 = dropWhile isspace s
      in if s1 = [] then [] else takeWhile (\<lambda>c. \<not> isspace c) s1 # tokens_of (dropWhile (\<lambda>c. \<not> isspace c) s1))"
  by pat_completeness auto
termination tokens_of
proof (relation "measure length", goal_cases)
  case (2 s s1)
  then have "s1 \<noteq> []" "\<not> isspace (hd s1)" "length s1 \<le> length s"
    using hd_dropWhile [of isspace s] by (simp_all add: length_dropWhile_le)
  then show ?case using length_dropWhile_less [of s1 "\<lambda>c. \<not> isspace c"] by simp
qed simp

declare tokens_of.simps [simp del]

definition splitLooseColumns :: "string \<Rightarrow> string list" where
  "splitLooseColumns line =
     (let text = trim line
      in if find_char (CHR '','') text \<noteq> None then splitSeparated text (CHR '','')
         else if find_char (CHR '';'') text \<noteq> None then splitSeparated text (CHR '';'')
         else map stripQuotes (tokens_of text))"

definition nlbw_header :: "string \<Rightarrow> bool" where
  "nlbw_header token =
     (let name = lower token
      in name = ''rx_bytes'' \<or> name = ''tx_bytes'' \<or> name = ''downld.'' \<or> name = ''upload'')"

text \<open>The index of the first token that satisfies \<open>P\<close>.\<close>

fun find_index :: "('a \<Rightarrow> bool) \<Rightarrow> 'a list \<Rightarrow> nat option" where
  "find_index P [] = None"
| "find_index P (x # xs) = (if P x then Some 0 else map_option Suc (find_index P xs))"

definition parseNlbwCsv :: "string \<Rightarrow> fields option" where
  "parseNlbwCsv payload =
     (let tokens = splitLooseColumns payload;
          mac_index = find_index looksLikeMac tokens;
          ip_index = find_index looksLikeIpv4 tokens
      in if tokens = [] \<or> list_ex nlbw_header tokens then None
         else case (case mac_index of Some i \<Rightarrow> Some i | None \<Rightarrow> ip_index) of
                None \<Rightarrow> None
              | Some anchor \<Rightarrow>
                  let numeric = filter isNumericToken (drop (anchor + 1) tokens);
                      f0 = (case mac_index of Some i \<Rightarrow> dput ''mac'' (lower (tokens ! i)) [] | None \<Rightarrow> []);
                      f1 = (case ip_index of Some i \<Rightarrow> dput ''ip'' (tokens ! i) f0 | None \<Rightarrow> f0);
                      f2 = dput ''tx_bytes'' (numeric ! 3) (dput ''rx_pkts'' (numeric ! 2)
                             (dput ''rx_bytes'' (numeric ! 1) (dput ''conns'' (numeric ! 0) f1)))
                  in if length numeric < 4 then None
                     else Some (if 4 < length numeric then dput ''tx_pkts'' (numeric ! 4) f2 else f2))"

section \<open>The recognisers\<close>

definition copy_if_present :: "fields \<Rightarrow> string \<times> string \<Rightarrow> fields \<Rightarrow> fields" where
  "copy_if_present source p out =
     (case dget source (fst p) of None \<Rightarrow> out | Some v \<Rightarrow> dput (snd p) v out)"

definition wan_attack_names :: "(string \<times> string) list" where
  "wan_attack_names =
     [(''IN'', ''in_if''), (''OUT'', ''out_if''), (''SRC'', ''src_ip''), (''DST'', ''dst_ip''),
      (''SPT'', ''src_port''), (''DPT'', ''dst_port''), (''PROTO'', ''proto''), (''LEN'', ''len'')]"

definition parseWANAttack :: "string \<Rightarrow> ParseResult" where
  "parseWANAttack line =
     (let marker = ''WAN_ATTACK:''
      in case find_str marker line of
           None \<Rightarrow> no_result
         | Some pos \<Rightarrow>
             let flds = parseKeyValueFields (trim (drop (pos + length marker) line))
             in matched ''wan_attack'' (fold (copy_if_present flds) wan_attack_names flds))"

definition dhcp_regex :: regex where
  "dhcp_regex =
     Cat (Group 1 (Alt (Lit ''DHCPREQUEST'') (Alt (Lit ''DHCPACK'') (Alt (Lit ''DHCPDISCOVER'') (Lit ''DHCPOFFER'')))))
    (Cat (Lit ''('') (Cat (Group 2 (Many (\<lambda>c. c \<noteq> CHR '')''))) (Cat (Lit '')'')
    (Cat (Plus isspace) (Cat (Group 3 (Plus any_char)) Eol)))))"

definition dhcp_tokens :: "string list \<Rightarrow> fields \<Rightarrow> fields" where
  "dhcp_tokens clean_tokens flds =
     (case clean_tokens of
        [] \<Rightarrow> flds
      | t0 # ts \<Rightarrow>
          if looksLikeIpv4 t0
          then let f1 = dput ''ip'' t0 flds;
                   f2 = (case ts of t1 # _ \<Rightarrow> if looksLikeMac t1 then dput ''mac'' (lower t1) f1 else f1 | [] \<Rightarrow> f1)
               in (case ts of _ # t2 # _ \<Rightarrow> dput ''hostname'' t2 f2 | _ \<Rightarrow> f2)
          else if looksLikeMac t0
          then let f1 = dput ''mac'' (lower t0) flds
               in (case ts of t1 # _ \<Rightarrow> dput ''hostname'' t1 f1 | [] \<Rightarrow> f1)
          else flds)"

definition parseDHCP :: "string \<Rightarrow> ParseResult" where
  "parseDHCP line =
     (if \<not> contains_str ''dnsmasq-dhcp'' line then no_result
      else case regex_search dhcp_regex line of
             None \<Rightarrow> no_result
           | Some g \<Rightarrow>
               let method = capture g 1;
                   flds = dput ''interface'' (capture g 2)
                              (dput ''method'' method (dput ''event'' (eventNameForDhcpMethod method) []));
                   clean_tokens = filter (\<lambda>t. t \<noteq> []) (map trim (split (capture g 3) (CHR '' '')))
               in matched ''dhcp'' (dhcp_tokens clean_tokens flds))"

definition lower_field :: "string \<Rightarrow> fields \<Rightarrow> fields" where
  "lower_field key flds = (case dget flds key of None \<Rightarrow> flds | Some v \<Rightarrow> dput key (lower v) flds)"

definition parseNetDev :: "string \<Rightarrow> ParseResult" where
  "parseNetDev line =
     (if \<not> contains_str ''NETDEV'' line then no_result
      else let f1 = lower_field ''mac'' (parseKeyValueFields (afterTag line ''NETDEV''))
           in matched ''netdev'' (case dget f1 ''host'' of None \<Rightarrow> f1 | Some v \<Rightarrow> dput ''hostname'' v f1))"

definition parseNetIface :: "string \<Rightarrow> ParseResult" where
  "parseNetIface line =
     (if \<not> contains_str ''NETIFACE'' line then no_result
      else let flds = parseKeyValueFields (afterTag line ''NETIFACE'')
           in matched ''netiface''
                (case dget flds ''if'' of
                   Some v \<Rightarrow> dput ''interface'' v flds
                 | None \<Rightarrow> (case dget flds ''iface'' of
                              Some v \<Rightarrow> dput ''interface'' v flds
                            | None \<Rightarrow> flds)))"

definition parseNetTraffic :: "string \<Rightarrow> ParseResult" where
  "parseNetTraffic line =
     (if \<not> contains_str ''NETTRAFFIC'' line then no_result
      else let f1 = lower_field ''mac'' (parseKeyValueFields (afterTag line ''NETTRAFFIC''))
           in matched ''nettraffic''
                (case dget f1 ''csv'' of
                   None \<Rightarrow> f1
                 | Some csv \<Rightarrow> (case parseNlbwCsv csv of
                                  None \<Rightarrow> f1
                                | Some parsed_csv \<Rightarrow> fold (\<lambda>(key, v). dput key v) parsed_csv f1)))"

definition parseWanLink :: "string \<Rightarrow> ParseResult" where
  "parseWanLink line =
     (let text = lower line; has = (\<lambda>word. contains_str word text); message = [(''message'', line)]
      in if \<not> has ''netifd'' \<and> \<not> has ''pppd'' then no_result
         else if \<not> has ''wan'' \<and> \<not> has ''pppoe'' then no_result
         else matched ''wan''
                (if has ''down'' \<or> has ''fail'' \<or> has ''disconnect'' then dput ''state'' ''down'' message
                 else if has ''up'' \<or> has ''connect'' then dput ''state'' ''up'' message
                 else message))"

definition wifi_regex :: regex where
  "wifi_regex =
     Cat (Group 1 (Alt (Lit ''AP-STA-CONNECTED'') (Lit ''AP-STA-DISCONNECTED'')))
         (Cat (Plus isspace) (Group 2 (mac_body 3)))"

definition parseHostapd :: "string \<Rightarrow> ParseResult" where
  "parseHostapd line =
     (let connected = contains_str ''AP-STA-CONNECTED'' line;
          disconnected = contains_str ''AP-STA-DISCONNECTED'' line
      in if \<not> contains_str ''hostapd'' line \<or> \<not> connected \<and> \<not> disconnected then no_result
         else case regex_search wifi_regex line of
                None \<Rightarrow> no_result
              | Some g \<Rightarrow> matched ''wifi''
                  [(''event'', if connected then ''wifi_connected'' else ''wifi_disconnected''),
                   (''mac'', lower (capture g 2))])"

definition parsers :: "(string \<Rightarrow> ParseResult) list" where
  "parsers = [parseWANAttack, parseNetDev, parseNetIface, parseNetTraffic, parseDHCP, parseWanLink, parseHostapd]"

definition parse :: "string \<Rightarrow> ParseResult" where
  "parse line =
     (let text = stripSyslogPriority line
      in case find (\<lambda>result. pr_matched result) (map (\<lambda>parser. parser text) parsers) of
           Some parsed \<Rightarrow> parsed\<lparr>pr_raw := text\<rparr>
         | None \<Rightarrow> no_result\<lparr>pr_raw := text\<rparr>)"

section \<open>What a result can be\<close>

lemma matched_simps [simp]:
  "pr_matched (matched type f)" "pr_type (matched type f) = type" "pr_fields (matched type f) = f"
  "\<not> pr_matched no_result"
  by (simp_all add: matched_def no_result_def)

lemmas recogniser_defs = parseWANAttack_def parseNetDev_def parseNetIface_def parseNetTraffic_def
  parseDHCP_def parseWanLink_def parseHostapd_def

lemma recogniser_types:
  "pr_matched (parseWANAttack s) \<Longrightarrow> pr_type (parseWANAttack s) = ''wan_attack''"
  "pr_matched (parseNetDev s) \<Longrightarrow> pr_type (parseNetDev s) = ''netdev''"
  "pr_matched (parseNetIface s) \<Longrightarrow> pr_type (parseNetIface s) = ''netiface''"
  "pr_matched (parseNetTraffic s) \<Longrightarrow> pr_type (parseNetTraffic s) = ''nettraffic''"
  "pr_matched (parseDHCP s) \<Longrightarrow> pr_type (parseDHCP s) = ''dhcp''"
  "pr_matched (parseWanLink s) \<Longrightarrow> pr_type (parseWanLink s) = ''wan''"
  "pr_matched (parseHostapd s) \<Longrightarrow> pr_type (parseHostapd s) = ''wifi''"
  by (auto simp: recogniser_defs Let_def split: option.splits if_splits)

definition known_types :: "string list" where
  "known_types = [''wan_attack'', ''netdev'', ''netiface'', ''nettraffic'', ''dhcp'', ''wan'', ''wifi'']"

lemma parse_cases:
  obtains (none) "parse line = no_result\<lparr>pr_raw := stripSyslogPriority line\<rparr>"
  | (some) p where "p \<in> set parsers" "pr_matched (p (stripSyslogPriority line))"
      "parse line = (p (stripSyslogPriority line))\<lparr>pr_raw := stripSyslogPriority line\<rparr>"
proof (cases "find pr_matched (map (\<lambda>p. p (stripSyslogPriority line)) parsers)")
  case None
  then show thesis using none by (simp add: parse_def Let_def)
next
  case (Some res)
  then obtain p where "p \<in> set parsers" "res = p (stripSyslogPriority line)" "pr_matched res"
    by (auto simp: find_Some_iff) (metis nth_mem)
  with Some show thesis using some [of p] by (simp add: parse_def Let_def)
qed

lemma parse_known_type: "pr_matched (parse line) \<Longrightarrow> pr_type (parse line) \<in> set known_types"
  by (cases rule: parse_cases [of line])
     (auto simp: no_result_def parsers_def known_types_def recogniser_types)

lemma parse_raw [simp]: "pr_raw (parse line) = stripSyslogPriority line"
  by (cases rule: parse_cases [of line]) (simp_all add: no_result_def)

section \<open>MAC addresses are in lower case\<close>

lemma dget_lower_field: "dget (lower_field k f) x = (if x = k then map_option lower (dget f k) else dget f x)"
  by (auto simp: lower_field_def dict_simps split: option.split)

definition mac_lower :: "fields \<Rightarrow> bool" where
  "mac_lower f \<longleftrightarrow> (\<forall>m. dget f ''mac'' = Some m \<longrightarrow> lower m = m)"

lemma mac_lower_dput: "mac_lower f \<Longrightarrow> k \<noteq> ''mac'' \<or> lower v = v \<Longrightarrow> mac_lower (dput k v f)"
  by (auto simp: mac_lower_def dict_simps)

lemma mac_lower_lower_field [simp]: "mac_lower (lower_field ''mac'' f)"
  by (auto simp: mac_lower_def dget_lower_field)

lemma mac_lower_Nil [simp]: "mac_lower []"
  by (simp add: mac_lower_def)

lemma mac_lower_fold: "mac_lower f \<Longrightarrow> (\<And>v. (''mac'', v) \<in> set kvs \<Longrightarrow> lower v = v) \<Longrightarrow>
    mac_lower (fold (\<lambda>(k, v). dput k v) kvs f)"
proof (induction kvs arbitrary: f)
  case (Cons p kvs)
  then show ?case by (cases p) (auto intro!: Cons.IH mac_lower_dput)
qed simp

lemma parseNlbwCsv_mac: "parseNlbwCsv s = Some f \<Longrightarrow> (''mac'', v) \<in> set f \<Longrightarrow> lower v = v"
  by (auto simp: parseNlbwCsv_def Let_def split: if_splits option.splits)

lemma recogniser_mac_lower:
  "mac_lower (pr_fields (parseNetDev s))" "mac_lower (pr_fields (parseNetTraffic s))"
  "mac_lower (pr_fields (parseDHCP s))" "mac_lower (pr_fields (parseHostapd s))"
proof -
  show "mac_lower (pr_fields (parseNetDev s))"
    by (auto simp: parseNetDev_def Let_def no_result_def intro!: mac_lower_dput split: option.split)
  show "mac_lower (pr_fields (parseNetTraffic s))"
    by (auto simp: parseNetTraffic_def Let_def no_result_def intro!: mac_lower_fold dest: parseNlbwCsv_mac
        split: option.split)
  have "mac_lower f \<Longrightarrow> mac_lower (dhcp_tokens ts f)" for ts f
    by (auto simp: dhcp_tokens_def Let_def intro!: mac_lower_dput split: list.split)
  moreover have "mac_lower [(''event'', a), (''method'', b), (''interface'', c)]" for a b c
    by (simp add: mac_lower_def)
  ultimately show "mac_lower (pr_fields (parseDHCP s))"
    by (auto simp: parseDHCP_def Let_def no_result_def split: option.split)
  show "mac_lower (pr_fields (parseHostapd s))"
    by (auto simp: parseHostapd_def Let_def no_result_def mac_lower_def split: option.split)
qed

text \<open>
  Whatever line arrives, a MAC address that the parser reports for a device, DHCP, traffic or Wi-Fi
  line is in lower case, so that it names the same device in every kind of line.
\<close>

theorem parse_mac_lower:
  assumes "pr_type (parse line) \<in> {''netdev'', ''nettraffic'', ''dhcp'', ''wifi''}"
    and "dget (pr_fields (parse line)) ''mac'' = Some mac"
  shows "lower mac = mac"
proof -
  have "mac_lower (pr_fields (parse line))"
    using assms(1)
    by (cases rule: parse_cases [of line])
       (auto simp: no_result_def parsers_def recogniser_types recogniser_mac_lower)
  then show ?thesis using assms(2) by (simp add: mac_lower_def)
qed

theorem parse_mac_lower_witness:
  "lower ''aa:bb:cc:dd:ee:ff'' = ''aa:bb:cc:dd:ee:ff''"
proof (rule parse_mac_lower)
  let ?line = "''hostapd: phy0-ap0: AP-STA-CONNECTED AA:BB:CC:DD:EE:FF''"
  show "pr_type (parse ?line) \<in> {''netdev'', ''nettraffic'', ''dhcp'', ''wifi''}" by code_simp
  show "dget (pr_fields (parse ?line)) ''mac'' = Some ''aa:bb:cc:dd:ee:ff''" by code_simp
qed

text \<open>
  Every line the parser recognises has one of seven types, and a line it does not recognise has no
  fields; in both cases the raw text is the line without its syslog priority.
\<close>

theorem parse_classifies:
  "pr_raw (parse line) = stripSyslogPriority line
   \<and> (if pr_matched (parse line) then pr_type (parse line) \<in> set known_types
      else pr_type (parse line) = ''unknown'' \<and> pr_fields (parse line) = [])"
proof (cases rule: parse_cases [of line])
  case none
  then show ?thesis by (simp add: no_result_def)
next
  case (some p)
  then show ?thesis using parse_known_type [of line] by simp
qed

section \<open>Reading back the lines of the collectors\<close>

lemma find_str_None: "find_str pat s = None \<longleftrightarrow> \<not> contains_str pat s"
  by (simp add: contains_str_def)

lemma find_str_first:
  assumes "hd pat \<notin> set (tl pat)" "pat \<noteq> []" "\<not> contains_str pat pre"
  shows "find_str pat (pre @ pat @ rest) = Some (length pre)"
  using assms(3)
proof (induction pre)
  case Nil
  have "find_str pat (pat @ rest) = Some 0"
    using assms(2) by (cases pat) (auto simp: prefix_def)
  then show ?case by simp
next
  case (Cons c pre)
  have "\<not> prefix pat (c # pre @ pat @ rest)"
  proof
    assume p: "prefix pat (c # pre @ pat @ rest)"
    show False
    proof (cases "length pat \<le> Suc (length pre)")
      case True
      then have "prefix pat (c # pre)"
        using p by (metis append_Cons length_Cons prefix_length_prefix prefixI)
      then show False using Cons.prems by (simp add: contains_str_def)
    next
      case False
      then have i: "Suc (length pre) < length pat" by simp
      from p obtain t where "c # pre @ pat @ rest = pat @ t" by (auto simp: prefix_def)
      then have "(pat @ t) ! Suc (length pre) = hd pat"
        using assms(2) by (metis append_Cons append_is_Nil_conv hd_append2 hd_conv_nth length_Cons nth_append_length_plus
            add.right_neutral nth_append_length Cons_eq_appendI list.exhaust_sel)
      then have "pat ! Suc (length pre) = hd pat" using i by (simp add: nth_append)
      then show False using assms(1) i by (cases pat) auto
    qed
  qed
  moreover have "\<not> contains_str pat pre" using Cons.prems by (auto simp: contains_str_def split: if_splits)
  ultimately show ?case using Cons.IH by simp
qed

lemma trim_space_Cons: "isspace c \<Longrightarrow> trim (c # s) = trim s"
  by (simp add: trim_def)

lemma render_fields_ends:
  assumes "list_all plain_pair kvs" "kvs \<noteq> []"
  shows "render_fields kvs \<noteq> []" "\<not> isspace (hd (render_fields kvs))" "\<not> isspace (last (render_fields kvs))"
proof -
  have pair: "render_pair p \<noteq> []" "\<not> isspace (hd (render_pair p))" "\<not> isspace (last (render_pair p))"
    if "plain_pair p" for p
    using that by (cases p; cases "fst p"; cases "snd p" rule: rev_cases;
        auto simp: render_pair_def plain_pair_def kv_key_char_def)+
  have "render_fields kvs \<noteq> [] \<and> \<not> isspace (hd (render_fields kvs)) \<and> \<not> isspace (last (render_fields kvs))"
    using assms
  proof (induction kvs)
    case (Cons p kvs)
    then show ?case
      using pair [of p] by (cases kvs) (auto simp: render_fields_def)
  qed simp
  then show "render_fields kvs \<noteq> []" "\<not> isspace (hd (render_fields kvs))" "\<not> isspace (last (render_fields kvs))"
    by simp_all
qed

lemma afterTag_render:
  assumes "list_all plain_pair kvs" "kvs \<noteq> []" "find_str tag (pre @ tag @ '': '' @ render_fields kvs) = Some (length pre)"
  shows "afterTag (pre @ tag @ '': '' @ render_fields kvs) tag = render_fields kvs"
proof -
  have "trim (render_fields kvs) = render_fields kvs"
    using render_fields_ends [OF assms(1,2)] by (rule trim_id)
  then show ?thesis
    using assms(3) by (simp add: afterTag_def Let_def trim_space_Cons)
qed

text \<open>
  A line that the device collector writes is read back field by field: for every list of plain
  \<open>key=value\<close> pairs after the \<open>NETDEV:\<close> tag, the parser reports type \<open>netdev\<close> and, for every key, the value
  of its last pair, with the MAC address in lower case and \<open>host\<close> also available as \<open>hostname\<close>.
\<close>

theorem parse_netdev_line:
  assumes line: "line = pre @ ''NETDEV'' @ '': '' @ render_fields kvs"
    and kvs: "list_all plain_pair kvs" "kvs \<noteq> []"
    and pre: "\<not> contains_str ''NETDEV'' pre" "stripSyslogPriority line = line" "\<not> contains_str ''WAN_ATTACK:'' line"
  shows "pr_type (parse line) = ''netdev''
    \<and> (\<forall>k. dget (pr_fields (parse line)) k =
         (if k = ''mac'' then map_option lower (map_of (rev kvs) ''mac'')
          else if k = ''hostname'' \<and> map_of (rev kvs) ''host'' \<noteq> None then map_of (rev kvs) ''host''
          else map_of (rev kvs) k))"
proof -
  have find: "find_str ''NETDEV'' line = Some (length pre)"
    unfolding line by (rule find_str_first) (use pre(1) in simp_all)
  then have "contains_str ''NETDEV'' line" by (simp add: contains_str_def)
  then have parse: "parse line = (parseNetDev line)\<lparr>pr_raw := line\<rparr>"
    using pre(2,3) by (simp add: parse_def Let_def parsers_def parseWANAttack_def parseNetDev_def find_str_None [THEN iffD2])
  have "afterTag line ''NETDEV'' = render_fields kvs"
    using afterTag_render [OF kvs, of "''NETDEV''" pre] find unfolding line by simp
  then have "map_of (parseKeyValueFields (afterTag line ''NETDEV'')) = map_of (rev kvs)"
    using kv_loop_render [OF kvs(1), of "[]"] by (simp add: parseKeyValueFields_def map_of_fold_dput)
  then show ?thesis
    using \<open>contains_str ''NETDEV'' line\<close>
    by (auto simp: parse parseNetDev_def Let_def dget_lower_field dict_simps split: option.split)
qed

theorem parse_netdev_line_witness:
  "dget (pr_fields (parse (''Jan 1 router '' @ ''NETDEV'' @ '': '' @
     render_fields [(''ts'', ''5''), (''mac'', ''AA:BB'')]))) ''mac'' = Some ''aa:bb''"
proof -
  let ?kvs = "[(''ts'', ''5''), (''mac'', ''AA:BB'')]"
  let ?line = "''Jan 1 router '' @ ''NETDEV'' @ '': '' @ render_fields ?kvs"
  have "list_all plain_pair ?kvs" by code_simp
  moreover have "\<not> contains_str ''NETDEV'' ''Jan 1 router ''" by code_simp
  moreover have "stripSyslogPriority ?line = ?line" by code_simp
  moreover have "\<not> contains_str ''WAN_ATTACK:'' ?line" by code_simp
  moreover have "map_option lower (map_of (rev ?kvs) ''mac'') = Some ''aa:bb''" by code_simp
  ultimately show ?thesis using parse_netdev_line [OF refl, of ?kvs "''Jan 1 router ''"] by simp
qed

section \<open>The format of MAC addresses\<close>

definition byte_text :: "(char \<Rightarrow> bool) \<Rightarrow> string \<Rightarrow> bool" where
  "byte_text P b \<longleftrightarrow> length b = 2 \<and> list_all P b"

lemma leaves_pair: "leaves (Times 2 (Cls P)) s t \<longleftrightarrow> (\<exists>b. byte_text P b \<and> s = b @ t)"
  by (auto simp: numeral_2_eq_2 byte_text_def length_Suc_conv)

lemma leaves_pairs:
  "leaves (Times n (Group m (Cat (Lit '':'') (Times 2 (Cls P))))) s t
   \<longleftrightarrow> (\<exists>bs. length bs = n \<and> list_all (byte_text P) bs \<and> s = concat (map (Cons (CHR '':'')) bs) @ t)"
proof (induction n arbitrary: s)
  case (Suc n)
  then show ?case
    by (simp only: Times.simps leaves_simps leaves_pair length_Suc_conv) fastforce
qed simp

lemma join_with_concat: "join_with d (p # ps) = p @ concat (map (Cons d) ps)"
  by (induction ps arbitrary: p) (simp_all add: join_with_Cons)

lemma looksLikeMac_iff:
  "looksLikeMac v \<longleftrightarrow> (\<exists>bs. length bs = 6 \<and> list_all (byte_text isxdigit) bs \<and> v = join_with (CHR '':'') bs)"
proof -
  have "length bs = 6 \<longleftrightarrow> (\<exists>b cs. bs = b # cs \<and> length cs = 5)" for bs :: "string list"
    by (cases bs) auto
  then show ?thesis
    unfolding looksLikeMac_def regex_match_leaves mac_body_def leaves_simps leaves_pair leaves_pairs
    by (fastforce simp: join_with_concat)
qed

text \<open>
  The regular expression for MAC addresses accepts exactly six groups of two hexadecimal digits
  separated by colons.
\<close>

theorem looksLikeMac_format:
  "looksLikeMac v \<longleftrightarrow> length (split v (CHR '':'')) = 6
     \<and> list_all (\<lambda>b. length b = 2 \<and> list_all isxdigit b) (split v (CHR '':''))"
proof
  assume "looksLikeMac v"
  then obtain bs where bs: "length bs = 6" "list_all (byte_text isxdigit) bs" "v = join_with (CHR '':'') bs"
    by (auto simp: looksLikeMac_iff)
  moreover have "CHR '':'' \<notin> set b" if "b \<in> set bs" for b
    using bs(2) that by (fastforce simp: list_all_iff byte_text_def isxdigit_def isdigit_def)
  ultimately have "split v (CHR '':'') = bs" by (auto intro!: split_join)
  then show "length (split v (CHR '':'')) = 6
     \<and> list_all (\<lambda>b. length b = 2 \<and> list_all isxdigit b) (split v (CHR '':''))"
    using bs by (simp add: byte_text_def [abs_def])
next
  assume "length (split v (CHR '':'')) = 6
     \<and> list_all (\<lambda>b. length b = 2 \<and> list_all isxdigit b) (split v (CHR '':''))"
  then show "looksLikeMac v"
    unfolding looksLikeMac_iff by (intro exI [of _ "split v (CHR '':'')"]) (simp add: join_split byte_text_def [abs_def])
qed

section \<open>DHCP lines\<close>

lemma looksLikeMac_chars: "looksLikeMac v \<Longrightarrow> list_all (\<lambda>c. c = CHR '':'' \<or> isxdigit c) v"
proof -
  have "list_all (byte_text isxdigit) bs \<Longrightarrow> list_all (\<lambda>c. c = CHR '':'' \<or> isxdigit c) (join_with (CHR '':'') bs)" for bs
  proof (induction bs)
    case (Cons b bs)
    then show ?case by (cases bs) (auto simp: byte_text_def list_all_iff)
  qed simp
  then show "looksLikeMac v \<Longrightarrow> ?thesis" by (auto simp: looksLikeMac_iff)
qed

lemma address_no_space:
  "looksLikeMac v \<Longrightarrow> list_all (\<lambda>c. \<not> isspace c) v" "looksLikeIpv4 v \<Longrightarrow> list_all (\<lambda>c. \<not> isspace c) v"
proof -
  have "isxdigit c \<Longrightarrow> \<not> isspace c" "isdigit c \<Longrightarrow> \<not> isspace c" for c
    by (auto simp: isxdigit_def isdigit_def isspace_def)
  then show "looksLikeMac v \<Longrightarrow> list_all (\<lambda>c. \<not> isspace c) v" "looksLikeIpv4 v \<Longrightarrow> list_all (\<lambda>c. \<not> isspace c) v"
    using looksLikeMac_chars [of v] by (auto simp: list_all_iff looksLikeIpv4_def isspace_def)
qed

lemma looksLike_nonempty: "looksLikeMac v \<Longrightarrow> v \<noteq> []" "looksLikeIpv4 v \<Longrightarrow> v \<noteq> []"
proof -
  have "\<not> looksLikeMac []" by code_simp
  then show "looksLikeMac v \<Longrightarrow> v \<noteq> []" by blast
qed (auto simp: looksLikeIpv4_def)

lemma find_str_skipped: "find_str pat s = Some i \<Longrightarrow> k < i \<Longrightarrow> \<not> prefix pat (drop k s)"
proof (induction s arbitrary: i k)
  case (Cons c s)
  then show ?case by (cases k) (auto split: if_splits)
qed (auto split: if_splits)

lemma dhcp_regex_prefix: "matches dhcp_regex s \<noteq> [] \<Longrightarrow> prefix ''DHCP'' s"
  by (auto simp: dhcp_regex_def prefix_def split: if_splits)

lemma dhcp_regex_first:
  assumes meth: "method \<in> {''DHCPREQUEST'', ''DHCPACK'', ''DHCPDISCOVER'', ''DHCPOFFER''}"
    and iface: "CHR '')'' \<notin> set iface"
    and rest: "rest \<noteq> []" "\<not> isspace (hd rest)" "list_all any_char rest"
  shows "first_match dhcp_regex (method @ ''('' @ iface @ '') '' @ rest) [(1, method), (2, iface), (3, rest)] []"
proof -
  let ?tail = "''('' @ iface @ '') '' @ rest"
  let ?alts = "Alt (Lit ''DHCPREQUEST'') (Alt (Lit ''DHCPACK'') (Alt (Lit ''DHCPDISCOVER'') (Lit ''DHCPOFFER'')))"
  have "first_match ?alts (method @ ?tail) [] ?tail"
    using meth by (auto simp: first_match_def)
  then have g1: "first_match (Group 1 ?alts) (method @ ?tail) ([] @ [(1, method)]) ?tail"
    by (rule first_Group)
  have "first_match (Many (\<lambda>c. c \<noteq> CHR '')'')) (iface @ '') '' @ rest) [] ('') '' @ rest)"
    using iface by (intro first_Many) (auto simp: list_all_iff)
  then have g2: "first_match (Group 2 (Many (\<lambda>c. c \<noteq> CHR '')''))) (iface @ '') '' @ rest)
      ([] @ [(2, iface)]) ('') '' @ rest)"
    by (rule first_Group)
  have sp: "first_match (Plus isspace) ('' '' @ rest) [] rest"
    using rest by (intro first_Plus) simp_all
  have "first_match (Plus any_char) (rest @ []) [] []"
    using rest by (intro first_Plus) simp_all
  then have g3: "first_match (Group 3 (Plus any_char)) (rest @ []) ([] @ [(3, rest)]) []"
    by (rule first_Group)
  have lits: "first_match (Lit ''('') ?tail [] (iface @ '') '' @ rest)"
    "first_match (Lit '')'') ('') '' @ rest) [] ('' '' @ rest)"
    by (simp_all add: first_match_def)
  from first_Cat [OF g1 first_Cat [OF lits(1) first_Cat [OF g2 first_Cat [OF lits(2) first_Cat [OF sp
      first_Cat [OF g3 [simplified] first_Eol]]]]]]
  show ?thesis by (simp add: dhcp_regex_def)
qed

lemma parseDHCP_line:
  assumes line: "line = pre @ method @ ''('' @ iface @ '') '' @ ip @ '' '' @ mac @ '' '' @ host"
    and pre: "contains_str ''dnsmasq-dhcp'' pre" "\<not> contains_str ''DHCP'' pre"
    and meth: "method \<in> {''DHCPREQUEST'', ''DHCPACK'', ''DHCPDISCOVER'', ''DHCPOFFER''}"
    and iface: "CHR '')'' \<notin> set iface"
    and ip: "looksLikeIpv4 ip" and mac: "looksLikeMac mac"
    and host: "host \<noteq> []" "list_all (\<lambda>c. \<not> isspace c) host"
  shows "parseDHCP line = matched ''dhcp''
    [(''event'', eventNameForDhcpMethod method), (''method'', method), (''interface'', iface),
     (''ip'', ip), (''mac'', lower mac), (''hostname'', host)]"
proof -
  let ?rest = "ip @ '' '' @ mac @ '' '' @ host"
  let ?dhcp = "method @ ''('' @ iface @ '') '' @ ?rest"
  note ns = address_no_space(2) [OF ip] address_no_space(1) [OF mac] host(2)
  have "CHR '' '' \<notin> set ip" "CHR '' '' \<notin> set mac" "CHR '' '' \<notin> set host"
    using ns by (auto simp: list_all_iff)
  then have split: "split ?rest (CHR '' '') = [ip, mac, host]"
    by (simp add: split_append split_free)
  have tokens: "filter (\<lambda>t. t \<noteq> []) (map trim (split ?rest (CHR '' ''))) = [ip, mac, host]"
    unfolding split using ns looksLike_nonempty ip mac host(1) by (simp add: trim_no_space)
  have "list_all any_char v" if "list_all (\<lambda>c. \<not> isspace c) v" for v
    using that by (auto simp: list_all_iff any_char_def isspace_def)
  with ns have "list_all any_char ?rest" by (simp add: any_char_def)
  moreover have "?rest \<noteq> []" "\<not> isspace (hd ?rest)"
    using ns(1) looksLike_nonempty(2) [OF ip] by (cases ip; simp)+
  ultimately have first: "first_match dhcp_regex ?dhcp [(1, method), (2, iface), (3, ?rest)] []"
    using meth iface by (intro dhcp_regex_first)
  obtain dh where "method = ''DHCP'' @ dh" using meth by auto
  then have "find_str ''DHCP'' line = Some (length pre)"
    unfolding line using find_str_first [of "''DHCP''" pre] pre(2) by simp
  then have "regex_search dhcp_regex line = regex_search dhcp_regex ?dhcp"
    unfolding line using dhcp_regex_prefix find_str_skipped by (intro regex_search_skip) fastforce
  also have "\<dots> = Some [(1, method), (2, iface), (3, ?rest)]"
    by (rule regex_search_first [OF first])
  finally have search: "regex_search dhcp_regex line = Some [(1, method), (2, iface), (3, ?rest)]" .
  have "contains_str ''dnsmasq-dhcp'' line"
    using pre(1) unfolding line contains_str_iff by (rule sublist_order.order.trans) (rule sublist_append_rightI)
  then show ?thesis
    using search tokens ip mac
    by (simp add: parseDHCP_def Let_def capture_def dhcp_tokens_def)
qed

text \<open>
  A DHCP line of \<open>dnsmasq\<close> is read back: the method and interface, the leased address, the MAC address
  in lower case and the host name are exactly those of the line.
\<close>

theorem parse_dhcp_line:
  assumes line: "line = pre @ method @ ''('' @ iface @ '') '' @ ip @ '' '' @ mac @ '' '' @ host"
    and pre: "contains_str ''dnsmasq-dhcp'' pre" "\<not> contains_str ''DHCP'' pre"
    and meth: "method \<in> {''DHCPREQUEST'', ''DHCPACK'', ''DHCPDISCOVER'', ''DHCPOFFER''}"
    and iface: "CHR '')'' \<notin> set iface"
    and addresses: "looksLikeIpv4 ip" "looksLikeMac mac"
    and host: "host \<noteq> []" "list_all (\<lambda>c. \<not> isspace c) host"
    and other: "stripSyslogPriority line = line" "\<not> contains_str ''WAN_ATTACK:'' line"
      "\<not> contains_str ''NETDEV'' line" "\<not> contains_str ''NETIFACE'' line" "\<not> contains_str ''NETTRAFFIC'' line"
  shows "parse line = \<lparr>pr_matched = True, pr_type = ''dhcp'',
    pr_fields = [(''event'', eventNameForDhcpMethod method), (''method'', method), (''interface'', iface),
                 (''ip'', ip), (''mac'', lower mac), (''hostname'', host)],
    pr_raw = line\<rparr>"
  using parseDHCP_line [OF line pre meth iface addresses host] other
  by (simp add: parse_def Let_def parsers_def parseWANAttack_def find_str_None [THEN iffD2] parseNetDev_def
      parseNetIface_def parseNetTraffic_def matched_def no_result_def)

theorem parse_dhcp_line_witness:
  "pr_fields (parse (''dnsmasq-dhcp[1]: '' @ ''DHCPACK'' @ ''('' @ ''br-lan'' @ '') '' @ ''10.0.0.2'' @ '' '' @
     ''AA:BB:CC:DD:EE:FF'' @ '' '' @ ''phone'')) =
   [(''event'', ''dhcp_ack''), (''method'', ''DHCPACK''), (''interface'', ''br-lan''), (''ip'', ''10.0.0.2''),
    (''mac'', ''aa:bb:cc:dd:ee:ff''), (''hostname'', ''phone'')]"
proof -
  let ?line = "''dnsmasq-dhcp[1]: '' @ ''DHCPACK'' @ ''('' @ ''br-lan'' @ '') '' @ ''10.0.0.2'' @ '' '' @
    ''AA:BB:CC:DD:EE:FF'' @ '' '' @ ''phone''"
  have "contains_str ''dnsmasq-dhcp'' ''dnsmasq-dhcp[1]: ''" "\<not> contains_str ''DHCP'' ''dnsmasq-dhcp[1]: ''"
    "looksLikeIpv4 ''10.0.0.2''" "looksLikeMac ''AA:BB:CC:DD:EE:FF''" "list_all (\<lambda>c. \<not> isspace c) ''phone''"
    "stripSyslogPriority ?line = ?line" "\<not> contains_str ''WAN_ATTACK:'' ?line" "\<not> contains_str ''NETDEV'' ?line"
    "\<not> contains_str ''NETIFACE'' ?line" "\<not> contains_str ''NETTRAFFIC'' ?line"
    "lower ''AA:BB:CC:DD:EE:FF'' = ''aa:bb:cc:dd:ee:ff''" "eventNameForDhcpMethod ''DHCPACK'' = ''dhcp_ack''"
    by code_simp+
  then show ?thesis
    using parse_dhcp_line [OF refl, of "''dnsmasq-dhcp[1]: ''" "''DHCPACK''" "''br-lan''" "''10.0.0.2''"
        "''AA:BB:CC:DD:EE:FF''" "''phone''"]
    by simp
qed

end
