(* ===== verification/Runtime_Stats.thy ===== *)
theory Runtime_Stats
  imports Netmon_Utils "HOL-Library.List_Lexorder" "HOL-Library.Char_ord"
begin

text \<open>
  \<^verbatim>\<open>src/src/runtime_stats.cpp\<close>: the counters behind the Prometheus metrics. The counters are
  unsigned 64-bit and wrap.
\<close>

record RuntimeStats =
  rs_syslog_messages_total :: u64
  rs_parse_errors_total :: u64
  rs_wan_attacks_total :: u64
  rs_syslog_messages_by_type :: "(string, u64) dict"

record RuntimeStatsSnapshot =
  sn_syslog_messages_total :: u64
  sn_parse_errors_total :: u64
  sn_wan_attacks_total :: u64
  sn_syslog_messages_by_type :: "(string, u64) dict"

definition stats_new :: RuntimeStats where
  "stats_new = \<lparr>rs_syslog_messages_total = 0, rs_parse_errors_total = 0, rs_wan_attacks_total = 0,
                rs_syslog_messages_by_type = []\<rparr>"

definition recordSyslogMessage :: "string \<Rightarrow> RuntimeStats \<Rightarrow> RuntimeStats" where
  "recordSyslogMessage type s =
     (let key = (if type = [] then ''unknown'' else lower type);
          by_type = rs_syslog_messages_by_type s
      in s\<lparr>rs_syslog_messages_total := rs_syslog_messages_total s + 1,
           rs_syslog_messages_by_type := dput key (dget_or by_type key 0 + 1) by_type\<rparr>)"

definition recordParseError :: "RuntimeStats \<Rightarrow> RuntimeStats" where
  "recordParseError s = s\<lparr>rs_parse_errors_total := rs_parse_errors_total s + 1\<rparr>"

definition recordWANAttack :: "RuntimeStats \<Rightarrow> RuntimeStats" where
  "recordWANAttack s = s\<lparr>rs_wan_attacks_total := rs_wan_attacks_total s + 1\<rparr>"

text \<open>The copy of the map is iterated in the order of its keys.\<close>

definition snapshot :: "RuntimeStats \<Rightarrow> RuntimeStatsSnapshot" where
  "snapshot s =
     \<lparr>sn_syslog_messages_total = rs_syslog_messages_total s, sn_parse_errors_total = rs_parse_errors_total s,
      sn_wan_attacks_total = rs_wan_attacks_total s,
      sn_syslog_messages_by_type = sort_key fst (rs_syslog_messages_by_type s)\<rparr>"

section \<open>The total is the sum over the types\<close>

definition stats_ok :: "RuntimeStats \<Rightarrow> bool" where
  "stats_ok s \<longleftrightarrow> dwf (rs_syslog_messages_by_type s)
     \<and> rs_syslog_messages_total s = sum_list (map snd (rs_syslog_messages_by_type s))"

lemma sum_list_dput:
  "dwf d \<Longrightarrow> sum_list (map snd (dput k (dget_or d k 0 + x) d)) = sum_list (map snd d) + (x :: u64)"
proof (induction d)
  case (Cons p d)
  obtain k' v where p: "p = (k', v)" by (cases p)
  have "dget d k = None" if "k' = k" using Cons.prems that by (auto simp: p map_of_eq_None_iff)
  then show ?case
    using Cons by (auto simp: p dget_or_def add_ac split: option.splits)
qed (simp add: dget_or_def)

lemma stats_ok_new: "stats_ok stats_new"
  by (simp add: stats_ok_def stats_new_def)

lemma stats_ok_record [intro]:
  "stats_ok s \<Longrightarrow> stats_ok (recordSyslogMessage type s)"
  "stats_ok s \<Longrightarrow> stats_ok (recordParseError s)"
  "stats_ok s \<Longrightarrow> stats_ok (recordWANAttack s)"
  by (simp_all add: stats_ok_def recordSyslogMessage_def recordParseError_def recordWANAttack_def Let_def
      sum_list_dput)

end
