(* ===== verification/Storage_Prep.thy ===== *)
theory Storage_Prep
  imports Netmon_Types
begin

text \<open>
  What \<^verbatim>\<open>src/src/app.cpp\<close> does to an event before it is written to the database: shorten and clean the
  text, and keep only the fields of a fixed list.
\<close>

text \<open>The loop of \<^verbatim>\<open>cleanStorageValue\<close>.\<close>

definition clean_char :: "char \<Rightarrow> string" where
  "clean_char ch =
     (if ch = CHR 0x0A \<or> ch = CHR 0x0D \<or> ch = CHR 0x09 then [CHR 0x20]
      else if 32 \<le> code ch \<and> code ch \<noteq> 127 then [ch]
      else [])"

fun clean_loop :: "nat \<Rightarrow> string \<Rightarrow> string \<Rightarrow> string" where
  "clean_loop max_length out [] = out"
| "clean_loop max_length out (ch # cs) =
     (let out' = out @ clean_char ch
      in if max_length \<le> length out' then out' else clean_loop max_length out' cs)"

text \<open>\<^verbatim>\<open>std::string::resize\<close>: cut, or pad with null characters.\<close>

definition resize :: "nat \<Rightarrow> string \<Rightarrow> string" where
  "resize n s = take n s @ replicate (n - length s) (CHR 0x00)"

definition cleanStorageValue :: "string \<Rightarrow> nat \<Rightarrow> string" where
  "cleanStorageValue val max_length =
     (let out = trim (clean_loop max_length [] val)
      in if max_length < length val \<and> 3 \<le> length out
         then resize (max_length - 3) out @ ''...''
         else out)"

definition common_fields :: "string list" where
  "common_fields =
     [''ts'', ''event'', ''mac'', ''ip'', ''hostname'', ''host'', ''interface'', ''if'', ''iface'', ''neigh'',
      ''rx_bytes'', ''tx_bytes'', ''in_if'', ''src_ip'', ''dst_ip'', ''src_port'', ''dst_port'', ''proto'', ''len'',
      ''state'', ''message'']"

definition storageFieldAllowed :: "string \<Rightarrow> string \<Rightarrow> bool" where
  "storageFieldAllowed type key =
     (List.member common_fields key
      \<or> type = ''wan_attack'' \<and> (key = ''tos'' \<or> key = ''ttl'' \<or> key = ''out_if''))"

text \<open>
  One iteration of the loop over the fields of an event, with its break at forty fields, and the loop.
\<close>

definition clean_field :: "string \<Rightarrow> string \<Rightarrow> string \<Rightarrow> (string, string) dict \<Rightarrow> (string, string) dict \<times> bool" where
  "clean_field type key val cleaned =
     (let normalized_key = lower (cleanStorageValue key 48)
      in if normalized_key = [] then (cleaned, False)
         else if normalized_key = ''raw'' \<or> normalized_key = ''csv''
         then (dput (normalized_key @ ''_len'') (show_nat (length val))
                 (dput (normalized_key @ ''_preview'') (cleanStorageValue val 180) cleaned), False)
         else if \<not> storageFieldAllowed type normalized_key then (cleaned, False)
         else let cleaned' = dput normalized_key
                    (if normalized_key = ''mac'' then lower (cleanStorageValue val 96)
                     else cleanStorageValue val 180) cleaned
              in (cleaned', 40 \<le> length cleaned'))"

fun clean_fields :: "string \<Rightarrow> (string \<times> string) list \<Rightarrow> (string, string) dict \<Rightarrow> (string, string) dict" where
  "clean_fields type [] cleaned = cleaned"
| "clean_fields type ((key, val) # rest) cleaned =
     (let (cleaned', stop) = clean_field type key val cleaned
      in if stop then cleaned' else clean_fields type rest cleaned')"

definition preprocessEventForStorage :: "Event \<Rightarrow> Event" where
  "preprocessEventForStorage event =
     event\<lparr>ev_source := cleanStorageValue (ev_source event) 80,
           ev_message := (if ev_type event = ''raw'' then ''Unparsed syslog line''
                          else cleanStorageValue (ev_message event) 240),
           ev_fields := clean_fields (ev_type event) (ev_fields event) []\<rparr>"

definition preprocessWANAttackForStorage :: "WANAttackEvent \<Rightarrow> WANAttackEvent" where
  "preprocessWANAttackForStorage event =
     event\<lparr>wa_in_if := cleanStorageValue (wa_in_if event) 64,
           wa_src_ip := cleanStorageValue (wa_src_ip event) 64,
           wa_dst_ip := cleanStorageValue (wa_dst_ip event) 64,
           wa_src_port := cleanStorageValue (wa_src_port event) 16,
           wa_dst_port := cleanStorageValue (wa_dst_port event) 16,
           wa_proto := cleanStorageValue (wa_proto event) 24,
           wa_length := cleanStorageValue (wa_length event) 24,
           wa_raw := cleanStorageValue (wa_raw event) 240\<rparr>"

section \<open>Bounds\<close>

lemma length_clean_char: "length (clean_char ch) \<le> 1"
  by (simp add: clean_char_def)

lemma clean_loop_bound: "length out < n \<Longrightarrow> length (clean_loop n out s) \<le> n"
proof (induction s arbitrary: out)
  case (Cons ch s)
  then show ?case using length_clean_char [of ch] by (simp add: Let_def)
qed simp

definition printable :: "char \<Rightarrow> bool" where
  "printable ch \<longleftrightarrow> 32 \<le> code ch \<and> code ch \<noteq> 127"

lemma clean_loop_printable: "list_all printable out \<Longrightarrow> list_all printable (clean_loop n out s)"
proof (induction s arbitrary: out)
  case (Cons ch s)
  then show ?case by (simp add: Let_def clean_char_def printable_def)
qed simp

lemma cleanStorageValue_bound: "3 \<le> n \<Longrightarrow> length (cleanStorageValue val n) \<le> n"
  using clean_loop_bound [of "[]" n val] length_trim_le [of "clean_loop n [] val"]
  by (auto simp: cleanStorageValue_def resize_def Let_def min_def)

lemma cleanStorageValue_chars:
  "list_all (\<lambda>ch. printable ch \<or> ch = CHR 0x00) (cleanStorageValue val n)"
proof -
  have "list_all printable (trim (clean_loop n [] val))"
    using clean_loop_printable [of "[]" n val] set_trim_subset [of "clean_loop n [] val"] by (auto simp: list_all_iff)
  then show ?thesis
    by (auto simp: cleanStorageValue_def resize_def Let_def list_all_iff printable_def dest: in_set_takeD)
qed

section \<open>Short and long texts\<close>

lemma clean_loop_take: "list_all printable s \<Longrightarrow> length out < n \<Longrightarrow> clean_loop n out s = take n (out @ s)"
proof (induction s arbitrary: out)
  case (Cons ch s)
  then have "clean_char ch = [ch]" by (auto simp: clean_char_def printable_def)
  then show ?case
    using Cons by (cases "Suc (length out) < n") (auto simp: Let_def take_Cons' not_less le_Suc_eq)
qed simp

lemma trim_take: "trim s = s \<Longrightarrow> n \<le> length s \<Longrightarrow> 0 < n \<Longrightarrow> \<not> isspace (s ! (n - 1)) \<Longrightarrow> trim (take n s) = take n s"
proof (rule trim_id)
  assume *: "trim s = s" "n \<le> length s" "0 < n" "\<not> isspace (s ! (n - 1))"
  then show "take n s \<noteq> []" by auto
  show "\<not> isspace (hd (take n s))" using * trim_ends(1) [of s] by (cases s) auto
  show "\<not> isspace (last (take n s))" using * by (subst last_conv_nth) (auto simp: min_def)
qed

text \<open>
  A printable text without surrounding white space is stored unchanged when it fits; when it does not
  fit (and is not cut at a blank), its first \<open>n - 3\<close> characters are stored, followed by three dots.
\<close>

theorem cleanStorageValue_printable:
  assumes "list_all printable val" "trim val = val" "6 \<le> n"
    and "n < length val \<Longrightarrow> \<not> isspace (val ! (n - 1))"
  shows "cleanStorageValue val n = (if length val \<le> n then val else take (n - 3) val @ ''...'')"
proof (cases "length val \<le> n")
  case True
  then show ?thesis using assms by (simp add: cleanStorageValue_def clean_loop_take Let_def)
next
  case False
  then have "trim (take n val) = take n val" using assms by (intro trim_take) simp_all
  moreover have "resize (n - 3) (take n val) = take (n - 3) val"
    using False by (simp add: resize_def min_def)
  ultimately show ?thesis
    using assms False by (simp add: cleanStorageValue_def clean_loop_take Let_def)
qed

theorem cleanStorageValue_printable_witness:
  "cleanStorageValue ''abcdefgh'' 7 = ''abcd...''"
proof -
  have "list_all printable ''abcdefgh''" "trim ''abcdefgh'' = ''abcdefgh''" "\<not> isspace (''abcdefgh'' ! (7 - 1))"
    by code_simp+
  then show ?thesis using cleanStorageValue_printable [of "''abcdefgh''" 7] by simp
qed

text \<open>
  A long text of which only a few characters remain after the control characters are removed is not
  shortened but padded: the stored value contains null characters, although control characters are
  meant to be removed.
\<close>

theorem cleanStorageValue_pads_null:
  assumes "n < length val" and out: "out = trim (clean_loop n [] val)" "3 \<le> length out" "length out < n - 3"
  shows "cleanStorageValue val n = out @ replicate (n - 3 - length out) (CHR 0x00) @ ''...''"
  using assms by (simp add: cleanStorageValue_def resize_def Let_def)

theorem cleanStorageValue_pads_null_witness:
  "CHR 0x00 \<in> set (cleanStorageValue (replicate 9 (CHR 0x01) @ ''abc'') 10)"
proof -
  have "''abc'' = trim (clean_loop 10 [] (replicate 9 (CHR 0x01) @ ''abc''))" by code_simp
  from cleanStorageValue_pads_null [OF _ this] show ?thesis by simp
qed

section \<open>The fields that are stored\<close>

definition storable_keys :: "string list" where
  "storable_keys = common_fields @ [''tos'', ''ttl'', ''out_if'', ''raw_preview'', ''raw_len'', ''csv_preview'', ''csv_len'']"

lemma storageFieldAllowed_storable: "storageFieldAllowed type key \<Longrightarrow> key \<in> set storable_keys"
  by (auto simp: storageFieldAllowed_def storable_keys_def)

lemma dput_props:
  "dwf d \<Longrightarrow> dwf (dput k v d)" "set (dput k v d) \<subseteq> insert (k, v) (set d)"
  by (simp add: distinct_update, induction d) (auto split: if_splits)

definition stored_ok :: "(string, string) dict \<Rightarrow> bool" where
  "stored_ok d \<longleftrightarrow> dwf d
     \<and> (\<forall>(k, v) \<in> set d. k \<in> set storable_keys \<and> (k = ''raw_len'' \<or> k = ''csv_len'' \<or> length v \<le> 180))"

lemma stored_ok_dput:
  "stored_ok d \<Longrightarrow> k \<in> set storable_keys \<Longrightarrow> k = ''raw_len'' \<or> k = ''csv_len'' \<or> length v \<le> 180 \<Longrightarrow> stored_ok (dput k v d)"
  using dput_props(1) [of d k v] dput_props(2) [of k v d] by (auto simp: stored_ok_def)

lemma stored_ok_clean_field: "stored_ok d \<Longrightarrow> stored_ok (fst (clean_field type key val d))"
proof -
  assume ok: "stored_ok d"
  have keys: "''raw_preview'' \<in> set storable_keys" "''raw_len'' \<in> set storable_keys"
    "''csv_preview'' \<in> set storable_keys" "''csv_len'' \<in> set storable_keys"
    by (simp_all add: storable_keys_def)
  have len: "length (cleanStorageValue val 180) \<le> 180" "length (cleanStorageValue val 96) \<le> 180"
    using cleanStorageValue_bound [of 180 val] cleanStorageValue_bound [of 96 val] by simp_all
  show ?thesis
    using ok keys len storageFieldAllowed_storable [of type "lower (cleanStorageValue key 48)"]
    by (simp add: clean_field_def Let_def) (auto intro!: stored_ok_dput)
qed

lemma stored_ok_clean: "stored_ok d \<Longrightarrow> stored_ok (clean_fields type fs d)"
proof (induction type fs d rule: clean_fields.induct)
  case (2 type key val rest cleaned)
  then show ?case
    using stored_ok_clean_field [of cleaned type key val] by (auto simp: Let_def split: prod.split)
qed simp

lemma stored_ok_length: "stored_ok d \<Longrightarrow> length d \<le> 28"
proof -
  assume ok: "stored_ok d"
  then have "distinct (map fst d)" "set (map fst d) \<subseteq> set storable_keys"
    by (auto simp: stored_ok_def)
  then have "length (map fst d) \<le> card (set storable_keys)"
    by (metis List.finite_set card_mono distinct_card)
  also have "\<dots> \<le> length storable_keys" by (rule card_length)
  finally show ?thesis by (simp add: storable_keys_def common_fields_def)
qed

text \<open>
  Whatever an event contains, what is written to the database is bounded: source and message have
  at most 80 and 240 characters, there are at most 28 fields, all from a fixed list of names and each
  with at most 180 characters except for the two recorded lengths. In particular the limit of forty
  fields is never reached.
\<close>

theorem preprocessEvent_bounded:
  "length (ev_source (preprocessEventForStorage event)) \<le> 80
   \<and> length (ev_message (preprocessEventForStorage event)) \<le> 240
   \<and> length (ev_fields (preprocessEventForStorage event)) \<le> 28
   \<and> dkeys (ev_fields (preprocessEventForStorage event)) \<subseteq> set storable_keys
   \<and> list_all (\<lambda>(k, v). k = ''raw_len'' \<or> k = ''csv_len'' \<or> length v \<le> 180) (ev_fields (preprocessEventForStorage event))"
proof -
  have "stored_ok (clean_fields (ev_type event) (ev_fields event) [])"
    by (rule stored_ok_clean) (simp add: stored_ok_def)
  then show ?thesis
    using cleanStorageValue_bound [of 80 "ev_source event"] cleanStorageValue_bound [of 240 "ev_message event"]
      stored_ok_length
    by (auto simp: preprocessEventForStorage_def stored_ok_def list_all_iff)
qed

end
