(* ===== verification/Netmon_App.thy ===== *)
theory Netmon_App
  imports Store_Properties Log_Parser Runtime_Stats Storage_Prep
begin

text \<open>
  \<^verbatim>\<open>src/src/app.cpp\<close>: what the application does with a syslog line and in one round of its cleanup loop.
  The calls it makes to the database and to the web server are recorded in \<open>ap_calls\<close>, in order.
  The clock readings are those of the program points of one operation, in the order of the code.
\<close>

datatype call =
    UpsertDevices "DeviceState list"
  | InsertEvent Event
  | InsertTraffic TrafficSnapshot
  | InsertWANAttack WANAttackEvent
  | ApplyRetention
  | Broadcast string

record App =
  ap_config :: Config
  ap_state :: StateStore
  ap_stats :: RuntimeStats
  ap_sqlite_enabled :: bool
  ap_calls :: "call list"

definition app_new :: "Config \<Rightarrow> App" where
  "app_new config =
     \<lparr>ap_config = config, ap_state = store_new config, ap_stats = stats_new,
      ap_sqlite_enabled = (lower (storage_mode config) = ''sqlite''), ap_calls = []\<rparr>"

section \<open>Helpers\<close>

definition fieldOr :: "ParseResult \<Rightarrow> string \<Rightarrow> string \<Rightarrow> string" where
  "fieldOr res key fallback = dget_or (pr_fields res) key fallback"

definition tsFromFields :: "time \<Rightarrow> ParseResult \<Rightarrow> time" where
  "tsFromFields now res =
     (let ts = parseUint64 (fieldOr res ''ts'' []) 0
      in if 0 < ts then fromUnixSeconds (sint ts) else now)"

definition makeEvent :: "time \<Rightarrow> ParseResult \<Rightarrow> string \<Rightarrow> StateStore \<Rightarrow> Event \<times> StateStore" where
  "makeEvent now res peer_ip s =
     (let (i, s') = nextEventId s
      in (\<lparr>ev_id = i, ev_ts = now, ev_type = pr_type res, ev_severity = Info, ev_source = peer_ip,
           ev_message = pr_raw res, ev_fields = pr_fields res\<rparr>, s'))"

definition on_state :: "(StateStore \<Rightarrow> StateStore) \<Rightarrow> App \<Rightarrow> App" where
  "on_state f app = app\<lparr>ap_state := f (ap_state app)\<rparr>"

definition emit :: "call \<Rightarrow> App \<Rightarrow> App" where
  "emit c app = app\<lparr>ap_calls := ap_calls app @ [c]\<rparr>"

definition publishUpdate :: "string \<Rightarrow> App \<Rightarrow> App" where
  "publishUpdate type = emit (Broadcast (CHR ''{'' # jsonQuote ''type'' @ '':'' @ jsonQuote type @ '','' @
     jsonQuote ''payload'' @ '':{}}''))"

definition persist :: "call \<Rightarrow> App \<Rightarrow> App" where
  "persist c app = (if ap_sqlite_enabled app then emit c app else app)"

definition persistDevices :: "time \<Rightarrow> App \<Rightarrow> App" where
  "persistDevices now app = persist (UpsertDevices (devices now (ap_state app))) app"

definition persistEvent :: "Event \<Rightarrow> App \<Rightarrow> App" where
  "persistEvent event = persist (InsertEvent (preprocessEventForStorage event))"

definition persistTraffic :: "TrafficSnapshot \<Rightarrow> App \<Rightarrow> App" where
  "persistTraffic snap = persist (InsertTraffic snap)"

definition persistWANAttack :: "WANAttackEvent \<Rightarrow> App \<Rightarrow> App" where
  "persistWANAttack event = persist (InsertWANAttack (preprocessWANAttackForStorage event))"

definition persistRecentEvents :: "App \<Rightarrow> App" where
  "persistRecentEvents app =
     (if ap_sqlite_enabled app
      then fold (\<lambda>event. emit (InsertEvent (preprocessEventForStorage event)))
             (recentEvents (ap_state app) (unat (max_events (ap_config app)))) app
      else app)"

section \<open>The branches of applyParseResult\<close>

definition device_report :: "clock \<Rightarrow> DeviceState \<Rightarrow> Event \<Rightarrow> App \<Rightarrow> App" where
  "device_report clk device event app =
     publishUpdate ''device_update''
       (persistEvent event
         (persistDevices (clk 4)
           (on_state (addEvent (clock_from 2 clk) event)
             (on_state (updateDevice clk device) app))))"

definition netdev_device :: "ParseResult \<Rightarrow> time \<Rightarrow> DeviceState" where
  "netdev_device res ts =
     new_device\<lparr>dv_mac := fieldOr res ''mac'' [], dv_ip := fieldOr res ''ip'' [],
       dv_hostname := fieldOr res ''hostname'' (fieldOr res ''host'' []),
       dv_interface_name := fieldOr res ''interface'' (fieldOr res ''if'' []),
       dv_neigh_state := fieldOr res ''neigh'' [], dv_source := ''netdev'', dv_last_seen := ts,
       dv_tags := [''netdev'']\<rparr>"

definition apply_netdev :: "clock \<Rightarrow> ParseResult \<Rightarrow> Event \<Rightarrow> App \<Rightarrow> App" where
  "apply_netdev clk res event =
     device_report clk (netdev_device res (ev_ts event))
       (event\<lparr>ev_type := ''device'', ev_message := ''Device snapshot''\<rparr>)"

definition dhcp_device :: "ParseResult \<Rightarrow> time \<Rightarrow> DeviceState" where
  "dhcp_device res ts =
     new_device\<lparr>dv_mac := fieldOr res ''mac'' [], dv_ip := fieldOr res ''ip'' [],
       dv_hostname := fieldOr res ''hostname'' [], dv_interface_name := fieldOr res ''interface'' [],
       dv_source := ''dhcp'', dv_last_seen := ts, dv_last_dhcp := ts, dv_tags := [''dhcp'']\<rparr>"

definition apply_dhcp :: "clock \<Rightarrow> ParseResult \<Rightarrow> Event \<Rightarrow> App \<Rightarrow> App" where
  "apply_dhcp clk res event =
     device_report clk (dhcp_device res (ev_ts event))
       (event\<lparr>ev_type := ''dhcp'', ev_message := fieldOr res ''event'' ''DHCP event''\<rparr>)"

definition wifi_device :: "ParseResult \<Rightarrow> time \<Rightarrow> DeviceState" where
  "wifi_device res ts =
     new_device\<lparr>dv_mac := fieldOr res ''mac'' [], dv_source := ''wifi'', dv_last_seen := ts,
       dv_tags := [''wifi''],
       dv_status := (if fieldOr res ''event'' [] = ''wifi_disconnected'' then Offline else dv_status new_device)\<rparr>"

definition apply_wifi :: "clock \<Rightarrow> ParseResult \<Rightarrow> Event \<Rightarrow> App \<Rightarrow> App" where
  "apply_wifi clk res event =
     (let event1 = (if fieldOr res ''event'' [] = ''wifi_disconnected'' then event\<lparr>ev_severity := Warning\<rparr> else event)
      in device_report clk (wifi_device res (ev_ts event))
           (event1\<lparr>ev_type := ''device'', ev_message := fieldOr res ''event'' ''WiFi client event''\<rparr>))"

definition has_counters :: "ParseResult \<Rightarrow> bool" where
  "has_counters res \<longleftrightarrow> dget (pr_fields res) ''rx_bytes'' \<noteq> None \<and> dget (pr_fields res) ''tx_bytes'' \<noteq> None"

definition apply_nettraffic :: "clock \<Rightarrow> ParseResult \<Rightarrow> Event \<Rightarrow> App \<Rightarrow> App" where
  "apply_nettraffic clk res event app =
     (let snap = \<lparr>ts_mac = fieldOr res ''mac'' [], ts_ip = fieldOr res ''ip'' [], ts_ts = ev_ts event,
                      ts_rx_bytes = parseUint64 (fieldOr res ''rx_bytes'' []) 0,
                      ts_tx_bytes = parseUint64 (fieldOr res ''tx_bytes'' []) 0\<rparr>;
          app1 = (if has_counters res
                  then persistDevices (clk 2) (persistTraffic snap (on_state (updateTraffic clk snap) app))
                  else app);
          event1 = event\<lparr>ev_type := ''traffic'',
            ev_message := (if has_counters res then ''Traffic snapshot'' else ''Traffic CSV snapshot'')\<rparr>
      in publishUpdate ''traffic_update''
           (persistEvent event1 (on_state (addEvent (clock_from 3 clk) event1) app1)))"

definition apply_netiface :: "clock \<Rightarrow> ParseResult \<Rightarrow> Event \<Rightarrow> App \<Rightarrow> App" where
  "apply_netiface clk res event app =
     (let snap = \<lparr>is_interface_name = fieldOr res ''interface'' (fieldOr res ''if'' (fieldOr res ''iface'' [])),
                      is_ts = ev_ts event, is_rx_bytes = parseUint64 (fieldOr res ''rx_bytes'' []) 0,
                      is_tx_bytes = parseUint64 (fieldOr res ''tx_bytes'' []) 0\<rparr>
      in if has_counters res
         then publishUpdate ''summary_update'' (on_state (updateInterface clk snap) app)
         else app)"

definition wan_attack_of :: "ParseResult \<Rightarrow> time \<Rightarrow> WANAttackEvent" where
  "wan_attack_of res ts =
     \<lparr>wa_ts = ts, wa_in_if = fieldOr res ''in_if'' [], wa_src_ip = fieldOr res ''src_ip'' [],
      wa_dst_ip = fieldOr res ''dst_ip'' [], wa_src_port = fieldOr res ''src_port'' [],
      wa_dst_port = fieldOr res ''dst_port'' [], wa_proto = fieldOr res ''proto'' [],
      wa_length = fieldOr res ''len'' [], wa_raw = pr_raw res\<rparr>"

definition apply_wan_attack :: "clock \<Rightarrow> ParseResult \<Rightarrow> Event \<Rightarrow> App \<Rightarrow> App" where
  "apply_wan_attack clk res event app =
     (let attack = wan_attack_of res (ev_ts event);
          app1 = on_state (addWANAttack clk attack) app;
          app2 = app1\<lparr>ap_stats := recordWANAttack (ap_stats app1)\<rparr>;
          event1 = event\<lparr>ev_severity := Critical, ev_message := ''WAN attack/firewall drop''\<rparr>
      in publishUpdate ''wan_attack''
           (persistEvent event1
             (persistWANAttack attack (on_state (addEvent (clock_from 3 clk) event1) app2))))"

definition record_event :: "clock \<Rightarrow> Event \<Rightarrow> App \<Rightarrow> App" where
  "record_event clk event app =
     publishUpdate ''event'' (persistEvent event (on_state (addEvent clk event) app))"

definition apply_wan :: "clock \<Rightarrow> ParseResult \<Rightarrow> Event \<Rightarrow> App \<Rightarrow> App" where
  "apply_wan clk res event =
     record_event clk
       (event\<lparr>ev_type := ''wan'', ev_message := fieldOr res ''message'' (pr_raw res),
              ev_severity := (if fieldOr res ''state'' [] = ''down'' then Warning else ev_severity event)\<rparr>)"

definition applyParseResult :: "clock \<Rightarrow> ParseResult \<Rightarrow> string \<Rightarrow> App \<Rightarrow> App" where
  "applyParseResult clk res peer_ip app =
     (let (event0, s) = makeEvent (clk 0) res peer_ip (ap_state app);
          event = event0\<lparr>ev_ts := tsFromFields (clk 1) res\<rparr>;
          app1 = app\<lparr>ap_state := s\<rparr>;
          clk1 = clock_from 2 clk;
          type = pr_type res
      in if type = ''netdev'' then apply_netdev clk1 res event app1
         else if type = ''dhcp'' then apply_dhcp clk1 res event app1
         else if type = ''nettraffic'' then apply_nettraffic clk1 res event app1
         else if type = ''netiface'' then apply_netiface clk1 res event app1
         else if type = ''wan_attack'' then apply_wan_attack clk1 res event app1
         else if type = ''wan'' then apply_wan clk1 res event app1
         else if type = ''wifi'' then apply_wifi clk1 res event app1
         else record_event clk1 event app1)"

definition count_message :: "string \<Rightarrow> App \<Rightarrow> App" where
  "count_message type app = app\<lparr>ap_stats := recordSyslogMessage type (ap_stats app)\<rparr>"

definition handleLog :: "clock \<Rightarrow> string \<Rightarrow> string \<Rightarrow> App \<Rightarrow> App" where
  "handleLog clk line peer_ip app =
     (let res = parse line
      in if \<not> pr_matched res
         then let app1 = count_message ''raw'' app;
                  app2 = app1\<lparr>ap_stats := recordParseError (ap_stats app1)\<rparr>;
                  (event0, s) = makeEvent (clk 0) (res\<lparr>pr_type := ''raw'', pr_raw := line\<rparr>) peer_ip (ap_state app2);
                  event = event0\<lparr>ev_source := peer_ip, ev_message := line,
                            ev_fields := dput ''raw'' line (ev_fields event0)\<rparr>
              in record_event (clock_from 1 clk) event (app2\<lparr>ap_state := s\<rparr>)
         else applyParseResult clk res peer_ip (count_message (pr_type res) app))"

text \<open>One round of the cleanup loop.\<close>

definition cleanup_round :: "clock \<Rightarrow> App \<Rightarrow> App" where
  "cleanup_round clk app =
     publishUpdate ''summary_update''
       (persist ApplyRetention
         (persistRecentEvents
           (persistDevices (clk 2) (on_state (cleanup (clk 1) (clk 0)) app))))"

end
