(* ===== verification/App_Properties.thy ===== *)
theory App_Properties
  imports Netmon_App
begin

text \<open>
  What the application (\<^verbatim>\<open>src/src/app.cpp\<close>) guarantees: it acts on the store only through the store's
  operations, keeps the invariants of its parts, leaves one event per line, and calls the database
  only when it is enabled.
\<close>

section \<open>What the helpers change\<close>

lemma emit_simps [simp]:
  "ap_state (emit c app) = ap_state app" "ap_stats (emit c app) = ap_stats app"
  "ap_config (emit c app) = ap_config app" "ap_sqlite_enabled (emit c app) = ap_sqlite_enabled app"
  "ap_calls (emit c app) = ap_calls app @ [c]"
  by (simp_all add: emit_def)

lemma on_state_simps [simp]:
  "ap_state (on_state f app) = f (ap_state app)" "ap_stats (on_state f app) = ap_stats app"
  "ap_config (on_state f app) = ap_config app" "ap_sqlite_enabled (on_state f app) = ap_sqlite_enabled app"
  "ap_calls (on_state f app) = ap_calls app"
  by (simp_all add: on_state_def)

lemma persist_simps [simp]:
  "ap_state (persist c app) = ap_state app" "ap_stats (persist c app) = ap_stats app"
  "ap_config (persist c app) = ap_config app" "ap_sqlite_enabled (persist c app) = ap_sqlite_enabled app"
  "ap_calls (persist c app) = ap_calls app @ (if ap_sqlite_enabled app then [c] else [])"
  by (simp_all add: persist_def)

lemma fold_emit: "fold (\<lambda>x. emit (f x)) xs app = app\<lparr>ap_calls := ap_calls app @ map f xs\<rparr>"
  by (induction xs arbitrary: app) (simp_all add: emit_def)

lemma persistRecentEvents_simps [simp]:
  "ap_state (persistRecentEvents app) = ap_state app" "ap_stats (persistRecentEvents app) = ap_stats app"
  "ap_config (persistRecentEvents app) = ap_config app"
  "ap_sqlite_enabled (persistRecentEvents app) = ap_sqlite_enabled app"
  using fold_emit [of "\<lambda>event. InsertEvent (preprocessEventForStorage event)"]
  by (simp_all add: persistRecentEvents_def)

lemmas call_defs = publishUpdate_def persistDevices_def persistEvent_def persistTraffic_def persistWANAttack_def

lemma makeEvent_simps [simp]:
  "snd (makeEvent now res peer s) = snd (nextEventId s)"
  "ev_id (fst (makeEvent now res peer s)) = ''evt-'' @ show_nat (unat (st_event_seq s + 1))"
  "ev_source (fst (makeEvent now res peer s)) = peer" "ev_fields (fst (makeEvent now res peer s)) = pr_fields res"
  "ev_type (fst (makeEvent now res peer s)) = pr_type res"
  by (simp_all add: makeEvent_def nextEventId_def Let_def)

lemmas branch_defs = apply_netdev_def apply_dhcp_def apply_wifi_def apply_nettraffic_def apply_netiface_def
  apply_wan_attack_def apply_wan_def record_event_def device_report_def

section \<open>The application as a sequence of store operations\<close>

lemma steps_refl: "store_step\<^sup>*\<^sup>* s s"
  by simp

lemma steps_snoc:
  "store_step\<^sup>*\<^sup>* s t \<Longrightarrow> store_step\<^sup>*\<^sup>* s (updateDevice clk d t)"
  "store_step\<^sup>*\<^sup>* s t \<Longrightarrow> store_step\<^sup>*\<^sup>* s (updateTraffic clk ts t)"
  "store_step\<^sup>*\<^sup>* s t \<Longrightarrow> store_step\<^sup>*\<^sup>* s (updateInterface clk i t)"
  "store_step\<^sup>*\<^sup>* s t \<Longrightarrow> store_step\<^sup>*\<^sup>* s (addEvent clk e t)"
  "store_step\<^sup>*\<^sup>* s t \<Longrightarrow> store_step\<^sup>*\<^sup>* s (addWANAttack clk a t)"
  "store_step\<^sup>*\<^sup>* s t \<Longrightarrow> store_step\<^sup>*\<^sup>* s (snd (nextEventId t))"
  "store_step\<^sup>*\<^sup>* s t \<Longrightarrow> store_step\<^sup>*\<^sup>* s (cleanup c now t)"
  by (auto intro: rtranclp.rtrancl_into_rtrancl store_step.intros)

lemma makeEvent_split:
  "(case makeEvent now res peer s of (e, s') \<Rightarrow> f e s') = f (fst (makeEvent now res peer s)) (snd (nextEventId s))"
  by (simp add: case_prod_unfold)

lemma handleLog_steps: "store_step\<^sup>*\<^sup>* (ap_state app) (ap_state (handleLog clk line peer app))"
  unfolding handleLog_def applyParseResult_def count_message_def branch_defs call_defs Let_def makeEvent_split
  by (auto intro!: steps_snoc)

lemma cleanup_round_steps: "store_step\<^sup>*\<^sup>* (ap_state app) (ap_state (cleanup_round clk app))"
  unfolding cleanup_round_def call_defs by (auto intro!: steps_snoc)


section \<open>Reachable applications\<close>

inductive app_step :: "App \<Rightarrow> App \<Rightarrow> bool" where
  HandleLog: "app_step app (handleLog clk line peer app)"
| CleanupRound: "app_step app (cleanup_round clk app)"

inductive_cases app_stepE: "app_step app app'"

definition app_inv :: "App \<Rightarrow> bool" where
  "app_inv app \<longleftrightarrow> store_inv (ap_state app) \<and> stats_ok (ap_stats app)"

lemma stats_handleLog:
  "ap_stats (handleLog clk line peer app) =
     (if \<not> pr_matched (parse line) then recordParseError (recordSyslogMessage ''raw'' (ap_stats app))
      else if pr_type (parse line) = ''wan_attack'' then recordWANAttack (recordSyslogMessage ''wan_attack'' (ap_stats app))
      else recordSyslogMessage (pr_type (parse line)) (ap_stats app))"
  unfolding handleLog_def applyParseResult_def count_message_def branch_defs call_defs Let_def makeEvent_split
  by auto

lemma stats_cleanup_round: "ap_stats (cleanup_round clk app) = ap_stats app"
  by (simp add: cleanup_round_def call_defs)

lemma app_inv_step: "app_inv app \<Longrightarrow> app_step app app' \<Longrightarrow> app_inv app'"
proof (erule app_stepE)
  fix clk line peer
  assume "app_inv app" "app' = handleLog clk line peer app"
  then show "app_inv app'"
    using store.steps_inv [OF handleLog_steps] by (simp add: app_inv_def stats_handleLog stats_ok_record)
next
  fix clk
  assume "app_inv app" "app' = cleanup_round clk app"
  then show "app_inv app'"
    using store.steps_inv [OF cleanup_round_steps] by (simp add: app_inv_def stats_cleanup_round)
qed

lemma app_inv_new: "app_inv (app_new config)"
  by (simp add: app_inv_def app_new_def store_inv_new stats_ok_new)

interpretation app: invariant_system "\<lambda>a. a = app_new config" app_step app_inv
  by unfold_locales (auto intro: app_inv_new app_inv_step)

text \<open>
  Whatever lines arrive from whatever peers, in any order and interleaved with cleanup rounds, the
  state store stays consistent and the number of messages counted in total is the sum of the
  numbers counted per type.
\<close>

theorem reachable_app_ok:
  assumes "reach (\<lambda>a. a = app_new config) app_step a"
  shows "store_inv (ap_state a)
    \<and> rs_syslog_messages_total (ap_stats a) = sum_list (map snd (rs_syslog_messages_by_type (ap_stats a)))"
  using app.reach_inv [OF assms] by (simp add: app_inv_def stats_ok_def)

theorem reachable_app_ok_witness:
  "store_inv (ap_state (handleLog (\<lambda>_. 5) ''hello'' ''10.0.0.1'' (app_new default_config)))
   \<and> rs_syslog_messages_total (ap_stats (handleLog (\<lambda>_. 5) ''hello'' ''10.0.0.1'' (app_new default_config))) = 1"
proof -
  let ?a = "handleLog (\<lambda>_. 5) ''hello'' ''10.0.0.1'' (app_new default_config)"
  have "reach (\<lambda>a. a = app_new default_config) app_step ?a"
    by (rule reach.step, rule reach.init, rule refl, rule app_step.HandleLog)
  moreover have "sum_list (map snd (rs_syslog_messages_by_type (ap_stats ?a))) = 1" by code_simp
  ultimately show ?thesis using reachable_app_ok [of default_config ?a] by simp
qed

section \<open>One event per line\<close>

lemma last_n_push:
  "rb_wf b \<Longrightarrow> rb_items (rb_push x b) = last_n (rb_capacity b) (rb_items b @ [x])"
  by (simp add: rb_wf_def ring.contents_push)

text \<open>What every branch but the one for interfaces does: it adds an event made from \<open>event\<close> and persists it.\<close>

definition logs_event :: "Event \<Rightarrow> App \<Rightarrow> App \<Rightarrow> bool" where
  "logs_event event app app' \<longleftrightarrow>
     (\<exists>e t new. ev_id e = ev_id event \<and> ev_source e = ev_source event \<and> ev_fields e = ev_fields event
       \<and> st_events (ap_state app') = rb_push (e\<lparr>ev_ts := t\<rparr>) (st_events (ap_state app))
       \<and> ap_calls app' = ap_calls app @ new
       \<and> (ap_sqlite_enabled app \<longrightarrow> InsertEvent (preprocessEventForStorage e) \<in> set new))"

lemma branch_logs_event:
  assumes "ev_id event \<noteq> []"
  shows "logs_event event app (apply_netdev clk res event app)" "logs_event event app (apply_dhcp clk res event app)"
    "logs_event event app (apply_wifi clk res event app)" "logs_event event app (apply_nettraffic clk res event app)"
    "logs_event event app (apply_wan_attack clk res event app)" "logs_event event app (apply_wan clk res event app)"
    "logs_event event app (record_event clk event app)"
proof -
  have intro: "logs_event event app app'"
    if "ev_id e = ev_id event" "ev_source e = ev_source event" "ev_fields e = ev_fields event"
      "st_events (ap_state app') = rb_push (e\<lparr>ev_ts := t\<rparr>) (st_events (ap_state app))"
      "ap_calls app' = ap_calls app @ new" "ap_sqlite_enabled app \<Longrightarrow> InsertEvent (preprocessEventForStorage e) \<in> set new"
    for e t new app'
    using that unfolding logs_event_def by blast
  have report: "logs_event event app (device_report clk d e app)"
    if "ev_id e = ev_id event" "ev_source e = ev_source event" "ev_fields e = ev_fields event" for d e
    using assms that unfolding device_report_def call_defs
    by (intro intro [of e]) (auto simp: addEvent_known_id update_frame)
  show "logs_event event app (apply_netdev clk res event app)" "logs_event event app (apply_dhcp clk res event app)"
    "logs_event event app (apply_wifi clk res event app)"
    unfolding apply_netdev_def apply_dhcp_def apply_wifi_def Let_def by (intro report; simp)+
  show "logs_event event app (apply_nettraffic clk res event app)"
  proof (cases "has_counters res")
    case True
    with assms show ?thesis unfolding apply_nettraffic_def call_defs Let_def
      by (intro intro [of "event\<lparr>ev_type := ''traffic'', ev_message := ''Traffic snapshot''\<rparr>"
              _ "if ev_ts event = 0 then clk 3 else ev_ts event"])
         (auto simp: addEvent_known_id update_frame)
  next
    case False
    with assms show ?thesis unfolding apply_nettraffic_def call_defs Let_def
      by (intro intro [of "event\<lparr>ev_type := ''traffic'', ev_message := ''Traffic CSV snapshot''\<rparr>"
              _ "if ev_ts event = 0 then clk 3 else ev_ts event"])
         (auto simp: addEvent_known_id)
  qed
  show "logs_event event app (apply_wan_attack clk res event app)"
    using assms unfolding apply_wan_attack_def call_defs Let_def
    by (intro intro [of "event\<lparr>ev_severity := Critical, ev_message := ''WAN attack/firewall drop''\<rparr>"]) (auto simp: addEvent_known_id update_frame)
  have rec: "logs_event event app (record_event clk e app)"
    if "ev_id e = ev_id event" "ev_source e = ev_source event" "ev_fields e = ev_fields event" for e
    using assms that unfolding record_event_def call_defs
    by (intro intro [of e]) (auto simp: addEvent_known_id)
  then show "logs_event event app (apply_wan clk res event app)" "logs_event event app (record_event clk event app)"
    by (simp_all add: apply_wan_def)
qed

lemma handleLog_seq:
  "st_event_seq (ap_state (handleLog clk line peer app)) = st_event_seq (ap_state app) + 1"
  unfolding handleLog_def applyParseResult_def count_message_def branch_defs call_defs Let_def makeEvent_split
  by (simp add: addEvent_known_id(2) update_frame)

lemma handleLog_netiface:
  assumes "pr_type (parse line) = ''netiface''"
  shows "st_events (ap_state (handleLog clk line peer app)) = st_events (ap_state app)"
proof -
  have "pr_matched (parse line)"
    using assms by (cases rule: parse_cases [of line]) (simp_all add: no_result_def)
  then show ?thesis
    using assms
    by (simp add: handleLog_def applyParseResult_def count_message_def apply_netiface_def call_defs makeEvent_split
        update_frame Let_def)
qed

lemma applyParseResult_logs:
  assumes "pr_type res \<noteq> ''netiface''"
  shows "logs_event ((fst (makeEvent (clk 0) res peer (ap_state app)))\<lparr>ev_ts := tsFromFields (clk 1) res\<rparr>)
    (app\<lparr>ap_state := snd (nextEventId (ap_state app))\<rparr>) (applyParseResult clk res peer app)"
proof -
  define event where "event = (fst (makeEvent (clk 0) res peer (ap_state app)))\<lparr>ev_ts := tsFromFields (clk 1) res\<rparr>"
  define app1 where "app1 = app\<lparr>ap_state := snd (nextEventId (ap_state app))\<rparr>"
  have id: "ev_id event \<noteq> []" by (simp add: event_def)
  show ?thesis
    using assms
    unfolding applyParseResult_def Let_def makeEvent_split event_def [symmetric] app1_def [symmetric]
    by (simp add: branch_logs_event [OF id])
qed

lemma handleLog_logs:
  assumes "pr_type (parse line) \<noteq> ''netiface''"
  obtains event app1 where "logs_event event app1 (handleLog clk line peer app)"
    "ev_id event = ''evt-'' @ show_nat (unat (st_event_seq (ap_state app) + 1))" "ev_source event = peer"
    "ev_fields event = (if pr_matched (parse line) then pr_fields (parse line) else [(''raw'', line)])"
    "st_events (ap_state app1) = st_events (ap_state app)" "ap_calls app1 = ap_calls app"
    "ap_sqlite_enabled app1 = ap_sqlite_enabled app"
proof (cases "pr_matched (parse line)")
  case False
  then have "pr_fields (parse line) = []"
    by (cases rule: parse_cases [of line]) (simp_all add: no_result_def)
  define res where "res = (parse line)\<lparr>pr_type := ''raw'', pr_raw := line\<rparr>"
  define ev where "ev = fst (makeEvent (clk 0) res peer (ap_state app))"
  define event where "event = ev\<lparr>ev_source := peer, ev_message := line, ev_fields := dput ''raw'' line (ev_fields ev)\<rparr>"
  define app1 where "app1 = app\<lparr>ap_stats := recordParseError (recordSyslogMessage ''raw'' (ap_stats app)),
    ap_state := snd (nextEventId (ap_state app))\<rparr>"
  have "handleLog clk line peer app = record_event (clock_from 1 clk) event app1"
    using False by (simp add: handleLog_def count_message_def Let_def makeEvent_split event_def ev_def res_def app1_def)
  then show thesis
    using False \<open>pr_fields (parse line) = []\<close> branch_logs_event(7) [of event app1 "clock_from 1 clk"]
    by (intro that [of event app1]) (simp_all add: event_def ev_def res_def app1_def update_frame)
next
  case True
  define app1 where "app1 = (count_message (pr_type (parse line)) app)\<lparr>ap_state := snd (nextEventId (ap_state app))\<rparr>"
  define event where "event = (fst (makeEvent (clk 0) (parse line) peer (ap_state app)))
    \<lparr>ev_ts := tsFromFields (clk 1) (parse line)\<rparr>"
  have "logs_event event app1 (handleLog clk line peer app)"
    using True applyParseResult_logs [OF assms, of clk peer "count_message (pr_type (parse line)) app"]
    by (simp add: handleLog_def app1_def event_def count_message_def Let_def)
  then show thesis
    using True by (intro that [of event app1]) (simp_all add: event_def app1_def count_message_def update_frame)
qed

text \<open>
  C10: Every syslog line leaves exactly one event, with the next identifier, the address of its sender and
  the parsed fields (the raw text, if the line was not recognised), and the same event is written to
  the database when there is one. Interface counters alone leave no event, but use up an identifier.
\<close>

theorem handleLog_one_event:
  assumes "store_inv (ap_state app)"
  shows "st_event_seq (ap_state (handleLog clk line peer app)) = st_event_seq (ap_state app) + 1
    \<and> (if pr_type (parse line) = ''netiface''
       then rb_items (st_events (ap_state (handleLog clk line peer app))) = rb_items (st_events (ap_state app))
       else \<exists>e t new.
         rb_items (st_events (ap_state (handleLog clk line peer app)))
           = last_n (unat (max_events (st_config (ap_state app)))) (rb_items (st_events (ap_state app)) @ [e\<lparr>ev_ts := t\<rparr>])
         \<and> ev_id e = ''evt-'' @ show_nat (unat (st_event_seq (ap_state app) + 1)) \<and> ev_source e = peer
         \<and> ev_fields e = (if pr_matched (parse line) then pr_fields (parse line) else [(''raw'', line)])
         \<and> ap_calls (handleLog clk line peer app) = ap_calls app @ new
         \<and> (ap_sqlite_enabled app \<longrightarrow> InsertEvent (preprocessEventForStorage e) \<in> set new))"
proof (cases "pr_type (parse line) = ''netiface''")
  case True
  then show ?thesis by (simp add: handleLog_seq handleLog_netiface)
next
  case False
  obtain event app1 where
    l: "logs_event event app1 (handleLog clk line peer app)"
    "ev_id event = ''evt-'' @ show_nat (unat (st_event_seq (ap_state app) + 1))" "ev_source event = peer"
    "ev_fields event = (if pr_matched (parse line) then pr_fields (parse line) else [(''raw'', line)])"
    "st_events (ap_state app1) = st_events (ap_state app)" "ap_calls app1 = ap_calls app"
    "ap_sqlite_enabled app1 = ap_sqlite_enabled app"
    by (rule handleLog_logs [OF False])
  from l(1) obtain e t new where e: "ev_id e = ev_id event" "ev_source e = ev_source event" "ev_fields e = ev_fields event"
    "st_events (ap_state (handleLog clk line peer app)) = rb_push (e\<lparr>ev_ts := t\<rparr>) (st_events (ap_state app1))"
    "ap_calls (handleLog clk line peer app) = ap_calls app1 @ new"
    "ap_sqlite_enabled app1 \<longrightarrow> InsertEvent (preprocessEventForStorage e) \<in> set new"
    unfolding logs_event_def by blast
  have "rb_items (st_events (ap_state (handleLog clk line peer app)))
      = last_n (unat (max_events (st_config (ap_state app)))) (rb_items (st_events (ap_state app)) @ [e\<lparr>ev_ts := t\<rparr>])"
    using assms by (simp add: e(4) l(5) last_n_push store_inv_def buffers_ok_def)
  then show ?thesis
    using e l handleLog_seq unfolding if_not_P [OF False]
    by (intro conjI exI [of _ e] exI [of _ t] exI [of _ new]) simp_all
qed

theorem handleLog_one_event_witness:
  "map ev_id (rb_items (st_events (ap_state (handleLog (\<lambda>_. 5) ''hello'' ''10.0.0.1'' (app_new default_config)))))
   = [''evt-1'']"
proof -
  let ?app = "app_new default_config"
  have inv: "store_inv (ap_state ?app)" by (simp add: app_new_def store_inv_new)
  have "pr_type (parse ''hello'') \<noteq> ''netiface''" "rb_items (st_events (ap_state ?app)) = []"
    "''evt-'' @ show_nat (unat (st_event_seq (ap_state ?app) + 1)) = ''evt-1''"
    "0 < unat (max_events (st_config (ap_state ?app)))"
    by code_simp+
  then show ?thesis
    using handleLog_one_event [OF inv, of "\<lambda>_. 5" "''hello''" "''10.0.0.1''"] by (auto simp: last_n_all)
qed

section \<open>A Wi-Fi client that disconnects\<close>

lemma wifi_disconnect_online:
  assumes inv: "store_inv s" and res: "fieldOr res ''mac'' [] = m" "informative m" "lower m = m"
    and gone: "fieldOr res ''event'' [] = ''wifi_disconnected''"
    and time: "valid_time t" "t \<noteq> 0" "0 \<le> device_online_ttl_seconds (st_config s)"
      "0 \<le> device_idle_ttl_seconds (st_config s)"
    and old: "\<And>d. dget (st_devices s) (mac_key m) = Some d \<Longrightarrow>
      dv_last_seen d \<le> t \<and> \<not> isFailedNeighbour (dv_neigh_state d)"
  shows "\<exists>d. dget (st_devices (updateDevice clk (wifi_device res t) s)) (mac_key m) = Some d \<and> dv_status d = Offline
    \<and> (\<exists>listed \<in> set (devices t (updateDevice clk (wifi_device res t) s)). dv_mac listed = m \<and> dv_status listed = Online)"
proof -
  let ?w = "wifi_device res t"
  define current where "current = mergeDeviceLocked (st_config s) (dget_or (st_devices s) (mac_key m) new_device) ?w (clk 0)"
  have w: "dv_mac ?w = m" "dv_ip ?w = []" "dv_status ?w = Offline" "dv_source ?w = ''wifi''" "dv_last_seen ?w = t"
    "dv_neigh_state ?w = []"
    using res gone by (simp_all add: wifi_device_def new_device_def)
  have m: "m \<noteq> []" using res(2) by (rule informative_nonempty)
  then have key: "deviceKey s m [] = mac_key m"
    using res(3) by (simp add: deviceKey_def findKeyLocked_def find_by_ip_def makeKey_def Let_def)
  have "resolveDevice ?w s = (s, mac_key m)"
    by (simp add: resolveDevice_def w key prefix_ip_iff Let_def)
  then have upd: "updateDevice clk ?w s = touchLastLogLocked (clk 1) (dv_last_seen current) (storeDevice (mac_key m) current s)"
    by (simp add: updateDevice_def w key current_def Let_def)
  have cur: "dv_status current = Offline" "dv_mac current = m" "dv_source current = ''wifi''" "dv_last_seen current = t"
    "\<not> isFailedNeighbour (dv_neigh_state current)"
    using old time res w by (auto simp: current_def mergeDeviceLocked_def Let_def setIfNotEmpty_def informative_def
        dget_or_def new_device_def isFailedNeighbour_def upper_def split: option.splits)
  then have "statusFor (st_config s) current t = Online"
    using time by (simp add: statusFor_def seconds_def ns_per_s_def)
  moreover have "(mac_key m, current) \<in> set (dput (mac_key m) current (st_devices s))"
    by (rule map_of_SomeD) (simp add: dict_simps)
  ultimately have "current\<lparr>dv_status := Online\<rparr> \<in> set (devices t (updateDevice clk ?w s))"
    by (force simp: devices_def upd)
  then show ?thesis
    using cur by (intro exI [of _ current] conjI bexI [of _ "current\<lparr>dv_status := Online\<rparr>"]) (simp_all add: upd dict_simps)
qed

lemma devices_cong:
  "st_devices s = st_devices s' \<Longrightarrow> st_config s = st_config s' \<Longrightarrow> devices t s = devices t s'"
  by (simp add: devices_def)

lemma event_frame: "st_devices (addEvent clk e s) = st_devices s" "st_devices (snd (nextEventId s)) = st_devices s"
  by (auto simp: addEvent_def pushEventLocked_def nextEventId_def Let_def split: prod.split)

text \<open>
  C40: The report that a Wi-Fi client disconnected stores the status offline, but the status shown by
  \<open>devices()\<close> is computed from the age of the record alone: at the time of the disconnect the client is listed
  as online (unless its neighbour entry has failed).
\<close>

theorem wifi_disconnect_listed_online:
  assumes inv: "store_inv (ap_state app)"
    and line: "pr_type (parse line) = ''wifi''" "fieldOr (parse line) ''event'' [] = ''wifi_disconnected''"
    and mac: "fieldOr (parse line) ''mac'' [] = m" "informative m" "lower m = m"
    and time: "t = tsFromFields (clk 1) (parse line)" "valid_time t" "t \<noteq> 0"
      "0 \<le> device_online_ttl_seconds (st_config (ap_state app))" "0 \<le> device_idle_ttl_seconds (st_config (ap_state app))"
    and old: "\<And>d. dget (st_devices (ap_state app)) (mac_key m) = Some d \<Longrightarrow>
      dv_last_seen d \<le> t \<and> \<not> isFailedNeighbour (dv_neigh_state d)"
  shows "\<exists>d. dget (st_devices (ap_state (handleLog clk line peer app))) (mac_key m) = Some d \<and> dv_status d = Offline
    \<and> (\<exists>listed \<in> set (devices t (ap_state (handleLog clk line peer app))). dv_mac listed = m \<and> dv_status listed = Online)"
proof -
  define s where "s = snd (nextEventId (ap_state app))"
  define s1 where "s1 = updateDevice (clock_from 2 clk) (wifi_device (parse line) t) s"
  have "pr_matched (parse line)"
    using line(1) by (cases rule: parse_cases [of line]) (simp_all add: no_result_def)
  then have "st_devices (ap_state (handleLog clk line peer app)) = st_devices s1"
    "st_config (ap_state (handleLog clk line peer app)) = st_config s1"
    using line(1)
    by (simp_all add: handleLog_def applyParseResult_def count_message_def apply_wifi_def device_report_def call_defs
        makeEvent_split Let_def event_frame update_frame s1_def s_def time(1))
  moreover have "\<exists>d. dget (st_devices s1) (mac_key m) = Some d \<and> dv_status d = Offline
      \<and> (\<exists>listed \<in> set (devices t s1). dv_mac listed = m \<and> dv_status listed = Online)"
    unfolding s1_def using mac line(2) time(2-5) old store_inv_nextEventId [OF inv]
    by (intro wifi_disconnect_online) (simp_all add: s_def event_frame update_frame)
  ultimately show ?thesis
    using devices_cong [of "ap_state (handleLog clk line peer app)" s1 t] by simp
qed

theorem wifi_disconnect_listed_online_witness:
  "\<exists>listed \<in> set (devices 9 (ap_state (handleLog (\<lambda>_. 9) ''hostapd: AP-STA-DISCONNECTED aa:bb:cc:dd:ee:ff'' ''10.0.0.1''
     (app_new default_config)))). dv_status listed = Online"
proof -
  let ?line = "''hostapd: AP-STA-DISCONNECTED aa:bb:cc:dd:ee:ff''" and ?m = "''aa:bb:cc:dd:ee:ff''"
  have inv: "store_inv (ap_state (app_new default_config))" by (simp add: app_new_def store_inv_new)
  have "pr_type (parse ?line) = ''wifi''" "fieldOr (parse ?line) ''event'' [] = ''wifi_disconnected''"
    "fieldOr (parse ?line) ''mac'' [] = ?m" "informative ?m" "lower ?m = ?m" "tsFromFields 9 (parse ?line) = 9"
    "dget (st_devices (ap_state (app_new default_config))) (mac_key ?m) = None"
    "0 \<le> device_online_ttl_seconds (st_config (ap_state (app_new default_config)))"
    "0 \<le> device_idle_ttl_seconds (st_config (ap_state (app_new default_config)))"
    by code_simp+
  then show ?thesis
    using wifi_disconnect_listed_online [OF inv, of ?line ?m 9 "\<lambda>_. 9" "''10.0.0.1''"]
    by (auto simp: valid_time_def)
qed

section \<open>Memory mode\<close>

definition is_broadcast :: "call \<Rightarrow> bool" where
  "is_broadcast c = (case c of Broadcast _ \<Rightarrow> True | _ \<Rightarrow> False)"

text \<open>
  Without the database no line and no cleanup round calls it: the only calls are broadcasts to the web
  clients, and earlier calls are never changed.
\<close>

theorem memory_mode_only_broadcasts:
  assumes "\<not> ap_sqlite_enabled app"
  shows "(\<exists>new. ap_calls (handleLog clk line peer app) = ap_calls app @ new \<and> list_all is_broadcast new)
    \<and> (\<exists>new. ap_calls (cleanup_round clk app) = ap_calls app @ new \<and> list_all is_broadcast new)"
proof
  show "\<exists>new. ap_calls (handleLog clk line peer app) = ap_calls app @ new \<and> list_all is_broadcast new"
    using assms
    unfolding handleLog_def applyParseResult_def count_message_def branch_defs call_defs Let_def makeEvent_split
    by (simp add: is_broadcast_def)
  show "\<exists>new. ap_calls (cleanup_round clk app) = ap_calls app @ new \<and> list_all is_broadcast new"
    using assms
    by (simp add: cleanup_round_def call_defs persistRecentEvents_def is_broadcast_def)
qed

theorem memory_mode_only_broadcasts_witness:
  "length (filter (\<lambda>c. \<not> is_broadcast c) (ap_calls (handleLog (\<lambda>_. 5) ''hello'' ''10.0.0.1'' (app_new default_config)))) = 0"
proof -
  have "\<not> ap_sqlite_enabled (app_new default_config)" "ap_calls (app_new default_config) = []" by code_simp+
  then show ?thesis
    using memory_mode_only_broadcasts [of "app_new default_config" "\<lambda>_. 5" "''hello''" "''10.0.0.1''"]
    by (auto simp: list_all_iff)
qed

end
