(* ===== verification/Net_Utils.thy ===== *)
theory Net_Utils
  imports Netmon_Utils
begin

text \<open>
  \<^verbatim>\<open>src/src/net_utils.cpp\<close>: listening addresses and the list of trusted routers.
\<close>

record Address =
  ad_host :: string
  ad_port :: u16

text \<open>\<^verbatim>\<open>text.rfind(':')\<close>: the text before and after the last colon.\<close>

definition split_last :: "char \<Rightarrow> string \<Rightarrow> (string \<times> string) option" where
  "split_last d s =
     (case find_char d (rev s) of
        None \<Rightarrow> None
      | Some i \<Rightarrow> let pos = length s - Suc i in Some (take pos s, drop (Suc pos) s))"

definition parseAddress :: "string \<Rightarrow> Address option" where
  "parseAddress value =
     (case split_last (CHR '':'') (trim value) of
        None \<Rightarrow> None
      | Some (host, port_text) \<Rightarrow>
          let host' = (if host = [] then ''0.0.0.0'' else host)
          in case from_chars_int port_text of
               (ec, rest, port) \<Rightarrow>
                 if ec \<noteq> NoError \<or> rest \<noteq> [] \<or> port \<le> 0 \<or> 65535 < port then None
                 else Some \<lparr>ad_host = host', ad_port = of_int port\<rparr>)"

definition isTrustedPeer :: "string list \<Rightarrow> string \<Rightarrow> bool" where
  "isTrustedPeer trusted_ips peer_ip =
     (trusted_ips = [] \<or> list_ex (\<lambda>trusted. trim trusted = trim peer_ip) trusted_ips)"

section \<open>Properties\<close>

lemma split_last_append: "d \<notin> set b \<Longrightarrow> split_last d (a @ d # b) = Some (a, b)"
  by (simp add: split_last_def find_char_append)

lemma split_last_Some: "split_last d s = Some (a, b) \<Longrightarrow> s = a @ d # b \<and> d \<notin> set b"
proof -
  assume "split_last d s = Some (a, b)"
  then obtain i where i: "find_char d (rev s) = Some i"
    and ab: "a = take (length s - Suc i) s" "b = drop (Suc (length s - Suc i)) s"
    by (auto simp: split_last_def Let_def split: option.splits)
  note r = find_char_Some [OF i]
  have "i < length s" using find_char_bound [OF i] by simp
  have "s = rev (drop (Suc i) (rev s)) @ d # rev (take i (rev s))"
    using arg_cong [OF conjunct2 [OF r], of rev] by simp
  also have "\<dots> = a @ d # b"
    using \<open>i < length s\<close> by (simp add: ab rev_drop rev_take Suc_diff_Suc)
  finally have s: "s = a @ d # b" .
  have "b = rev (take i (rev s))"
    using \<open>i < length s\<close> by (simp add: ab rev_take Suc_diff_Suc)
  with s conjunct1 [OF r] show ?thesis by simp
qed

lemma from_chars_int_show:
  "n < 2 ^ 31 \<Longrightarrow> from_chars_int (show_nat n) = (NoError, [], int n)"
proof -
  assume n: "n < 2 ^ 31"
  obtain c cs where s: "show_nat n = c # cs" using show_nat_nonempty [of n] by (cases "show_nat n") auto
  have d: "list_all isdigit (show_nat n)" by (rule show_nat_digits)
  then have "c \<noteq> CHR ''-''" "isdigit c" "takeWhile isdigit cs = cs" "dropWhile isdigit cs = []"
    by (auto simp: s isdigit_def list_all_iff)
  moreover have "nat_of_digits (c # cs) = n" using nat_of_digits_show [of n] by (simp add: s)
  ultimately show ?thesis
    using n by (simp add: from_chars_int_def Let_def s takeWhile_eq_all_conv [THEN iffD2])
qed

text \<open>
  An address written as host and port is read back exactly, for every host without surrounding
  white space and every port from 1 to 65535; an empty host means all interfaces.
\<close>

theorem parseAddress_render:
  assumes "0 < port" and "host = [] \<or> \<not> isspace (hd host)"
  shows "parseAddress (host @ CHR '':'' # show_nat (unat port)) =
    Some \<lparr>ad_host = (if host = [] then ''0.0.0.0'' else host), ad_port = port\<rparr>"
proof -
  let ?p = "show_nat (unat port)"
  let ?s = "host @ CHR '':'' # ?p"
  have digits: "list_all isdigit ?p" by (rule show_nat_digits)
  have "\<not> isspace (last ?p)"
    using digits last_in_set [OF show_nat_nonempty] isdigit_not_space by (auto simp: list_all_iff)
  then have trim: "trim ?s = ?s"
    using assms(2) by (intro trim_id) (cases host; auto simp: isspace_def)+
  have "CHR '':'' \<notin> set ?p" using digits by (auto simp: list_all_iff isdigit_def)
  then have split: "split_last (CHR '':'') ?s = Some (host, ?p)" by (rule split_last_append)
  have "unat port < 2 ^ LENGTH(16)" by (rule unsigned_less)
  then have bounds: "unat port < 2 ^ 31" "int (unat port) \<le> 65535" by (simp_all del: of_nat_unat)
  have "0 < unat port" using assms(1) by (simp add: word_less_nat_alt)
  then show ?thesis
    using bounds by (simp add: parseAddress_def trim split from_chars_int_show Let_def del: of_nat_unat) simp
qed

theorem parseAddress_render_witness:
  "parseAddress (''127.0.0.1'' @ CHR '':'' # show_nat (unat (8080 :: u16))) =
     Some \<lparr>ad_host = ''127.0.0.1'', ad_port = 8080\<rparr>"
  using parseAddress_render [of 8080 "''127.0.0.1''"] by (simp add: isspace_def)

text \<open>
  With a list of trusted routers, a peer is accepted exactly when its address is on the list, up to
  surrounding white space; an empty list accepts every peer.
\<close>

theorem isTrustedPeer_iff:
  "isTrustedPeer trusted peer \<longleftrightarrow> trusted = [] \<or> trim peer \<in> trim ` set trusted"
  by (simp add: isTrustedPeer_def list_ex_iff image_iff) metis

end
