(* ===== verification/Syslog_Server.thy ===== *)
theory Syslog_Server
  imports Net_Utils Netmon_Config
begin

text \<open>
  \<^verbatim>\<open>src/src/syslog_server.cpp\<close>: which lines reach the handler. Sockets and threads are outside the
  model; what the sockets deliver is the input: for UDP the datagrams with their senders, for a TCP
  connection the results of \<^verbatim>\<open>recv\<close>.
\<close>

definition shouldAccept :: "Config \<Rightarrow> string \<Rightarrow> bool" where
  "shouldAccept config peer_ip = isTrustedPeer (trusted_router_ips config) peer_ip"

text \<open>The line that \<^verbatim>\<open>deliver\<close> hands to the handler, if any.\<close>

definition deliver :: "Config \<Rightarrow> string \<Rightarrow> string option" where
  "deliver config line =
     (case boundedLine line (unat (max_syslog_line_length config)) of
        None \<Rightarrow> None
      | Some bounded \<Rightarrow> if bounded = [] then None else Some bounded)"

section \<open>UDP\<close>

text \<open>
  One iteration of the receive loop on a datagram: the buffer has one byte more than the longest
  line, and \<^verbatim>\<open>recvfrom\<close> cuts a longer datagram off.
\<close>

definition udp_receive :: "Config \<Rightarrow> string \<times> string \<Rightarrow> (string \<times> string) option" where
  "udp_receive config datagram =
     (case datagram of (payload, ip) \<Rightarrow>
        let received = take (unat (max_syslog_line_length config + 1)) payload
        in if received = [] then None
           else if \<not> shouldAccept config ip then None
           else map_option (\<lambda>line. (line, ip)) (deliver config received))"

definition runUdp :: "Config \<Rightarrow> (string \<times> string) list \<Rightarrow> (string \<times> string) list" where
  "runUdp config datagrams = List.map_filter (udp_receive config) datagrams"

section \<open>TCP\<close>

datatype recv_result = Received string | Closed | Retry | Failed

text \<open>The inner loop: cut complete lines off the pending text.\<close>

function drain :: "string \<Rightarrow> string list \<times> string" where
  "drain pending =
     (case find_char (CHR 0x0A) pending of
        None \<Rightarrow> ([], pending)
      | Some newline \<Rightarrow>
          let (ls, rest) = drain (drop (Suc newline) pending) in (take newline pending # ls, rest))"
  by pat_completeness auto
termination drain
  by (relation "measure length") (auto dest: find_char_bound)

declare drain.simps [simp del]

text \<open>
  The receive loop: the lines it cuts off and the text that is pending when it ends, because the
  peer closed the connection, the read failed, or the server stopped (the end of the list).
\<close>

fun tcp_loop :: "nat \<Rightarrow> string \<Rightarrow> recv_result list \<Rightarrow> string list \<times> string" where
  "tcp_loop max_length pending [] = ([], pending)"
| "tcp_loop max_length pending (Closed # rs) = ([], pending)"
| "tcp_loop max_length pending (Failed # rs) = ([], pending)"
| "tcp_loop max_length pending (Retry # rs) = tcp_loop max_length pending rs"
| "tcp_loop max_length pending (Received data # rs) =
     (let (ls, rest) = drain (pending @ data);
          (more, p) = tcp_loop max_length (if max_length < length rest then [] else rest) rs
      in (ls @ more, p))"

definition tcp_lines :: "nat \<Rightarrow> recv_result list \<Rightarrow> string list" where
  "tcp_lines max_length rs =
     (let (ls, pending) = tcp_loop max_length [] rs in if pending \<noteq> [] then ls @ [pending] else ls)"

definition handleTcpClient :: "Config \<Rightarrow> recv_result list \<Rightarrow> string list" where
  "handleTcpClient config rs =
     List.map_filter (deliver config) (tcp_lines (unat (max_syslog_line_length config)) rs)"

text \<open>A connection is served only if its peer is trusted.\<close>

definition runTcp :: "Config \<Rightarrow> (recv_result list \<times> string) list \<Rightarrow> (string \<times> string) list" where
  "runTcp config connections =
     concat (map (\<lambda>(rs, ip). if shouldAccept config ip then map (\<lambda>line. (line, ip)) (handleTcpClient config rs) else [])
       connections)"

section \<open>Lines\<close>

lemma drain_eq: "drain s = (butlast (split s (CHR 0x0A)), last (split s (CHR 0x0A)))"
proof (induction s rule: drain.induct)
  case (1 s)
  then show ?case
    by (cases "find_char (CHR 0x0A) s") (simp_all add: drain.simps [of s] split.simps [of s])
qed

lemma split_append_general:
  "split (a @ b) d = butlast (split a d) @ split (last (split a d) @ b) d"
proof (induction a d rule: split.induct)
  case (1 a d)
  show ?case
  proof (cases "find_char d a")
    case None
    then show ?thesis by (simp add: split.simps [of a])
  next
    case (Some i)
    note a = find_char_Some [OF Some]
    have "a @ b = take i a @ d # (drop (Suc i) a @ b)" using a by (metis append.assoc append_Cons)
    then have "split (a @ b) d = take i a # split (drop (Suc i) a @ b) d"
      using a by (metis split_append)
    then show ?thesis using 1 [OF Some] Some by (simp add: split.simps [of a])
  qed
qed

lemma split_free_prefix: "d \<notin> set q \<Longrightarrow> \<exists>l ls. split (q @ b) d = (q @ l) # ls"
proof (cases "find_char d b")
  case None
  moreover assume "d \<notin> set q"
  ultimately show ?thesis by (simp add: find_char_None split_free)
next
  case (Some i)
  note b = find_char_Some [OF Some]
  moreover assume "d \<notin> set q"
  ultimately have "split ((q @ take i b) @ d # drop (Suc i) b) d = (q @ take i b) # split (drop (Suc i) b) d"
    by (intro split_append) simp
  then show ?thesis using b by (metis append.assoc)
qed

text \<open>
  The loop does not depend on how the stream is cut into reads, as long as no line is too long: then
  nothing is ever dropped.
\<close>

lemma tcp_loop_chunks:
  assumes "list_all (\<lambda>l. length l \<le> n) (split (p @ concat cs) (CHR 0x0A))" "CHR 0x0A \<notin> set p"
  shows "tcp_loop n p (map Received cs @ Closed # rs) =
    (butlast (split (p @ concat cs) (CHR 0x0A)), last (split (p @ concat cs) (CHR 0x0A)))"
  using assms
proof (induction cs arbitrary: p)
  case Nil
  then show ?case by (simp add: split_free)
next
  case (Cons c cs)
  define q where "q = last (split (p @ c) (CHR 0x0A))"
  have split: "split (p @ c @ concat cs) (CHR 0x0A) = butlast (split (p @ c) (CHR 0x0A)) @ split (q @ concat cs) (CHR 0x0A)"
    using split_append_general [of "p @ c" "concat cs"] by (simp add: q_def)
  have free: "CHR 0x0A \<notin> set q" unfolding q_def by (rule split_parts_free [of _ "p @ c"]) simp
  then have "length q \<le> n"
  proof -
    obtain l ls where l: "split (q @ concat cs) (CHR 0x0A) = (q @ l) # ls"
      using split_free_prefix [OF free] by blast
    have "length (q @ l) \<le> n" using Cons.prems(1) by (simp add: split list_all_append l)
    then show ?thesis by simp
  qed
  then show ?case
    using Cons.IH [of q] Cons.prems(1) free
    by (simp add: drain_eq split list_all_append q_def [symmetric] butlast_append)
qed

text \<open>
  C25: How a TCP stream is cut into reads does not matter: if no line of the stream is longer than the limit,
  the lines cut off are exactly the newline-separated parts of the stream, the last one only if it is
  not empty, whatever the sizes of the reads.
\<close>

theorem tcp_lines_chunking:
  assumes "list_all (\<lambda>l. length l \<le> n) (split (concat cs) (CHR 0x0A))"
  shows "tcp_lines n (map Received cs @ [Closed]) =
    (let parts = split (concat cs) (CHR 0x0A) in if last parts = [] then butlast parts else parts)"
proof -
  have "tcp_loop n [] (map Received cs @ [Closed])
      = (butlast (split (concat cs) (CHR 0x0A)), last (split (concat cs) (CHR 0x0A)))"
    using tcp_loop_chunks [of n "[]" cs "[]"] assms by simp
  then show ?thesis by (simp add: tcp_lines_def Let_def)
qed

theorem tcp_lines_chunking_witness:
  "tcp_lines 10 (map Received [''ab'', ''c'' @ [CHR 0x0A], ''de'' @ [CHR 0x0A] @ ''f''] @ [Closed]) = [''abc'', ''de'', ''f'']"
proof -
  let ?cs = "[''ab'', ''c'' @ [CHR 0x0A], ''de'' @ [CHR 0x0A] @ ''f'']"
  have "split (concat ?cs) (CHR 0x0A) = [''abc'', ''de'', ''f'']" by code_simp
  then show ?thesis using tcp_lines_chunking [of 10 ?cs] by simp
qed

text \<open>
  A line longer than the limit is not always dropped as a whole: when a read ends inside it after more
  than the limit, what was received so far is forgotten and the tail of the line is handed on as if it
  were a line of its own; when the line arrives in one read it is dropped.
\<close>

theorem tcp_overlong_line_tail:
  assumes "n < length a" "CHR 0x0A \<notin> set a" "CHR 0x0A \<notin> set b"
  shows "tcp_lines n [Received a, Received (b @ [CHR 0x0A]), Closed] = [b]
    \<and> tcp_lines n [Received (a @ b @ [CHR 0x0A]), Closed] = [a @ b]
    \<and> boundedLine (a @ b) n = None"
proof -
  have "split (b @ [CHR 0x0A]) (CHR 0x0A) = [b, []]" "split a (CHR 0x0A) = [a]"
    "split ((a @ b) @ [CHR 0x0A]) (CHR 0x0A) = [a @ b, []]"
    using assms by (simp_all add: split_append split_free del: append_assoc)
  then show ?thesis using assms by (simp add: tcp_lines_def drain_eq boundedLine_def)
qed

theorem tcp_overlong_line_tail_witness:
  "tcp_lines 4 [Received ''aaaaaa'', Received (''bb'' @ [CHR 0x0A]), Closed] = [''bb'']"
  using tcp_overlong_line_tail [of 4 "''aaaaaa''" "''bb''"] by simp

section \<open>What reaches the handler\<close>

lemma deliver_Some:
  assumes "deliver config line = Some out"
  shows "out \<noteq> []" "length out \<le> unat (max_syslog_line_length config)" "prefix out line"
    "last out \<notin> {CHR 0x0A, CHR 0x0D, CHR 0x00}"
proof -
  have b: "boundedLine line (unat (max_syslog_line_length config)) = Some out" and "out \<noteq> []"
    using assms by (auto simp: deliver_def split: option.splits if_splits)
  note boundedLine_Some [OF b]
  then show "out \<noteq> []" "length out \<le> unat (max_syslog_line_length config)" "prefix out line"
    "last out \<notin> {CHR 0x0A, CHR 0x0D, CHR 0x00}"
    using \<open>out \<noteq> []\<close> by simp_all
qed

lemma map_filter_mem: "y \<in> set (List.map_filter f xs) \<longleftrightarrow> (\<exists>x \<in> set xs. f x = Some y)"
  by (auto simp: List.map_filter_def image_iff)

text \<open>
  C26: Every line that reaches the handler, over UDP or TCP, comes from a trusted sender, is not empty, is
  not longer than the configured limit and does not end in a line terminator or null character.
\<close>

theorem handler_input_ok:
  assumes "(line, ip) \<in> set (runUdp config datagrams) \<union> set (runTcp config connections)"
  shows "shouldAccept config ip \<and> line \<noteq> [] \<and> length line \<le> unat (max_syslog_line_length config)
    \<and> last line \<notin> {CHR 0x0A, CHR 0x0D, CHR 0x00}"
proof -
  obtain raw where "deliver config raw = Some line" "shouldAccept config ip"
    using assms
    by (auto simp: runUdp_def udp_receive_def runTcp_def handleTcpClient_def map_filter_mem Let_def split: if_splits)
  then show ?thesis using deliver_Some by blast
qed

theorem handler_input_ok_witness:
  "shouldAccept default_config ''10.0.0.1'' \<and> ''hi'' \<noteq> []"
proof -
  have "runUdp default_config [(''hi'', ''10.0.0.1'')] = [(''hi'', ''10.0.0.1'')]" by code_simp
  then show ?thesis
    using handler_input_ok [of "''hi''" "''10.0.0.1''" default_config "[(''hi'', ''10.0.0.1'')]" "[]"] by simp
qed

text \<open>
  A datagram is handed on, without its trailing line terminators, exactly when its sender is trusted, it
  is not longer than the limit and something is left of it; a longer one is dropped and never cut.
\<close>

theorem udp_receive_iff:
  assumes "max_syslog_line_length config + 1 \<noteq> 0"
  shows "udp_receive config (payload, ip) =
    (let body = rev (dropWhile (\<lambda>c. c = CHR 0x0A \<or> c = CHR 0x0D \<or> c = CHR 0x00) (rev payload))
     in if shouldAccept config ip \<and> length payload \<le> unat (max_syslog_line_length config) \<and> body \<noteq> []
        then Some (body, ip) else None)"
proof -
  have "unat (max_syslog_line_length config) < 2 ^ LENGTH(64)" by (rule unsigned_less)
  moreover have "unat (max_syslog_line_length config + 1) \<noteq> 0" using assms by (simp add: unat_eq_0)
  ultimately have n: "unat (max_syslog_line_length config + 1) = unat (max_syslog_line_length config) + 1"
    using unat_plus_if' [of "max_syslog_line_length config" 1] by (auto split: if_splits)
  show ?thesis
  proof (cases "length payload \<le> unat (max_syslog_line_length config)")
    case True
    then show ?thesis by (simp add: udp_receive_def n deliver_def boundedLine_def Let_def)
  next
    case False
    then show ?thesis by (simp add: udp_receive_def n deliver_def boundedLine_def Let_def)
  qed
qed

theorem udp_receive_iff_witness:
  "udp_receive default_config (''hi'' @ [CHR 0x0A], ''10.0.0.1'') = Some (''hi'', ''10.0.0.1'')"
proof -
  have "max_syslog_line_length default_config + 1 \<noteq> 0" "shouldAccept default_config ''10.0.0.1''"
    "length (''hi'' @ [CHR 0x0A]) \<le> unat (max_syslog_line_length default_config)"
    by code_simp+
  then show ?thesis
    using udp_receive_iff [of default_config "''hi'' @ [CHR 0x0A]" "''10.0.0.1''"] by simp
qed

end
