(* ===== verification/Web_Socket.thy ===== *)
theory Web_Socket
  imports Netmon_Utils
begin

text \<open>
  The WebSocket side of \<^verbatim>\<open>src/src/web_server.cpp\<close>: SHA-1, Base64 and the accept key of the opening
  handshake, and the frame of a text message.
\<close>

unbundle bit_operations_syntax

type_synonym u8 = "8 word"
type_synonym u32 = "32 word"

definition byte_of_char :: "char \<Rightarrow> u8" where
  "byte_of_char c = of_nat (code c)"

section \<open>SHA-1\<close>

definition rol :: "u32 \<Rightarrow> nat \<Rightarrow> u32" where
  "rol value bits = push_bit bits value OR drop_bit (32 - bits) value"

text \<open>Zero bytes up to eight bytes before a multiple of 64.\<close>

function pad_zeros :: "u8 list \<Rightarrow> u8 list" where
  "pad_zeros message = (if length message mod 64 \<noteq> 56 then pad_zeros (message @ [0]) else message)"
  by pat_completeness auto
termination pad_zeros
proof (relation "measure (\<lambda>message. (120 - length message mod 64) mod 64)")
  fix message :: "u8 list"
  assume "length message mod 64 \<noteq> 56"
  moreover have "\<forall>r\<in>set [0..<64]. r \<noteq> 56 \<longrightarrow> (120 - Suc r mod 64) mod 64 < (120 - r) mod (64 :: nat)" by code_simp
  moreover have "length message mod 64 \<in> set [0..<64]" by simp
  ultimately have "(120 - Suc (length message mod 64) mod 64) mod 64 < (120 - length message mod 64) mod 64" by blast
  then show "(message @ [0], message) \<in> measure (\<lambda>message. (120 - length message mod 64) mod 64)"
    by (simp add: mod_Suc_eq)
qed simp

declare pad_zeros.simps [simp del]

definition byte_at :: "nat \<Rightarrow> u64 \<Rightarrow> u8" where
  "byte_at i bit_len = ucast (drop_bit (i * 8) bit_len AND 0xff)"

definition sha1_message :: "string \<Rightarrow> u8 list" where
  "sha1_message input =
     (let message = map byte_of_char input; bit_len = of_nat (length message) * 8
      in pad_zeros (message @ [0x80]) @ map (\<lambda>i. byte_at i bit_len) [7, 6, 5, 4, 3, 2, 1, 0])"

definition be_word :: "u8 list \<Rightarrow> nat \<Rightarrow> u32" where
  "be_word message j =
     push_bit 24 (ucast (message ! j)) OR push_bit 16 (ucast (message ! (j + 1))) OR
     push_bit 8 (ucast (message ! (j + 2))) OR ucast (message ! (j + 3))"

definition sha1_schedule :: "u8 list \<Rightarrow> nat \<Rightarrow> u32 list" where
  "sha1_schedule message chunk =
     foldl (\<lambda>w i. w @ [rol (w ! (i - 3) XOR w ! (i - 8) XOR w ! (i - 14) XOR w ! (i - 16)) 1])
       (map (\<lambda>i. be_word message (chunk + i * 4)) [0..<16]) [16..<80]"

type_synonym sha1_state = "u32 \<times> u32 \<times> u32 \<times> u32 \<times> u32"

definition sha1_round :: "u32 list \<Rightarrow> sha1_state \<Rightarrow> nat \<Rightarrow> sha1_state" where
  "sha1_round w s i =
     (case s of (a, b, c, d, e) \<Rightarrow>
        let (f, k) = (if i < 20 then ((b AND c) OR (NOT b AND d), 0x5A827999)
                      else if i < 40 then (b XOR c XOR d, 0x6ED9EBA1)
                      else if i < 60 then ((b AND c) OR (b AND d) OR (c AND d), 0x8F1BBCDC)
                      else (b XOR c XOR d, 0xCA62C1D6));
            temp = rol a 5 + f + e + k + w ! i
        in (temp, a, rol b 30, c, d))"

definition sha1_chunk :: "u8 list \<Rightarrow> sha1_state \<Rightarrow> nat \<Rightarrow> sha1_state" where
  "sha1_chunk message h chunk =
     (case (h, foldl (sha1_round (sha1_schedule message chunk)) h [0..<80]) of
        ((h0, h1, h2, h3, h4), (a, b, c, d, e)) \<Rightarrow> (h0 + a, h1 + b, h2 + c, h3 + d, h4 + e))"

definition sha1_init :: sha1_state where
  "sha1_init = (0x67452301, 0xEFCDAB89, 0x98BADCFE, 0x10325476, 0xC3D2E1F0)"

definition word_bytes :: "u32 \<Rightarrow> u8 list" where
  "word_bytes w = [ucast (drop_bit 24 w AND 0xff), ucast (drop_bit 16 w AND 0xff), ucast (drop_bit 8 w AND 0xff), ucast (w AND 0xff)]"

definition sha1 :: "string \<Rightarrow> u8 list" where
  "sha1 input =
     (let message = sha1_message input;
          chunks = map (\<lambda>i. i * 64) [0..<(length message + 63) div 64]
      in case foldl (sha1_chunk message) sha1_init chunks of
           (h0, h1, h2, h3, h4) \<Rightarrow> concat (map word_bytes [h0, h1, h2, h3, h4]))"

section \<open>Base64 and the accept key\<close>

definition b64_table :: string where
  "b64_table = ''ABCDEFGHIJKLMNOPQRSTUVWXYZabcdefghijklmnopqrstuvwxyz0123456789+/''"

definition b64_char :: "u32 \<Rightarrow> char" where
  "b64_char n = b64_table ! unat (n AND 0x3f)"

definition b64_group :: "u8 list \<Rightarrow> nat \<Rightarrow> string" where
  "b64_group data i =
     (let size = length data;
          octet_a = ucast (data ! i);
          octet_b = (if i + 1 < size then ucast (data ! (i + 1)) else 0);
          octet_c = (if i + 2 < size then ucast (data ! (i + 2)) else 0);
          triple = push_bit 16 octet_a OR push_bit 8 octet_b OR octet_c
      in [b64_char (drop_bit 18 triple), b64_char (drop_bit 12 triple),
          if i + 1 < size then b64_char (drop_bit 6 triple) else CHR ''='',
          if i + 2 < size then b64_char triple else CHR ''=''])"

function b64_loop :: "u8 list \<Rightarrow> nat \<Rightarrow> string" where
  "b64_loop data i = (if i < length data then b64_group data i @ b64_loop data (i + 3) else [])"
  by pat_completeness auto
termination b64_loop
  by (relation "measure (\<lambda>(data, i). length data - i)") auto

declare b64_loop.simps [simp del]

definition base64Encode :: "u8 list \<Rightarrow> string" where
  "base64Encode data = b64_loop data 0"

definition websocket_guid :: string where
  "websocket_guid = ''258EAFA5-E914-47DA-95CA-C5AB0DC85B11''"

definition websocketAcceptKey :: "string \<Rightarrow> string" where
  "websocketAcceptKey key = base64Encode (sha1 (key @ websocket_guid))"

section \<open>Frames\<close>

text \<open>The bytes that \<^verbatim>\<open>sendWebSocketText\<close> sends: one final text frame, unmasked.\<close>

definition ws_frame :: "string \<Rightarrow> string" where
  "ws_frame message =
     (let len = length message
      in CHR 0x81 #
         (if len < 126 then [char_of len]
          else if len \<le> 0xffff then [char_of (126 :: nat), char_of (len div 2 ^ 8 mod 256), char_of (len mod 256)]
          else char_of (127 :: nat) # map (\<lambda>i. char_of (len div 2 ^ (i * 8) mod 256)) [7, 6, 5, 4, 3, 2, 1, 0])
         @ message)"

section \<open>SHA-1 as the standard defines it\<close>

text \<open>FIPS 180-4: padding, the message schedule as a recursive sequence, the round functions and constants.\<close>

definition fips_pad :: "u8 list \<Rightarrow> u8 list" where
  "fips_pad m =
     m @ [0x80] @ replicate ((119 - length m mod 64) mod 64) 0 @
     map (\<lambda>i. of_nat (8 * length m div 256 ^ i)) [7, 6, 5, 4, 3, 2, 1, 0]"

definition fips_word :: "u8 list \<Rightarrow> nat \<Rightarrow> u32" where
  "fips_word block t =
     word_cat (word_cat (block ! (4 * t)) (block ! (4 * t + 1)) :: 16 word)
       (word_cat (block ! (4 * t + 2)) (block ! (4 * t + 3)) :: 16 word)"

fun fips_schedule :: "u8 list \<Rightarrow> nat \<Rightarrow> u32" where
  "fips_schedule block t =
     (if t < 16 then fips_word block t
      else word_rotl 1 (fips_schedule block (t - 3) XOR fips_schedule block (t - 8) XOR
             fips_schedule block (t - 14) XOR fips_schedule block (t - 16)))"

declare fips_schedule.simps [simp del]

definition fips_f :: "nat \<Rightarrow> u32 \<Rightarrow> u32 \<Rightarrow> u32 \<Rightarrow> u32" where
  "fips_f t x y z =
     (if t < 20 then (x AND y) XOR (NOT x AND z)
      else if 40 \<le> t \<and> t < 60 then (x AND y) XOR (x AND z) XOR (y AND z)
      else x XOR y XOR z)"

definition fips_K :: "nat \<Rightarrow> u32" where
  "fips_K t = (if t < 20 then 0x5A827999 else if t < 40 then 0x6ED9EBA1 else if t < 60 then 0x8F1BBCDC else 0xCA62C1D6)"

primrec fips_rounds :: "u8 list \<Rightarrow> sha1_state \<Rightarrow> nat \<Rightarrow> sha1_state" where
  "fips_rounds block h 0 = h"
| "fips_rounds block h (Suc t) =
     (case fips_rounds block h t of (a, b, c, d, e) \<Rightarrow>
        (word_rotl 5 a + fips_f t b c d + e + fips_K t + fips_schedule block t, a, word_rotl 30 b, c, d))"

definition fips_block :: "sha1_state \<Rightarrow> u8 list \<Rightarrow> sha1_state" where
  "fips_block h block =
     (case (h, fips_rounds block h 80) of
        ((h0, h1, h2, h3, h4), (a, b, c, d, e)) \<Rightarrow> (h0 + a, h1 + b, h2 + c, h3 + d, h4 + e))"

fun fips_blocks :: "sha1_state \<Rightarrow> u8 list \<Rightarrow> sha1_state" where
  "fips_blocks h m = (if length m < 64 then h else fips_blocks (fips_block h (take 64 m)) (drop 64 m))"

declare fips_blocks.simps [simp del]

definition fips_sha1 :: "u8 list \<Rightarrow> u8 list" where
  "fips_sha1 m =
     (case fips_blocks sha1_init (fips_pad m) of (h0, h1, h2, h3, h4) \<Rightarrow> concat (map word_bytes [h0, h1, h2, h3, h4]))"

text \<open>Rotation, the round functions and big-endian words, bit by bit.\<close>

lemma rol_rotl: "0 < n \<Longrightarrow> n < 32 \<Longrightarrow> rol w n = word_rotl n w"
proof (rule bit_word_eqI)
  fix i
  assume n: "0 < n" "n < 32" and i: "i < LENGTH(32)"
  show "bit (rol w n) i \<longleftrightarrow> bit (word_rotl n w) i"
  proof (cases "n \<le> i")
    case True
    then have "(i + (32 - n)) mod 32 = i - n" using n i by (simp add: mod_if)
    moreover have "\<not> bit w (32 - n + i)" using True n by (auto dest: bit_imp_le_length)
    ultimately show ?thesis
      using True n i by (simp add: rol_def bit_or_iff bit_push_bit_iff bit_drop_bit_eq bit_word_rotl_iff)
  next
    case False
    then have "(i + (32 - n)) mod 32 = 32 - n + i" using n i by simp
    then show ?thesis
      using False n i by (simp add: rol_def bit_or_iff bit_push_bit_iff bit_drop_bit_eq bit_word_rotl_iff)
  qed
qed

lemma choose_xor: "((b :: u32) AND c) OR (NOT b AND d) = (b AND c) XOR (NOT b AND d)"
  by (rule bit_word_eqI) (auto simp: bit_simps)

lemma majority_xor: "((b :: u32) AND c) OR (b AND d) OR (c AND d) = (b AND c) XOR (b AND d) XOR (c AND d)"
  by (rule bit_word_eqI) (auto simp: bit_simps)

lemma byte_bit: "8 \<le> n \<Longrightarrow> \<not> bit (a :: u8) n"
  by (auto dest: bit_imp_le_length)

lemma be_word_cat:
  "push_bit 24 (ucast a) OR push_bit 16 (ucast b) OR push_bit 8 (ucast c) OR ucast d =
   (word_cat (word_cat a b :: 16 word) (word_cat c d :: 16 word) :: u32)" for a b c d :: u8
proof (rule bit_word_eqI)
  fix i
  assume "i < LENGTH(32)"
  then consider "i < 8" | "8 \<le> i" "i < 16" | "16 \<le> i" "i < 24" | "24 \<le> i" "i < 32" by fastforce
  then show "bit (push_bit 24 (ucast a) OR push_bit 16 (ucast b) OR push_bit 8 (ucast c) OR ucast d :: u32) i \<longleftrightarrow>
      bit (word_cat (word_cat a b :: 16 word) (word_cat c d :: 16 word) :: u32) i"
    by cases (auto simp: bit_or_iff bit_push_bit_iff bit_ucast_iff bit_word_cat_iff byte_bit)
qed

lemma be_word_fips: "be_word message (4 * t) = fips_word message t"
  unfolding be_word_def fips_word_def by (rule be_word_cat)

lemma be_word_block:
  "t < 16 \<Longrightarrow> chunk + 64 \<le> length message \<Longrightarrow>
   be_word message (chunk + t * 4) = fips_word (take 64 (drop chunk message)) t"
proof -
  assume "t < 16" "chunk + 64 \<le> length message"
  then have "be_word message (chunk + t * 4) = be_word (take 64 (drop chunk message)) (4 * t)"
    by (simp add: be_word_def ac_simps)
  then show ?thesis by (simp only: be_word_fips)
qed

text \<open>The schedule, the rounds and the chunks.\<close>

lemma schedule_prefix:
  assumes "16 \<le> n"
  shows "foldl (\<lambda>w i. w @ [rol (w ! (i - 3) XOR w ! (i - 8) XOR w ! (i - 14) XOR w ! (i - 16)) 1])
       (map (fips_word block) [0..<16]) [16..<n] = map (fips_schedule block) [0..<n]"
  using assms
proof (induction n rule: dec_induct)
  case base
  show ?case by (simp add: fips_schedule.simps)
next
  case (step n)
  then have "map (fips_schedule block) [0..<n] ! (n - k) = fips_schedule block (n - k)" if "0 < k" "k \<le> 16" for k
    using that by (simp add: nth_append)
  with step show ?case by (simp add: rol_rotl fips_schedule.simps [of block n])
qed

lemma schedule_fips:
  "chunk + 64 \<le> length message \<Longrightarrow>
   sha1_schedule message chunk = map (fips_schedule (take 64 (drop chunk message))) [0..<80]"
proof -
  assume "chunk + 64 \<le> length message"
  then have "map (\<lambda>i. be_word message (chunk + i * 4)) [0..<16] = map (fips_word (take 64 (drop chunk message))) [0..<16]"
    by (intro map_cong) (simp_all add: be_word_block)
  then show ?thesis unfolding sha1_schedule_def by (simp only: schedule_prefix)
qed

lemma sha1_round_fips:
  "i < 80 \<Longrightarrow> sha1_round (map (fips_schedule block) [0..<80]) (a, b, c, d, e) i =
     (word_rotl 5 a + fips_f i b c d + e + fips_K i + fips_schedule block i, a, word_rotl 30 b, c, d)"
  by (simp add: sha1_round_def fips_f_def fips_K_def choose_xor majority_xor rol_rotl Let_def)

lemma rounds_fips:
  "n \<le> 80 \<Longrightarrow> foldl (sha1_round (map (fips_schedule block) [0..<80])) h [0..<n] = fips_rounds block h n"
proof (induction n)
  case (Suc n)
  then have IH: "foldl (sha1_round (map (fips_schedule block) [0..<80])) h [0..<n] = fips_rounds block h n" by simp
  obtain a b c d e where s: "fips_rounds block h n = (a, b, c, d, e)" by (metis surj_pair)
  show ?case
    using Suc.prems by (simp add: IH s sha1_round_fips del: upt_Suc) (simp add: IH s sha1_round_fips)
qed simp

lemma sha1_chunk_fips:
  "chunk + 64 \<le> length message \<Longrightarrow> sha1_chunk message h chunk = fips_block h (take 64 (drop chunk message))"
  by (simp only: sha1_chunk_def fips_block_def schedule_fips rounds_fips order.refl)

lemma fips_blocks_steps:
  assumes "length message = n * 64" "k \<le> n"
  shows "foldl (sha1_chunk message) h (map (\<lambda>i. i * 64) [k..<n]) = fips_blocks h (drop (k * 64) message)"
  using assms(2)
proof (induction "n - k" arbitrary: k h)
  case 0
  then show ?case using assms(1) by (simp add: fips_blocks.simps)
next
  case (Suc d)
  then have k: "k < n" by simp
  then have "k * 64 + 64 \<le> length message" using assms(1) by simp
  moreover have "foldl (sha1_chunk message) h' (map (\<lambda>i. i * 64) [Suc k..<n]) = fips_blocks h' (drop (Suc k * 64) message)" for h'
    using Suc.hyps(1) [of "Suc k"] Suc.hyps(2) k by simp
  moreover from calculation have "\<not> length (drop (k * 64) message) < 64" by simp
  ultimately show ?case
    using k by (simp add: upt_conv_Cons sha1_chunk_fips fips_blocks.simps [of h "drop (k * 64) message"] add.commute)
qed

lemma pad_zeros_eq: "pad_zeros m = m @ replicate ((120 - length m mod 64) mod 64) 0"
proof (induction m rule: pad_zeros.induct)
  case (1 m)
  show ?case
  proof (cases "length m mod 64 = 56")
    case True
    then show ?thesis by (subst pad_zeros.simps) simp
  next
    case False
    have "\<forall>r\<in>set [0..<64]. r \<noteq> 56 \<longrightarrow> (120 - r) mod 64 = Suc ((120 - Suc r mod 64) mod (64 :: nat))" by code_simp
    moreover have "length m mod 64 \<in> set [0..<64]" by simp
    ultimately have "(120 - length m mod 64) mod 64 = Suc ((120 - Suc (length m mod 64) mod 64) mod 64)" using False by blast
    then have "(120 - length m mod 64) mod 64 = Suc ((120 - Suc (length m) mod 64) mod 64)" by (simp only: mod_Suc_eq)
    then show ?thesis using False 1 [OF False] by (subst pad_zeros.simps) simp
  qed
qed

lemma byte_at_of_nat: "i < 8 \<Longrightarrow> byte_at i (of_nat n) = of_nat (n div 256 ^ i)"
proof (rule bit_word_eqI)
  fix k
  assume "i < 8" "k < LENGTH(8)"
  moreover have "n div 256 ^ i = drop_bit (i * 8) n"
    by (simp add: drop_bit_eq_div power_mult mult.commute [of i])
  moreover have "bit (0xff :: u64) k" if "k < 8"
  proof -
    have "(0xff :: u64) = mask 8" by (simp add: mask_eq_exp_minus_1)
    with that show ?thesis by (simp only: bit_mask_iff) simp
  qed
  ultimately show "bit (byte_at i (of_nat n)) k \<longleftrightarrow> bit (of_nat (n div 256 ^ i) :: u8) k"
    by (simp add: byte_at_def bit_simps)
qed

lemma sha1_message_fips: "sha1_message input = fips_pad (map byte_of_char input)"
proof -
  have "\<forall>r\<in>set [0..<64]. (120 - Suc r mod 64) mod 64 = (119 - r) mod (64 :: nat)" by code_simp
  moreover have "length input mod 64 \<in> set [0..<64]" by simp
  ultimately have "(120 - Suc (length input mod 64) mod 64) mod 64 = (119 - length input mod 64) mod 64" by blast
  then have "(120 - Suc (length input) mod 64) mod 64 = (119 - length input mod 64) mod 64" by (simp only: mod_Suc_eq)
  moreover have "byte_at i (of_nat (length input) * 8) = of_nat (8 * length input div 256 ^ i)" if "i < 8" for i
    using byte_at_of_nat [OF that, of "8 * length input"] by (simp add: mult.commute)
  ultimately show ?thesis
    by (simp add: sha1_message_def fips_pad_def pad_zeros_eq Let_def del: power_numeral)
qed

lemma length_fips_pad: "length (fips_pad m) mod 64 = 0"
proof -
  have "\<forall>r\<in>set [0..<64]. (r + 9 + (119 - r) mod 64) mod 64 = (0 :: nat)" by code_simp
  moreover have "length m mod 64 \<in> set [0..<64]" by simp
  ultimately have "(length m mod 64 + 9 + (119 - length m mod 64) mod 64) mod 64 = 0" by blast
  then have "(length m + 9 + (119 - length m mod 64) mod 64) mod 64 = 0" by (metis mod_add_left_eq)
  then show ?thesis by (simp add: fips_pad_def ac_simps)
qed

text \<open>
  C28: The SHA-1 routine of the handshake computes the SHA-1 digest of the standard (FIPS 180-4) for every
  input: the padding loop, the message schedule array, the branches of the round function and the loop over
  chunks give the padded message, the recursive schedule, the round functions and the block chain of the
  standard.
\<close>

theorem sha1_fips: "sha1 input = fips_sha1 (map byte_of_char input)"
proof -
  define message where "message = fips_pad (map byte_of_char input)"
  obtain n where n: "length message = n * 64"
    using length_fips_pad [of "map byte_of_char input"] by (auto simp: message_def mod_eq_0_iff_dvd)
  then have "(length message + 63) div 64 = n" by simp
  then show ?thesis
    using fips_blocks_steps [OF n, of 0 sha1_init]
    by (simp add: sha1_def fips_sha1_def sha1_message_fips message_def [symmetric] Let_def)
qed

section \<open>Base64 is read back\<close>

text \<open>A decoder after RFC 4648.\<close>

definition b64_index :: "char \<Rightarrow> nat" where
  "b64_index c =
     (let n = code c
      in if 65 \<le> n \<and> n \<le> 90 then n - 65
         else if 97 \<le> n \<and> n \<le> 122 then n - 71
         else if 48 \<le> n \<and> n \<le> 57 then n + 4
         else if c = CHR ''+'' then 62 else 63)"

definition b64_val :: "char \<Rightarrow> u32" where
  "b64_val c = of_nat (b64_index c)"

fun b64_decode :: "string \<Rightarrow> u8 list" where
  "b64_decode (p # q # r # s # rest) =
     ucast (push_bit 2 (b64_val p) OR drop_bit 4 (b64_val q)) #
     (if r = CHR ''='' then [] else [ucast (push_bit 4 (b64_val q) OR drop_bit 2 (b64_val r))]) @
     (if s = CHR ''='' then [] else [ucast (push_bit 6 (b64_val r) OR b64_val s)]) @
     b64_decode rest"
| "b64_decode rest = []"

lemma six_bits: "bit (0x3f :: u32) n \<longleftrightarrow> n < 6" "bit (0x3f :: nat) n \<longleftrightarrow> n < 6"
proof -
  have "(0x3f :: u32) = mask 6" "(0x3f :: nat) = mask 6" by (simp_all add: mask_eq_exp_minus_1)
  then show "bit (0x3f :: u32) n \<longleftrightarrow> n < 6" "bit (0x3f :: nat) n \<longleftrightarrow> n < 6" by (simp_all only: bit_mask_iff) auto
qed

lemma six_bit_index: "unat (n AND 0x3f :: u32) \<in> set [0..<64]"
proof -
  have "(n AND 0x3f :: u32) = take_bit 6 n" by (simp add: take_bit_eq_mask mask_eq_exp_minus_1)
  then show ?thesis using take_bit_nat_less_exp [of 6 "unat n"] by (simp add: unsigned_take_bit_eq)
qed

lemma b64_table_index: "map b64_index b64_table = [0..<64]"
  by code_simp

lemma b64_table_length: "length b64_table = 64"
  using arg_cong [OF b64_table_index, of length] by simp

lemma b64_val_char: "b64_val (b64_char n) = n AND 0x3f"
proof -
  have "b64_index (b64_table ! k) = k" if "k < 64" for k
    using that b64_table_length b64_table_index by (metis add_0 length_upt minus_nat.diff_0 nth_map nth_upt)
  with six_bit_index [of n] show ?thesis by (simp add: b64_char_def b64_val_def)
qed

lemma b64_char_pad: "b64_char n \<noteq> CHR ''=''"
proof -
  have "CHR ''='' \<notin> set b64_table" by (simp add: b64_table_def)
  moreover have "b64_char n \<in> set b64_table"
    using six_bit_index [of n] by (simp add: b64_char_def b64_table_length)
  ultimately show ?thesis by metis
qed

lemma byte_eqI:
  "bit a 0 = bit b 0 \<Longrightarrow> bit a 1 = bit b 1 \<Longrightarrow> bit a 2 = bit b 2 \<Longrightarrow> bit a 3 = bit b 3 \<Longrightarrow> bit a 4 = bit b 4 \<Longrightarrow>
   bit a 5 = bit b 5 \<Longrightarrow> bit a 6 = bit b 6 \<Longrightarrow> bit a 7 = bit b 7 \<Longrightarrow> a = b" for a b :: u8
proof (rule bit_word_eqI)
  fix n
  assume h: "bit a 0 = bit b 0" "bit a 1 = bit b 1" "bit a 2 = bit b 2" "bit a 3 = bit b 3" "bit a 4 = bit b 4"
    "bit a 5 = bit b 5" "bit a 6 = bit b 6" "bit a 7 = bit b 7" and n: "n < LENGTH(8)"
  from n have "n = 0 \<or> n = 1 \<or> n = 2 \<or> n = 3 \<or> n = 4 \<or> n = 5 \<or> n = 6 \<or> n = 7" by simp arith
  then show "bit a n = bit b n" by (elim disjE) (simp_all only: h)
qed

lemmas six_bit_simps = bit_ucast_iff bit_or_iff bit_push_bit_iff bit_and_iff bit_drop_bit_eq six_bits o_apply

lemma b64_bytes:
  fixes a b c :: u8
  defines "t \<equiv> push_bit 16 (ucast a) OR push_bit 8 (ucast b) OR ucast c :: u32"
  shows "ucast (push_bit 2 (drop_bit 18 t AND 0x3f) OR drop_bit 4 (drop_bit 12 t AND 0x3f)) = a"
    and "ucast (push_bit 4 (drop_bit 12 t AND 0x3f) OR drop_bit 2 (drop_bit 6 t AND 0x3f)) = b"
    and "ucast (push_bit 6 (drop_bit 6 t AND 0x3f) OR (t AND 0x3f)) = c"
proof -
  have t: "bit t n \<longleftrightarrow> n < 32 \<and> (if n < 8 then bit c n else if n < 16 then bit b (n - 8) else n < 24 \<and> bit a (n - 16))" for n
    unfolding t_def by (auto simp: bit_or_iff bit_push_bit_iff bit_ucast_iff simp: byte_bit dest: bit_imp_le_length)
  show "ucast (push_bit 2 (drop_bit 18 t AND 0x3f) OR drop_bit 4 (drop_bit 12 t AND 0x3f)) = a"
    by (rule byte_eqI; simp only: six_bit_simps t; simp)
  show "ucast (push_bit 4 (drop_bit 12 t AND 0x3f) OR drop_bit 2 (drop_bit 6 t AND 0x3f)) = b"
    by (rule byte_eqI; simp only: six_bit_simps t; simp)
  show "ucast (push_bit 6 (drop_bit 6 t AND 0x3f) OR (t AND 0x3f)) = c"
    by (rule byte_eqI; simp only: six_bit_simps t; simp)
qed

lemma b64_loop_shift: "b64_loop (x # y # z # data) (i + 3) = b64_loop data i"
proof (induction data i rule: b64_loop.induct)
  case (1 data i)
  have g: "b64_group (x # y # z # data) (i + 3) = b64_group data i"
    by (simp add: b64_group_def numeral_3_eq_3)
  show ?case
    using 1 g by (subst (1 2) b64_loop.simps) simp
qed

lemma base64Encode_steps:
  "base64Encode [] = []"
  "base64Encode [a] = b64_group [a] 0"
  "base64Encode [a, b] = b64_group [a, b] 0"
  "base64Encode (a # b # c # data) = b64_group [a, b, c] 0 @ base64Encode data"
proof -
  have "b64_group (a # b # c # data) 0 = b64_group [a, b, c] 0" by (simp add: b64_group_def)
  then show "base64Encode (a # b # c # data) = b64_group [a, b, c] 0 @ base64Encode data"
    using b64_loop_shift [of a b c data 0] by (simp add: base64Encode_def b64_loop.simps [of _ 0])
qed (simp_all add: base64Encode_def b64_loop.simps)

lemma b64_decode_group:
  "b64_decode (b64_group [a, b, c] 0 @ rest) = a # b # c # b64_decode rest"
  "b64_decode (b64_group [a, b] 0 @ rest) = a # b # b64_decode rest"
  "b64_decode (b64_group [a] 0 @ rest) = a # b64_decode rest"
  using b64_bytes [of a b c] b64_bytes [of a b 0] b64_bytes [of a 0 0]
  by (simp_all add: b64_group_def b64_val_char b64_char_pad Let_def)

text \<open>
  The Base64 text of any sequence of bytes, of any length, is decoded back to exactly these bytes.
\<close>

theorem base64_round_trip: "b64_decode (base64Encode data) = data"
proof (induction "length data" arbitrary: data rule: less_induct)
  case less
  consider "data = []" | a where "data = [a]" | a b where "data = [a, b]" | a b c rest where "data = a # b # c # rest"
    by (metis neq_Nil_conv)
  then show ?case
  proof cases
    case (4 a b c rest)
    with less show ?thesis by (simp add: base64Encode_steps b64_decode_group)
  qed (use b64_decode_group [where rest = "[]"] in \<open>simp_all add: base64Encode_steps\<close>)
qed

section \<open>Frames are read back\<close>

text \<open>A reader of unmasked frames after RFC 6455: the first byte, the payload and the rest of the stream.\<close>

definition be_nat :: "string \<Rightarrow> nat" where
  "be_nat bs = foldl (\<lambda>n c. 256 * n + code c) 0 bs"

fun read_frame :: "string \<Rightarrow> (char \<times> string \<times> string) option" where
  "read_frame (b # l # s) =
     (let k = (if code l = 126 then 2 else if code l = 127 then 8 else 0);
          n = (if k = 0 then code l else be_nat (take k s)); body = drop k s
      in if 128 \<le> code l \<or> length body < n then None else Some (b, take n body, drop n body))"
| "read_frame s = None"

lemma be_nat_digits:
  "be_nat (map (\<lambda>i. char_of (n div 2 ^ (i * 8) mod 256)) (rev [0..<k])) = n mod 2 ^ (k * 8)"
proof (induction k)
  case (Suc k)
  have fold: "foldl (\<lambda>n c. 256 * n + code c) a cs = a * 256 ^ length cs + be_nat cs" for a cs
  proof (induction cs rule: rev_induct)
    case (snoc c cs)
    then show ?case by (simp add: be_nat_def algebra_simps)
  qed (simp add: be_nat_def)
  have p: "(256 :: nat) ^ k = 2 ^ (k * 8)" by (simp add: power_mult mult.commute [of k])
  have "be_nat (map (\<lambda>i. char_of (n div 2 ^ (i * 8) mod 256)) (rev [0..<Suc k])) =
      (n div 2 ^ (k * 8) mod 256) * 256 ^ k + n mod 2 ^ (k * 8)"
    using Suc fold [of "n div 2 ^ (k * 8) mod 256"] by (simp add: be_nat_def)
  also have "\<dots> = n mod (2 ^ (k * 8) * 256)"
    unfolding p mod_mult2_eq by simp
  finally show ?case by (simp add: power_add mult.commute)
qed (simp add: be_nat_def)

text \<open>
  The frame of a text message is read back by a WebSocket client, with each of the three length encodings:
  the first byte marks a final text frame, the payload is exactly the message, and the frame ends exactly
  where the next one starts, so that successive updates cannot run into each other.
\<close>

theorem ws_frame_read_back:
  assumes "length message < 2 ^ 64"
  shows "read_frame (ws_frame message @ rest) = Some (CHR 0x81, message, rest)"
proof -
  define n where "n = length message"
  define hs2 hs8 where "hs2 = map (\<lambda>i. char_of (n div 2 ^ (i * 8) mod 256)) (rev [0..<2])"
    and "hs8 = map (\<lambda>i. char_of (n div 2 ^ (i * 8) mod 256)) (rev [0..<8])"
  have len: "length hs2 = 2" "length hs8 = 8" by (simp_all add: hs2_def hs8_def)
  have be: "be_nat hs2 = n mod 2 ^ (2 * 8)" "be_nat hs8 = n mod 2 ^ (8 * 8)"
    unfolding hs2_def hs8_def by (rule be_nat_digits)+
  have "rev [0..<2] = [1, 0 :: nat]" "rev [0..<8] = [7, 6, 5, 4, 3, 2, 1, 0 :: nat]" by (simp_all add: upt_rec)
  then have frame: "ws_frame message = CHR 0x81 # (if n < 126 then [char_of n]
      else if n \<le> 0xffff then char_of (126 :: nat) # hs2 else char_of (127 :: nat) # hs8) @ message"
    by (simp only: ws_frame_def n_def [symmetric] Let_def hs2_def hs8_def list.map mult_1 mult_zero_left power_0 div_by_1)
  consider "n < 126" | "126 \<le> n" "n \<le> 0xffff" | "0xffff < n" by linarith
  then show ?thesis
  proof cases
    case 2
    then have "be_nat hs2 = n" using be(1) by simp
    with 2 len show ?thesis unfolding frame by (simp add: n_def)
  next
    case 3
    then have "be_nat hs8 = n" using be(2) assms by (simp add: n_def)
    with 3 len show ?thesis unfolding frame by (simp add: n_def)
  qed (simp add: frame n_def)
qed

theorem ws_frame_read_back_witness:
  "read_frame (ws_frame (List.replicate 300 (CHR ''a'')) @ ''x'') = Some (CHR 0x81, List.replicate 300 (CHR ''a''), ''x'')"
  by (rule ws_frame_read_back) (simp only: length_replicate, simp)

end
