(* ===== verification/Listeners.thy ===== *)
theory Listeners
  imports Syslog_Server
begin

text \<open>
  The listening sockets and their threads: \<^verbatim>\<open>SyslogServer::start\<close>, \<^verbatim>\<open>stop\<close> and the parts of \<^verbatim>\<open>runUdp\<close> and \<^verbatim>\<open>runTcp\<close>
  around the handling of the received text (\<^verbatim>\<open>src/src/syslog_server.cpp\<close>), and \<^verbatim>\<open>WebServer::start\<close>, \<^verbatim>\<open>stop\<close> and
  \<^verbatim>\<open>run\<close> (\<^verbatim>\<open>src/src/web_server.cpp\<close>). The descriptor of a listener is a plain member that its thread and the
  thread that calls \<^verbatim>\<open>stop\<close> both read and write, so every access to it and to the flag \<^verbatim>\<open>running_\<close> is one step,
  and a run is any sequence of steps of the threads. What the operating system answers to \<^verbatim>\<open>socket\<close>, \<^verbatim>\<open>bind\<close>,
  \<^verbatim>\<open>listen\<close>, \<^verbatim>\<open>select\<close>, \<^verbatim>\<open>recvfrom\<close> and \<^verbatim>\<open>accept\<close> comes with each step, and \<^verbatim>\<open>inet_pton\<close> is a parameter.
\<close>

section \<open>Addresses\<close>

text \<open>The port and the IPv4 address, both in host byte order; \<open>inet_pton\<close> gives an address when it returns 1.\<close>

record sockaddr_in =
  sin_port :: u16
  sin_addr :: "32 word"

definition makeSockaddr :: "(string \<Rightarrow> 32 word option) \<Rightarrow> Address \<Rightarrow> sockaddr_in" where
  "makeSockaddr inet_pton address =
     \<lparr>sin_port = ad_port address,
      sin_addr = (case inet_pton (takeWhile (\<lambda>c. c \<noteq> CHR 0x00) (ad_host address)) of Some a \<Rightarrow> a | None \<Rightarrow> 0)\<rparr>"

section \<open>One listener\<close>

datatype listener = Udp | Tcp | Http

fun listen_addr :: "listener \<Rightarrow> Config \<Rightarrow> string" where
  "listen_addr Udp config = syslog_udp_addr config"
| "listen_addr Tcp config = syslog_tcp_addr config"
| "listen_addr Http config = http_addr config"

text \<open>The three accesses of \<^verbatim>\<open>closeIfOpen\<close>: the test, the call of \<^verbatim>\<open>close\<close>, and the assignment.\<close>

datatype close_pc = Test | CloseNow | Clear

text \<open>
  Where the thread of a listener is: before \<^verbatim>\<open>socket\<close>, \<^verbatim>\<open>bind\<close> and \<^verbatim>\<open>listen\<close>, in \<^verbatim>\<open>closeIfOpen\<close> after one of the latter
  failed, at the head of the loop, before \<^verbatim>\<open>FD_SET\<close>, in \<^verbatim>\<open>select\<close> on the descriptor it has read, after it, at
  \<^verbatim>\<open>FD_ISSET\<close> (which reads the member again in the web server only), before \<^verbatim>\<open>recvfrom\<close> or \<^verbatim>\<open>accept\<close>.
\<close>

datatype thread_pc = NotStarted | Begin | Binding | Listening | Closing close_pc | Loop | Waiting
  | Selecting int | Woken int bool | IsSet int | Receiving | Done

text \<open>What must not happen: a set operation on a negative descriptor, and closing one that is not open.\<close>

datatype fault = NegativeDescriptor | StrayClose int

record Listener =
  ln_fd :: int
  ln_pc :: thread_pc
  ln_open :: "int list"
  ln_bound :: "sockaddr_in option"
  ln_served :: nat
  ln_faults :: "fault list"

definition listener_new :: Listener where
  "listener_new = \<lparr>ln_fd = - 1, ln_pc = NotStarted, ln_open = [], ln_bound = None, ln_served = 0, ln_faults = []\<rparr>"

text \<open>
  The answer of the operating system: the descriptor of \<^verbatim>\<open>socket\<close>, whether the other calls succeed, and the address
  of the peer of an accepted connection.
\<close>

record answer =
  an_fd :: int
  an_ok :: bool
  an_peer :: string

definition sys_close :: "Listener \<Rightarrow> Listener" where
  "sys_close ln =
     (if ln_fd ln \<in> set (ln_open ln) then ln\<lparr>ln_open := removeAll (ln_fd ln) (ln_open ln)\<rparr>
      else ln\<lparr>ln_faults := ln_faults ln @ [StrayClose (ln_fd ln)]\<rparr>)"

text \<open>One step of \<^verbatim>\<open>closeIfOpen\<close>; \<open>None\<close> when it returns.\<close>

fun closeIfOpen :: "close_pc \<Rightarrow> Listener \<Rightarrow> close_pc option \<times> Listener" where
  "closeIfOpen Test ln = (if 0 \<le> ln_fd ln then Some CloseNow else None, ln)"
| "closeIfOpen CloseNow ln = (Some Clear, sys_close ln)"
| "closeIfOpen Clear ln = (None, ln\<lparr>ln_fd := - 1\<rparr>)"

definition fd_check :: "Listener \<Rightarrow> Listener" where
  "fd_check ln = (if ln_fd ln < 0 then ln\<lparr>ln_faults := ln_faults ln @ [NegativeDescriptor]\<rparr> else ln)"

text \<open>A call on the member succeeds only while the descriptor it holds is open.\<close>

definition succeeds :: "answer \<Rightarrow> int \<Rightarrow> Listener \<Rightarrow> bool" where
  "succeeds a fd ln \<longleftrightarrow> an_ok a \<and> fd \<in> set (ln_open ln)"

text \<open>
  One step of the thread of a listener. Set operations on a negative descriptor are undefined in the source;
  the model records the fault and goes on as if they had no effect.
\<close>

fun thread_step :: "(string \<Rightarrow> 32 word option) \<Rightarrow> Config \<Rightarrow> listener \<Rightarrow> bool \<Rightarrow> answer \<Rightarrow> thread_pc \<Rightarrow> Listener \<Rightarrow> Listener" where
  "thread_step inet_pton config k running a NotStarted ln = ln"
| "thread_step inet_pton config k running a Begin ln =
     (case parseAddress (listen_addr k config) of
        None \<Rightarrow> ln\<lparr>ln_pc := Done\<rparr>
      | Some address \<Rightarrow>
          if an_fd a < 0 then ln\<lparr>ln_fd := an_fd a, ln_pc := Done\<rparr>
          else ln\<lparr>ln_fd := an_fd a, ln_open := an_fd a # ln_open ln, ln_pc := Binding\<rparr>)"
| "thread_step inet_pton config k running a Binding ln =
     (if succeeds a (ln_fd ln) ln
      then ln\<lparr>ln_bound := map_option (makeSockaddr inet_pton) (parseAddress (listen_addr k config)),
              ln_pc := (if k = Udp then Loop else Listening)\<rparr>
      else ln\<lparr>ln_pc := Closing Test\<rparr>)"
| "thread_step inet_pton config k running a Listening ln =
     ln\<lparr>ln_pc := (if succeeds a (ln_fd ln) ln then Loop else Closing Test)\<rparr>"
| "thread_step inet_pton config k running a (Closing p) ln =
     (case closeIfOpen p ln of (p', ln') \<Rightarrow> ln'\<lparr>ln_pc := (case p' of None \<Rightarrow> Done | Some q \<Rightarrow> Closing q)\<rparr>)"
| "thread_step inet_pton config k running a Loop ln = ln\<lparr>ln_pc := (if running then Waiting else Done)\<rparr>"
| "thread_step inet_pton config k running a Waiting ln = (fd_check ln)\<lparr>ln_pc := Selecting (ln_fd ln)\<rparr>"
| "thread_step inet_pton config k running a (Selecting fd) ln = ln\<lparr>ln_pc := Woken fd (succeeds a fd ln)\<rparr>"
| "thread_step inet_pton config k running a (Woken fd ready) ln =
     ln\<lparr>ln_pc := (if k = Http then (if \<not> running then Done else if \<not> ready then Loop else IsSet fd)
                 else if running \<and> ready then Receiving else Loop)\<rparr>"
| "thread_step inet_pton config k running a (IsSet fd) ln =
     (fd_check ln)\<lparr>ln_pc := (if ln_fd ln = fd then Receiving else Loop)\<rparr>"
| "thread_step inet_pton config k running a Receiving ln =
     ln\<lparr>ln_served := (if succeeds a (ln_fd ln) ln then Suc (ln_served ln) else ln_served ln), ln_pc := Loop\<rparr>"
| "thread_step inet_pton config k running a Done ln = ln"

definition run_thread :: "(string \<Rightarrow> 32 word option) \<Rightarrow> Config \<Rightarrow> listener \<Rightarrow> bool \<Rightarrow> answer \<Rightarrow> Listener \<Rightarrow> Listener" where
  "run_thread inet_pton config k running a ln = thread_step inet_pton config k running a (ln_pc ln) ln"

text \<open>\<^verbatim>\<open>join\<close> returns when the thread has ended; without a thread \<^verbatim>\<open>joinable\<close> is false.\<close>

definition joined_thread :: "Listener \<Rightarrow> bool" where
  "joined_thread ln \<longleftrightarrow> ln_pc ln = NotStarted \<or> ln_pc ln = Done"

section \<open>The syslog server\<close>

datatype syslog_pc = SyslogIdle | CloseUdp close_pc | CloseTcp close_pc | JoinUdp | JoinTcp | JoinClients

text \<open>
  \<open>sy_clients\<close> is \<^verbatim>\<open>client_threads_\<close>, with whether each thread has ended; \<open>sy_stops\<close> counts the calls of \<^verbatim>\<open>stop\<close> that have
  returned, of which the destructor makes the last.
\<close>

record SyslogServer =
  sy_running :: bool
  sy_udp :: Listener
  sy_tcp :: Listener
  sy_clients :: "bool list"
  sy_pc :: syslog_pc
  sy_stops :: nat

definition syslog_start :: "Config \<Rightarrow> SyslogServer" where
  "syslog_start config =
     \<lparr>sy_running = True,
      sy_udp = (if enable_udp config then listener_new\<lparr>ln_pc := Begin\<rparr> else listener_new),
      sy_tcp = (if enable_tcp config then listener_new\<lparr>ln_pc := Begin\<rparr> else listener_new),
      sy_clients = [], sy_pc = SyslogIdle, sy_stops = 0\<rparr>"

text \<open>One step of \<^verbatim>\<open>stop\<close>; a join that has to wait leaves the state as it is.\<close>

fun syslog_stop :: "syslog_pc \<Rightarrow> SyslogServer \<Rightarrow> SyslogServer" where
  "syslog_stop SyslogIdle s = s\<lparr>sy_running := False, sy_pc := CloseUdp Test\<rparr>"
| "syslog_stop (CloseUdp p) s =
     (case closeIfOpen p (sy_udp s) of (p', ln) \<Rightarrow>
        s\<lparr>sy_udp := ln, sy_pc := (case p' of None \<Rightarrow> CloseTcp Test | Some q \<Rightarrow> CloseUdp q)\<rparr>)"
| "syslog_stop (CloseTcp p) s =
     (case closeIfOpen p (sy_tcp s) of (p', ln) \<Rightarrow>
        s\<lparr>sy_tcp := ln, sy_pc := (case p' of None \<Rightarrow> JoinUdp | Some q \<Rightarrow> CloseTcp q)\<rparr>)"
| "syslog_stop JoinUdp s = (if joined_thread (sy_udp s) then s\<lparr>sy_pc := JoinTcp\<rparr> else s)"
| "syslog_stop JoinTcp s = (if joined_thread (sy_tcp s) then s\<lparr>sy_pc := JoinClients\<rparr> else s)"
| "syslog_stop JoinClients s =
     (if False \<notin> set (sy_clients s) then s\<lparr>sy_clients := [], sy_pc := SyslogIdle, sy_stops := Suc (sy_stops s)\<rparr> else s)"

text \<open>
  \<^verbatim>\<open>runTcp\<close> starts a thread for every accepted connection of a trusted peer and closes the others; the thread of
  a connection, \<^verbatim>\<open>handleTcpClient\<close>, ends at some time.
\<close>

definition new_client :: "Config \<Rightarrow> answer \<Rightarrow> Listener \<Rightarrow> bool list \<Rightarrow> bool list" where
  "new_client config a ln clients =
     (if ln_pc ln = Receiving \<and> succeeds a (ln_fd ln) ln \<and> shouldAccept config (an_peer a) then clients @ [False] else clients)"

datatype syslog_action = is_RunUdp: RunUdp answer | is_RunTcp: RunTcp answer | EndClient nat | StopSyslog

fun syslog_act :: "(string \<Rightarrow> 32 word option) \<Rightarrow> Config \<Rightarrow> syslog_action \<Rightarrow> SyslogServer \<Rightarrow> SyslogServer" where
  "syslog_act inet_pton config (RunUdp a) s = s\<lparr>sy_udp := run_thread inet_pton config Udp (sy_running s) a (sy_udp s)\<rparr>"
| "syslog_act inet_pton config (RunTcp a) s =
     s\<lparr>sy_tcp := run_thread inet_pton config Tcp (sy_running s) a (sy_tcp s),
       sy_clients := new_client config a (sy_tcp s) (sy_clients s)\<rparr>"
| "syslog_act inet_pton config (EndClient i) s = s\<lparr>sy_clients := (sy_clients s)[i := True]\<rparr>"
| "syslog_act inet_pton config StopSyslog s = syslog_stop (sy_pc s) s"

definition syslog_run :: "(string \<Rightarrow> 32 word option) \<Rightarrow> Config \<Rightarrow> syslog_action list \<Rightarrow> SyslogServer \<Rightarrow> SyslogServer" where
  "syslog_run inet_pton config acts s = fold (syslog_act inet_pton config) acts s"

section \<open>The web server\<close>

datatype web_pc = WebIdle | CloseListen close_pc | JoinWeb

record WebListener =
  wl_running :: bool
  wl_listener :: Listener
  wl_pc :: web_pc
  wl_stops :: nat

definition web_start :: WebListener where
  "web_start = \<lparr>wl_running = True, wl_listener = listener_new\<lparr>ln_pc := Begin\<rparr>, wl_pc = WebIdle, wl_stops = 0\<rparr>"

text \<open>The rest of \<^verbatim>\<open>stop\<close>, which closes the WebSocket clients, is \<open>stop_clients\<close> in the theory of the web server.\<close>

fun web_stop :: "web_pc \<Rightarrow> WebListener \<Rightarrow> WebListener" where
  "web_stop WebIdle s = s\<lparr>wl_running := False, wl_pc := CloseListen Test\<rparr>"
| "web_stop (CloseListen p) s =
     (case closeIfOpen p (wl_listener s) of (p', ln) \<Rightarrow>
        s\<lparr>wl_listener := ln, wl_pc := (case p' of None \<Rightarrow> JoinWeb | Some q \<Rightarrow> CloseListen q)\<rparr>)"
| "web_stop JoinWeb s =
     (if joined_thread (wl_listener s) then s\<lparr>wl_pc := WebIdle, wl_stops := Suc (wl_stops s)\<rparr> else s)"

datatype web_action = RunWeb answer | StopWeb

fun web_act :: "(string \<Rightarrow> 32 word option) \<Rightarrow> Config \<Rightarrow> web_action \<Rightarrow> WebListener \<Rightarrow> WebListener" where
  "web_act inet_pton config (RunWeb a) s =
     s\<lparr>wl_listener := run_thread inet_pton config Http (wl_running s) a (wl_listener s)\<rparr>"
| "web_act inet_pton config StopWeb s = web_stop (wl_pc s) s"

definition web_run :: "(string \<Rightarrow> 32 word option) \<Rightarrow> Config \<Rightarrow> web_action list \<Rightarrow> WebListener \<Rightarrow> WebListener" where
  "web_run inet_pton config acts s = fold (web_act inet_pton config) acts s"

end
