(* ===== verification/Listener_Properties.thy ===== *)
theory Listener_Properties
  imports Listeners
begin

text \<open>
  The listening sockets and their threads under every interleaving: which descriptors are open, that stopping
  ends, where the descriptors are misused, and on which addresses the servers listen.
\<close>

lemmas run_defs = syslog_run_def web_run_def syslog_start_def web_start_def listener_new_def run_thread_def
  succeeds_def joined_thread_def fd_check_def sys_close_def

lemma default_http_address: "parseAddress (http_addr default_config) = Some \<lparr>ad_host = ''0.0.0.0'', ad_port = 8080\<rparr>"
  by code_simp

section \<open>Descriptors\<close>

text \<open>
  \<open>listener_ok sp ln\<close>: at most the descriptor that the member holds is open, and nothing is open before the
  thread has called \<^verbatim>\<open>socket\<close> or once \<^verbatim>\<open>close\<close> has been called; \<open>sp\<close> is where \<^verbatim>\<open>stop\<close> is in its own \<^verbatim>\<open>closeIfOpen\<close>.
\<close>

definition listener_ok :: "close_pc option \<Rightarrow> Listener \<Rightarrow> bool" where
  "listener_ok sp ln \<longleftrightarrow>
     (ln_open ln = [] \<or> ln_open ln = [ln_fd ln] \<and> 0 \<le> ln_fd ln) \<and>
     (ln_pc ln = NotStarted \<or> ln_pc ln = Begin \<longrightarrow> ln_fd ln < 0 \<and> sp \<noteq> Some CloseNow \<and> sp \<noteq> Some Clear) \<and>
     (sp = Some Clear \<or> ln_pc ln = Closing Clear \<longrightarrow> ln_open ln = [])"

lemma sys_close_simps [simp]:
  "ln_fd (sys_close ln) = ln_fd ln" "ln_pc (sys_close ln) = ln_pc ln" "ln_bound (sys_close ln) = ln_bound ln"
  by (simp_all add: sys_close_def)

lemma fd_check_simps [simp]:
  "ln_fd (fd_check ln) = ln_fd ln" "ln_pc (fd_check ln) = ln_pc ln" "ln_bound (fd_check ln) = ln_bound ln"
  "ln_open (fd_check ln) = ln_open ln"
  by (simp_all add: fd_check_def)

lemma closeIfOpen_ok:
  assumes "listener_ok (Some p) ln"
  shows "listener_ok (fst (closeIfOpen p ln)) (snd (closeIfOpen p ln))"
    and "fst (closeIfOpen p ln) = None \<Longrightarrow> ln_open (snd (closeIfOpen p ln)) = []"
    and "ln_pc (snd (closeIfOpen p ln)) = ln_pc ln"
  using assms by (cases p; auto simp: listener_ok_def sys_close_def)+

lemma closing_ok:
  assumes "listener_ok sp ln" "ln_pc ln = Closing p"
  shows "listener_ok sp (thread_step inet_pton config k running a (Closing p) ln)"
  using assms by (cases p) (auto simp: listener_ok_def sys_close_def)

lemma run_thread_ok:
  assumes "listener_ok sp ln"
  shows "listener_ok sp (run_thread inet_pton config k running a ln)"
proof (cases "ln_pc ln")
  case (Closing p)
  then show ?thesis using closing_ok [OF assms] by (simp add: run_thread_def del: thread_step.simps)
qed (use assms in \<open>auto simp: run_thread_def listener_ok_def split: option.splits\<close>)

lemma listener_ok_open: "listener_ok sp ln \<Longrightarrow> set (ln_open ln) \<subseteq> {ln_fd ln}"
  by (auto simp: listener_ok_def)

lemma listener_ok_test: "listener_ok None ln \<Longrightarrow> listener_ok (Some Test) ln"
  by (simp add: listener_ok_def)

lemma listener_new_ok: "listener_ok sp listener_new \<longleftrightarrow> sp \<noteq> Some CloseNow \<and> sp \<noteq> Some Clear"
  by (simp add: listener_ok_def listener_new_def)

lemma listener_begin_ok: "listener_ok None (listener_new\<lparr>ln_pc := Begin\<rparr>)"
  by (simp add: listener_ok_def listener_new_def)

lemma run_thread_joined [simp]: "joined_thread ln \<Longrightarrow> run_thread inet_pton config k running a ln = ln"
  by (auto simp: joined_thread_def run_thread_def)

lemma joined_thread_cong: "ln_pc ln = ln_pc ln' \<Longrightarrow> joined_thread ln = joined_thread ln'"
  by (simp add: joined_thread_def)

section \<open>Invariants of the two servers\<close>

fun udp_stop :: "syslog_pc \<Rightarrow> close_pc option" where
  "udp_stop (CloseUdp p) = Some p"
| "udp_stop _ = None"

fun tcp_stop :: "syslog_pc \<Rightarrow> close_pc option" where
  "tcp_stop (CloseTcp p) = Some p"
| "tcp_stop _ = None"

fun past_udp :: "syslog_pc \<Rightarrow> bool" where
  "past_udp (CloseUdp p) = False"
| "past_udp SyslogIdle = False"
| "past_udp _ = True"

fun past_tcp :: "syslog_pc \<Rightarrow> bool" where
  "past_tcp JoinUdp = True"
| "past_tcp JoinTcp = True"
| "past_tcp JoinClients = True"
| "past_tcp _ = False"

text \<open>
  The threads have ended once a call of \<^verbatim>\<open>stop\<close> has returned, and a call that starts after that closes what
  is still open.
\<close>

definition syslog_ok :: "SyslogServer \<Rightarrow> bool" where
  "syslog_ok s \<longleftrightarrow>
     listener_ok (udp_stop (sy_pc s)) (sy_udp s) \<and> listener_ok (tcp_stop (sy_pc s)) (sy_tcp s) \<and>
     (sy_pc s = JoinTcp \<or> sy_pc s = JoinClients \<or> 0 < sy_stops s \<longrightarrow> joined_thread (sy_udp s)) \<and>
     (sy_pc s = JoinClients \<or> 0 < sy_stops s \<longrightarrow> joined_thread (sy_tcp s)) \<and>
     (0 < sy_stops s \<longrightarrow> sy_clients s = []) \<and>
     (0 < sy_stops s \<and> past_udp (sy_pc s) \<or> 1 < sy_stops s \<longrightarrow> ln_open (sy_udp s) = []) \<and>
     (0 < sy_stops s \<and> past_tcp (sy_pc s) \<or> 1 < sy_stops s \<longrightarrow> ln_open (sy_tcp s) = [])"

lemma closeIfOpen_open_Nil: "ln_open ln = [] \<Longrightarrow> ln_open (snd (closeIfOpen p ln)) = []"
  by (cases p) (simp_all add: sys_close_def)

lemma syslog_stop_ok:
  assumes "syslog_ok s"
  shows "syslog_ok (syslog_stop (sy_pc s) s)"
proof (cases "sy_pc s")
  case SyslogIdle
  with assms show ?thesis by (auto simp: syslog_ok_def listener_ok_test)
next
  case (CloseUdp p)
  then have ok: "listener_ok (Some p) (sy_udp s)" using assms by (simp add: syslog_ok_def)
  obtain p' ln where c: "closeIfOpen p (sy_udp s) = (p', ln)" by fastforce
  note r = closeIfOpen_ok [OF ok, unfolded c, simplified] closeIfOpen_open_Nil [of "sy_udp s" p, unfolded c, simplified]
  show ?thesis
    using assms CloseUdp r joined_thread_cong [OF r(3)]
    by (cases p') (auto simp: syslog_ok_def c listener_ok_test)
next
  case (CloseTcp p)
  then have ok: "listener_ok (Some p) (sy_tcp s)" using assms by (simp add: syslog_ok_def)
  obtain p' ln where c: "closeIfOpen p (sy_tcp s) = (p', ln)" by fastforce
  note r = closeIfOpen_ok [OF ok, unfolded c, simplified] closeIfOpen_open_Nil [of "sy_tcp s" p, unfolded c, simplified]
  show ?thesis
    using assms CloseTcp r joined_thread_cong [OF r(3)]
    by (cases p') (auto simp: syslog_ok_def c listener_ok_test)
qed (use assms in \<open>auto simp: syslog_ok_def\<close>)

lemma new_client_joined [simp]: "joined_thread ln \<Longrightarrow> new_client config a ln clients = clients"
  by (auto simp: joined_thread_def new_client_def)

lemma syslog_act_ok: "syslog_ok s \<Longrightarrow> syslog_ok (syslog_act inet_pton config act s)"
  by (cases act) (auto simp: syslog_stop_ok, auto simp: syslog_ok_def run_thread_ok)

lemma syslog_start_ok: "syslog_ok (syslog_start config)"
  by (simp add: syslog_ok_def syslog_start_def listener_begin_ok listener_new_ok)

definition web_ok :: "WebListener \<Rightarrow> bool" where
  "web_ok s \<longleftrightarrow>
     listener_ok (case wl_pc s of CloseListen p \<Rightarrow> Some p | _ \<Rightarrow> None) (wl_listener s) \<and>
     (0 < wl_stops s \<longrightarrow> joined_thread (wl_listener s)) \<and>
     (0 < wl_stops s \<and> wl_pc s = JoinWeb \<or> 1 < wl_stops s \<longrightarrow> ln_open (wl_listener s) = [])"

lemma web_stop_ok:
  assumes "web_ok s"
  shows "web_ok (web_stop (wl_pc s) s)"
proof (cases "wl_pc s")
  case (CloseListen p)
  then have ok: "listener_ok (Some p) (wl_listener s)" using assms by (simp add: web_ok_def)
  obtain p' ln where c: "closeIfOpen p (wl_listener s) = (p', ln)" by fastforce
  note r = closeIfOpen_ok [OF ok, unfolded c, simplified] closeIfOpen_open_Nil [of "wl_listener s" p, unfolded c, simplified]
  show ?thesis
    using assms CloseListen r joined_thread_cong [OF r(3)] by (cases p') (auto simp: web_ok_def c)
qed (use assms in \<open>auto simp: web_ok_def listener_ok_test\<close>)

lemma web_act_ok: "web_ok s \<Longrightarrow> web_ok (web_act inet_pton config act s)"
  by (cases act) (auto simp: web_stop_ok, auto simp: web_ok_def run_thread_ok)

lemma web_start_ok: "web_ok web_start"
  by (simp add: web_ok_def web_start_def listener_begin_ok)

interpretation syslog_sockets: invariant_system "\<lambda>s. s = syslog_start config"
    "\<lambda>s t. \<exists>act. t = syslog_act inet_pton config act s" syslog_ok for inet_pton config
  by unfold_locales (auto simp: syslog_start_ok syslog_act_ok)

interpretation web_sockets: invariant_system "\<lambda>s. s = web_start" "\<lambda>s t. \<exists>act. t = web_act inet_pton config act s" web_ok
    for inet_pton config
  by unfold_locales (auto simp: web_start_ok web_act_ok)

lemma syslog_ok_open:
  assumes "syslog_ok s"
  shows "set (ln_open (sy_udp s)) \<subseteq> {ln_fd (sy_udp s)}" "set (ln_open (sy_tcp s)) \<subseteq> {ln_fd (sy_tcp s)}"
  by (rule listener_ok_open [of "udp_stop (sy_pc s)"], use assms in \<open>simp add: syslog_ok_def\<close>,
      rule listener_ok_open [of "tcp_stop (sy_pc s)"], use assms in \<open>simp add: syslog_ok_def\<close>)

lemma web_ok_open: "web_ok s \<Longrightarrow> set (ln_open (wl_listener s)) \<subseteq> {ln_fd (wl_listener s)}"
  unfolding web_ok_def by (elim conjE) (rule listener_ok_open)

text \<open>Runs are sequences of steps.\<close>

lemma syslog_run_steps: "(\<lambda>s t. \<exists>act. t = syslog_act inet_pton config act s)\<^sup>*\<^sup>* s (syslog_run inet_pton config acts s)"
proof (induction acts arbitrary: s)
  case (Cons act acts)
  show ?case
    by (rule converse_rtranclp_into_rtranclp [of _ _ "syslog_act inet_pton config act s"])
      (use Cons.IH [of "syslog_act inet_pton config act s"] in \<open>auto simp: syslog_run_def\<close>)
qed (simp add: syslog_run_def)

lemma web_run_steps: "(\<lambda>s t. \<exists>act. t = web_act inet_pton config act s)\<^sup>*\<^sup>* s (web_run inet_pton config acts s)"
proof (induction acts arbitrary: s)
  case (Cons act acts)
  show ?case
    by (rule converse_rtranclp_into_rtranclp [of _ _ "web_act inet_pton config act s"])
      (use Cons.IH [of "web_act inet_pton config act s"] in \<open>auto simp: web_run_def\<close>)
qed (simp add: web_run_def)

lemma syslog_run_ok: "syslog_ok (syslog_run inet_pton config acts (syslog_start config))"
  by (rule syslog_sockets.steps_inv [OF syslog_run_steps syslog_start_ok])

lemma web_run_ok: "web_ok (web_run inet_pton config acts web_start)"
  by (rule web_sockets.steps_inv [OF web_run_steps web_start_ok])



section \<open>Stopping\<close>

text \<open>How many steps a thread still makes once the flag is down.\<close>

fun close_rank :: "close_pc \<Rightarrow> nat" where
  "close_rank Test = 3"
| "close_rank CloseNow = 2"
| "close_rank Clear = 1"

fun thread_rank :: "thread_pc \<Rightarrow> nat" where
  "thread_rank NotStarted = 0"
| "thread_rank Begin = 6"
| "thread_rank Binding = 5"
| "thread_rank Listening = 4"
| "thread_rank (Closing p) = close_rank p"
| "thread_rank Loop = 1"
| "thread_rank Waiting = 6"
| "thread_rank (Selecting fd) = 5"
| "thread_rank (Woken fd ready) = 4"
| "thread_rank (IsSet fd) = 3"
| "thread_rank Receiving = 2"
| "thread_rank Done = 0"

lemma thread_rank_joined: "thread_rank (ln_pc ln) = 0 \<longleftrightarrow> joined_thread ln"
proof -
  have "close_rank p \<noteq> 0" for p by (cases p) simp_all
  then show ?thesis by (cases "ln_pc ln") (simp_all add: joined_thread_def)
qed

lemma thread_rank_bound: "thread_rank pc \<le> 6"
proof -
  have "close_rank p \<le> 6" for p by (cases p) simp_all
  then show ?thesis by (cases pc) simp_all
qed

lemma run_thread_rank:
  "thread_rank (ln_pc (run_thread inet_pton config k False a ln)) \<le> thread_rank (ln_pc ln) - 1"
proof (cases "ln_pc ln")
  case (Closing p)
  then show ?thesis by (cases p) (simp_all add: run_thread_def)
qed (auto simp: run_thread_def split: option.split)

lemma closeIfOpen_pc [simp]: "ln_pc (snd (closeIfOpen p ln)) = ln_pc ln"
  by (cases p) simp_all

text \<open>How many steps a call of \<^verbatim>\<open>stop\<close> still makes once the threads have ended.\<close>

fun stop_rank :: "syslog_pc \<Rightarrow> nat" where
  "stop_rank SyslogIdle = 10"
| "stop_rank (CloseUdp p) = close_rank p + 6"
| "stop_rank (CloseTcp p) = close_rank p + 3"
| "stop_rank JoinUdp = 3"
| "stop_rank JoinTcp = 2"
| "stop_rank JoinClients = 1"

lemma stop_rank_bound: "stop_rank pc \<le> 10"
proof -
  have "close_rank p \<le> 3" for p by (cases p) simp_all
  then have "close_rank p \<le> 4" "close_rank p \<le> 7" for p by (meson le_trans numeral_le_iff semiring_norm)+
  then show ?thesis by (cases pc) simp_all
qed

lemma syslog_stop_frame [simp]:
  "ln_pc (sy_udp (syslog_stop pc s)) = ln_pc (sy_udp s)" "ln_pc (sy_tcp (syslog_stop pc s)) = ln_pc (sy_tcp s)"
  "sy_stops s \<le> sy_stops (syslog_stop pc s)"
  by (cases pc; simp add: split_beta)+

lemma syslog_stop_running: "sy_running (syslog_stop pc s) \<longleftrightarrow> sy_running s \<and> pc \<noteq> SyslogIdle"
  by (cases pc) (simp_all add: split_beta)

lemma syslog_stop_progress:
  assumes "joined_thread (sy_udp s)" "joined_thread (sy_tcp s)" "False \<notin> set (sy_clients s)" "sy_stops (syslog_stop (sy_pc s) s) = sy_stops s"
  shows "stop_rank (sy_pc (syslog_stop (sy_pc s) s)) < stop_rank (sy_pc s)"
proof (cases "sy_pc s")
  case (CloseUdp p)
  then show ?thesis by (cases p) simp_all
next
  case (CloseTcp p)
  then show ?thesis by (cases p) simp_all
qed (use assms in auto)

lemma syslog_run_append:
  "syslog_run inet_pton config (as @ bs) s = syslog_run inet_pton config bs (syslog_run inet_pton config as s)"
  by (simp add: syslog_run_def)

lemma syslog_run_Cons:
  "syslog_run inet_pton config (a # as) s = syslog_run inet_pton config as (syslog_act inet_pton config a s)"
  by (simp add: syslog_run_def)

lemma syslog_act_stops: "sy_stops s \<le> sy_stops (syslog_act inet_pton config act s)"
  by (cases act) simp_all

lemma syslog_run_stops: "sy_stops s \<le> sy_stops (syslog_run inet_pton config acts s)"
proof (induction acts arbitrary: s)
  case (Cons act acts)
  show ?case unfolding syslog_run_Cons using Cons.IH syslog_act_stops le_trans by blast
qed (simp add: syslog_run_def)

lemma stop_joined_returns:
  assumes "joined_thread (sy_udp s)" "joined_thread (sy_tcp s)" "False \<notin> set (sy_clients s)" "stop_rank (sy_pc s) \<le> n"
  shows "sy_stops s < sy_stops (syslog_run inet_pton config (replicate n StopSyslog) s)"
  using assms
proof (induction n arbitrary: s)
  case 0
  then show ?case by (cases "sy_pc s") (auto elim: close_rank.elims)
next
  case (Suc n)
  let ?t = "syslog_stop (sy_pc s) s"
  have j: "joined_thread (sy_udp ?t)" "joined_thread (sy_tcp ?t)"
    using Suc.prems(1,2) joined_thread_cong [OF syslog_stop_frame(1)] joined_thread_cong [OF syslog_stop_frame(2)] by blast+
  have c: "False \<notin> set (sy_clients ?t)" using Suc.prems(3) by (cases "sy_pc s") (simp_all add: split_beta)
  show ?case
  proof (cases "sy_stops ?t = sy_stops s")
    case True
    with syslog_stop_progress [OF Suc.prems(1-3)] Suc.prems(4) Suc.IH [OF j c]
    show ?thesis by (simp add: syslog_run_Cons)
  next
    case False
    then have "sy_stops s < sy_stops ?t" by (metis syslog_stop_frame(3) le_neq_implies_less)
    then show ?thesis using syslog_run_stops [of ?t] by (simp add: syslog_run_Cons order.strict_trans2)
  qed
qed

lemma stopped_stays: "\<not> sy_running s \<Longrightarrow> \<not> sy_running (syslog_run inet_pton config acts s)"
proof (induction acts arbitrary: s)
  case (Cons act acts)
  then show ?case by (cases act) (simp_all add: syslog_run_Cons syslog_stop_running)
qed (simp add: syslog_run_def)

lemma stop_called:
  assumes "StopSyslog \<in> set acts" "sy_running s \<Longrightarrow> sy_pc s = SyslogIdle"
  shows "\<not> sy_running (syslog_run inet_pton config acts s)"
  using assms
proof (induction acts arbitrary: s)
  case (Cons act acts)
  show ?case
  proof (cases "act = StopSyslog")
    case True
    have "\<not> sy_running (syslog_stop (sy_pc s) s)"
      using Cons.prems(2) by (auto simp: syslog_stop_running)
    then show ?thesis using stopped_stays True by (simp add: syslog_run_Cons)
  next
    case False
    then show ?thesis
      using Cons.prems Cons.IH [of "syslog_act inet_pton config act s"] by (cases act) (auto simp: syslog_run_Cons)
  qed
qed simp

lemma udp_thread_ends:
  assumes "\<not> sy_running s"
  shows "thread_rank (ln_pc (sy_udp (syslog_run inet_pton config acts s)))
         \<le> thread_rank (ln_pc (sy_udp s)) - length (filter is_RunUdp acts)"
  using assms
proof (induction acts arbitrary: s)
  case (Cons act acts)
  let ?t = "syslog_act inet_pton config act s"
  have t: "\<not> sy_running ?t" using Cons.prems stopped_stays [of s inet_pton config "[act]"] by (simp add: syslog_run_def)
  have "thread_rank (ln_pc (sy_udp ?t)) \<le> thread_rank (ln_pc (sy_udp s)) - (if is_RunUdp act then 1 else 0)"
    using Cons.prems run_thread_rank by (cases act) simp_all
  with Cons.IH [OF t] show ?case by (auto simp: syslog_run_Cons split: if_splits)
qed (simp add: syslog_run_def)

lemma tcp_thread_ends:
  assumes "\<not> sy_running s"
  shows "thread_rank (ln_pc (sy_tcp (syslog_run inet_pton config acts s)))
         \<le> thread_rank (ln_pc (sy_tcp s)) - length (filter is_RunTcp acts)"
  using assms
proof (induction acts arbitrary: s)
  case (Cons act acts)
  let ?t = "syslog_act inet_pton config act s"
  have t: "\<not> sy_running ?t" using Cons.prems stopped_stays [of s inet_pton config "[act]"] by (simp add: syslog_run_def)
  have "thread_rank (ln_pc (sy_tcp ?t)) \<le> thread_rank (ln_pc (sy_tcp s)) - (if is_RunTcp act then 1 else 0)"
    using Cons.prems run_thread_rank by (cases act) simp_all
  with Cons.IH [OF t] show ?case by (auto simp: syslog_run_Cons split: if_splits)
qed (simp add: syslog_run_def)

lemma clients_end:
  "\<exists>t. syslog_run inet_pton config (map EndClient [0..<length (sy_clients s)]) s = t \<and> False \<notin> set (sy_clients t) \<and>
       sy_udp t = sy_udp s \<and> sy_tcp t = sy_tcp s \<and> sy_pc t = sy_pc s \<and> sy_stops t = sy_stops s"
proof -
  have "n \<le> length (sy_clients s) \<Longrightarrow>
      syslog_run inet_pton config (map EndClient [0..<n]) s = s\<lparr>sy_clients := replicate n True @ drop n (sy_clients s)\<rparr>" for n
  proof (induction n)
    case (Suc n)
    then have "drop n (sy_clients s) = sy_clients s ! n # drop (Suc n) (sy_clients s)" by (simp add: Cons_nth_drop_Suc)
    with Suc show ?case by (simp add: syslog_run_append syslog_run_def list_update_append replicate_append_same)
  qed (simp add: syslog_run_def)
  from this [OF order_refl] show ?thesis by (simp add: set_replicate_conv_if)
qed

text \<open>
  C18: Stopping ends: once \<^verbatim>\<open>stop\<close> has been called, wherever the threads are and whatever the system calls
  answer, both listening threads have ended after six more steps each; and ten steps of \<^verbatim>\<open>stop\<close> after the
  threads of the connections have ended too, a call of it has returned.
\<close>

theorem syslog_stop_returns:
  assumes "StopSyslog \<in> set before" "6 \<le> length (filter is_RunUdp during)" "6 \<le> length (filter is_RunTcp during)"
    and t: "t = syslog_run inet_pton config (before @ during) (syslog_start config)"
  shows "joined_thread (sy_udp t) \<and> joined_thread (sy_tcp t) \<and>
         sy_stops (syslog_run inet_pton config before (syslog_start config)) <
           sy_stops (syslog_run inet_pton config (map EndClient [0..<length (sy_clients t)] @ replicate 10 StopSyslog) t)"
proof -
  let ?s = "syslog_run inet_pton config before (syslog_start config)"
  have ts: "t = syslog_run inet_pton config during ?s" by (simp add: t syslog_run_append)
  have "\<not> sy_running ?s" using stop_called [OF assms(1)] by (simp add: syslog_start_def)
  from udp_thread_ends [OF this, of inet_pton config during] tcp_thread_ends [OF this, of inet_pton config during]
    assms(2,3) thread_rank_bound
  have j: "joined_thread (sy_udp t)" "joined_thread (sy_tcp t)"
    unfolding ts by (metis diff_is_0_eq le_trans le_zero_eq thread_rank_joined)+
  from clients_end [of inet_pton config t] obtain u where
    u: "syslog_run inet_pton config (map EndClient [0..<length (sy_clients t)]) t = u" "False \<notin> set (sy_clients u)"
      "sy_udp u = sy_udp t" "sy_tcp u = sy_tcp t" "sy_stops u = sy_stops t" by blast
  have "sy_stops u < sy_stops (syslog_run inet_pton config (replicate 10 StopSyslog) u)"
    using stop_joined_returns [OF _ _ u(2) stop_rank_bound] j u(3,4) by simp
  with syslog_run_stops [of ?s inet_pton config during] u(5) have
    "sy_stops ?s < sy_stops (syslog_run inet_pton config (replicate 10 StopSyslog) u)" by (simp only: ts)
  with j show ?thesis by (simp only: syslog_run_append u(1) simp_thms)
qed

theorem syslog_stop_returns_witness:
  "\<exists>acts. 0 < sy_stops (syslog_run (\<lambda>_. None) default_config acts
     (syslog_run (\<lambda>_. None) default_config
       ([StopSyslog] @ concat (replicate 6 [RunUdp \<lparr>an_fd = 5, an_ok = True, an_peer = []\<rparr>, RunTcp \<lparr>an_fd = 6, an_ok = False, an_peer = []\<rparr>]))
       (syslog_start default_config)))"
proof -
  let ?during = "concat (replicate 6 [RunUdp \<lparr>an_fd = 5, an_ok = True, an_peer = []\<rparr>, RunTcp \<lparr>an_fd = 6, an_ok = False, an_peer = []\<rparr>])"
  have "6 \<le> length (filter is_RunUdp ?during)" "6 \<le> length (filter is_RunTcp ?during)" by (simp_all add: numeral_eq_Suc)
  from syslog_stop_returns [of "[StopSyslog]", OF _ this refl, of "\<lambda>_. None" default_config] show ?thesis
    by (metis gr_zeroI list.set_intros(1) not_less_zero)
qed

section \<open>Faults\<close>

text \<open>A thread that nobody stops: from \<^verbatim>\<open>socket\<close> to its end the member holds an open descriptor.\<close>

definition holds_open :: "thread_pc \<Rightarrow> bool" where
  "holds_open pc \<longleftrightarrow> pc \<notin> {NotStarted, Begin, Closing Clear, Done}"

definition undisturbed :: "Listener \<Rightarrow> bool" where
  "undisturbed ln \<longleftrightarrow> ln_faults ln = [] \<and> (holds_open (ln_pc ln) \<longrightarrow> ln_open ln = [ln_fd ln] \<and> 0 \<le> ln_fd ln) \<and>
     (ln_pc ln = Begin \<longrightarrow> ln_open ln = [])"

lemma run_thread_undisturbed:
  assumes "undisturbed ln"
  shows "undisturbed (run_thread inet_pton config k running a ln)"
proof (cases "ln_pc ln")
  case (Closing p)
  then show ?thesis using assms by (cases p) (auto simp: undisturbed_def holds_open_def run_thread_def sys_close_def)
qed (use assms in \<open>auto simp: undisturbed_def holds_open_def run_thread_def fd_check_def split: option.split\<close>)

lemma listener_begin_undisturbed: "undisturbed (listener_new\<lparr>ln_pc := Begin\<rparr>)" "undisturbed listener_new"
  by (simp_all add: undisturbed_def holds_open_def listener_new_def)

lemma syslog_run_undisturbed:
  assumes "sy_running (syslog_run inet_pton config acts s)" "undisturbed (sy_udp s)" "undisturbed (sy_tcp s)"
    and "sy_pc s = SyslogIdle"
  shows "undisturbed (sy_udp (syslog_run inet_pton config acts s)) \<and> undisturbed (sy_tcp (syslog_run inet_pton config acts s))"
  using assms
proof (induction acts arbitrary: s)
  case (Cons act acts)
  show ?case
  proof (cases act)
    case StopSyslog
    have "\<not> sy_running (syslog_act inet_pton config act s)" using StopSyslog Cons.prems(4) by simp
    then show ?thesis using stopped_stays Cons.prems(1) by (simp add: syslog_run_Cons)
  qed (use Cons run_thread_undisturbed in \<open>simp_all add: syslog_run_Cons\<close>)
qed (simp add: syslog_run_def)

lemma no_stop_running: "StopSyslog \<notin> set acts \<Longrightarrow> sy_running (syslog_run inet_pton config acts s) = sy_running s"
proof (induction acts arbitrary: s)
  case (Cons act acts)
  then show ?case by (cases act) (simp_all add: syslog_run_Cons)
qed (simp add: syslog_run_def)

text \<open>
  C36: The descriptors are misused only while the server is being stopped. Without a call of \<^verbatim>\<open>stop\<close> no run has a
  fault; but \<^verbatim>\<open>stop\<close> closes and clears the member while the thread still uses it, so that there are runs in
  which the thread executes \<^verbatim>\<open>FD_SET\<close> on the descriptor -1, which is undefined, and runs in which a descriptor is
  closed twice, when \<^verbatim>\<open>bind\<close> fails at the same time.
\<close>

theorem stop_races:
  assumes "enable_udp config" "parseAddress (syslog_udp_addr config) = Some address" "0 \<le> fd"
  shows "(\<forall>acts. StopSyslog \<notin> set acts \<longrightarrow> ln_faults (sy_udp (syslog_run inet_pton config acts (syslog_start config))) = []) \<and>
         (\<exists>acts. ln_faults (sy_udp (syslog_run inet_pton config acts (syslog_start config))) = [NegativeDescriptor]) \<and>
         (\<exists>acts. ln_faults (sy_udp (syslog_run inet_pton config acts (syslog_start config))) = [StrayClose fd])"
proof (intro conjI allI impI)
  fix acts
  assume "StopSyslog \<notin> set acts"
  then have "sy_running (syslog_run inet_pton config acts (syslog_start config))"
    by (simp add: no_stop_running) (simp add: syslog_start_def)
  from syslog_run_undisturbed [OF this] listener_begin_undisturbed
  show "ln_faults (sy_udp (syslog_run inet_pton config acts (syslog_start config))) = []"
    unfolding syslog_start_def undisturbed_def by (auto split: if_splits)
next
  let ?a = "RunUdp \<lparr>an_fd = fd, an_ok = True, an_peer = []\<rparr>" and ?fail = "RunUdp \<lparr>an_fd = fd, an_ok = False, an_peer = []\<rparr>"
  have "ln_faults (sy_udp (syslog_run inet_pton config [?a, ?a, ?a, StopSyslog, StopSyslog, StopSyslog, StopSyslog, ?a]
      (syslog_start config))) = [NegativeDescriptor]"
    using assms by (simp add: run_defs)
  then show "\<exists>acts. ln_faults (sy_udp (syslog_run inet_pton config acts (syslog_start config))) = [NegativeDescriptor]" ..
  have "ln_faults (sy_udp (syslog_run inet_pton config [?a, ?fail, ?fail, StopSyslog, StopSyslog, StopSyslog, ?fail]
      (syslog_start config))) = [StrayClose fd]"
    using assms by (simp add: run_defs)
  then show "\<exists>acts. ln_faults (sy_udp (syslog_run inet_pton config acts (syslog_start config))) = [StrayClose fd]" ..
qed

theorem stop_races_witness:
  "\<exists>acts. ln_faults (sy_udp (syslog_run (\<lambda>_. None) default_config acts (syslog_start default_config))) = [NegativeDescriptor]"
proof -
  have "enable_udp default_config"
    "parseAddress (syslog_udp_addr default_config) = Some \<lparr>ad_host = ''0.0.0.0'', ad_port = 1514\<rparr>" by code_simp+
  from stop_races [OF this zero_le_numeral, where inet_pton = "\<lambda>_. None"] show ?thesis by blast
qed

text \<open>
  The threads of ended connections are not reclaimed while the server runs: for every number of connections
  there is a run without \<^verbatim>\<open>stop\<close> after which all of them have ended and the server still holds a thread for each.
\<close>

theorem client_threads_accumulate:
  assumes "enable_tcp config" "parseAddress (syslog_tcp_addr config) = Some address" "shouldAccept config peer"
  shows "\<exists>acts. StopSyslog \<notin> set acts \<and> sy_clients (syslog_run inet_pton config acts (syslog_start config)) = replicate n True"
proof -
  let ?a = "RunTcp \<lparr>an_fd = 3, an_ok = True, an_peer = peer\<rparr>"
  let ?run = "\<lambda>n. syslog_run inet_pton config ([?a, ?a, ?a] @ concat (map (\<lambda>i. [?a, ?a, ?a, ?a, ?a, EndClient i]) [0..<n])) (syslog_start config)"
  have "sy_running (?run n) \<and> ln_pc (sy_tcp (?run n)) = Loop \<and> ln_fd (sy_tcp (?run n)) = 3 \<and> ln_open (sy_tcp (?run n)) = [3] \<and>
      sy_clients (?run n) = replicate n True" for n
  proof (induction n)
    case 0
    show ?case using assms by (simp add: run_defs new_client_def)
  next
    case (Suc n)
    have "?run (Suc n) = syslog_run inet_pton config [?a, ?a, ?a, ?a, ?a, EndClient n] (?run n)"
      by (simp add: syslog_run_def)
    moreover have "sy_running t \<and> ln_pc (sy_tcp t) = Loop \<and> ln_fd (sy_tcp t) = 3 \<and> ln_open (sy_tcp t) = [3] \<and>
        sy_clients t = replicate n True @ [True]"
      if "sy_running s" "ln_pc (sy_tcp s) = Loop" "ln_fd (sy_tcp s) = 3" "ln_open (sy_tcp s) = [3]" "sy_clients s = replicate n True"
        "t = syslog_run inet_pton config [?a, ?a, ?a, ?a, ?a, EndClient n] s" for s t
      using that assms(3) by (simp add: syslog_run_def run_thread_def succeeds_def fd_check_def new_client_def list_update_append)
    ultimately show ?case using Suc by (simp only: replicate_append_same replicate_Suc)
  qed
  then show ?thesis by (intro exI [of _ "[?a, ?a, ?a] @ concat (map (\<lambda>i. [?a, ?a, ?a, ?a, ?a, EndClient i]) [0..<n])"]) auto
qed

theorem client_threads_accumulate_witness:
  "\<exists>acts. sy_clients (syslog_run (\<lambda>_. None) (default_config\<lparr>enable_tcp := True\<rparr>) acts
     (syslog_start (default_config\<lparr>enable_tcp := True\<rparr>))) = replicate 1000 True"
proof -
  have "enable_tcp (default_config\<lparr>enable_tcp := True\<rparr>)"
    "parseAddress (syslog_tcp_addr (default_config\<lparr>enable_tcp := True\<rparr>)) = Some \<lparr>ad_host = ''0.0.0.0'', ad_port = 1514\<rparr>"
    "shouldAccept (default_config\<lparr>enable_tcp := True\<rparr>) ''10.0.0.1''" by code_simp+
  from client_threads_accumulate [OF this, of "\<lambda>_. None" 1000] show ?thesis by blast
qed

section \<open>Addresses\<close>

lemma run_thread_bound:
  assumes "ln_bound ln = None \<or> ln_bound ln = map_option (makeSockaddr inet_pton) (parseAddress (listen_addr k config))"
  shows "ln_bound (run_thread inet_pton config k running a ln) = None \<or>
         ln_bound (run_thread inet_pton config k running a ln) = map_option (makeSockaddr inet_pton) (parseAddress (listen_addr k config))"
proof (cases "ln_pc ln")
  case (Closing p)
  then show ?thesis using assms by (cases p) (auto simp: run_thread_def)
qed (use assms in \<open>auto simp: run_thread_def split: option.split\<close>)

lemma web_stop_bound: "ln_bound (wl_listener (web_stop pc s)) = ln_bound (wl_listener s)"
proof -
  have "ln_bound (snd (closeIfOpen p ln)) = ln_bound ln" for p ln by (cases p) simp_all
  then show ?thesis by (cases pc) (simp_all add: split_beta)
qed

lemma web_run_bound:
  assumes "ln_bound (wl_listener s) = None \<or> ln_bound (wl_listener s) = map_option (makeSockaddr inet_pton) (parseAddress (http_addr config))"
  shows "ln_bound (wl_listener (web_run inet_pton config acts s)) = None \<or>
         ln_bound (wl_listener (web_run inet_pton config acts s)) = map_option (makeSockaddr inet_pton) (parseAddress (http_addr config))"
  using assms
proof (induction acts arbitrary: s)
  case (Cons act acts)
  let ?t = "web_act inet_pton config act s"
  have "ln_bound (wl_listener ?t) = None \<or> ln_bound (wl_listener ?t) = map_option (makeSockaddr inet_pton) (parseAddress (http_addr config))"
    using Cons.prems run_thread_bound [of "wl_listener s" inet_pton Http config] by (cases act) (simp_all add: web_stop_bound)
  from Cons.IH [OF this] show ?case by (simp add: web_run_def)
qed (simp add: web_run_def)

text \<open>
  A host name opens the dashboard to every network: \<^verbatim>\<open>inet_pton\<close> accepts digits and dots only, and when it does
  not accept the configured host the server listens on all interfaces. So with \<^verbatim>\<open>localhost:8080\<close>, if the web
  server listens at all, it does on 0.0.0.0; it never falls back to the local interface or refuses the setting.
\<close>

theorem host_name_listens_everywhere:
  assumes pton: "\<And>h a. inet_pton h = Some a \<Longrightarrow> set h \<subseteq> set ''0123456789.''"
    and "http_addr config = host @ CHR '':'' # show_nat (unat port)" "0 < port" "\<not> isspace (hd host)"
    and "c \<in> set host" "c \<notin> set ''0123456789.''" "CHR 0x00 \<notin> set host"
  shows "(\<forall>acts. ln_bound (wl_listener (web_run inet_pton config acts web_start)) \<in> {None, Some \<lparr>sin_port = port, sin_addr = 0\<rparr>}) \<and>
         (\<exists>acts. ln_bound (wl_listener (web_run inet_pton config acts web_start)) = Some \<lparr>sin_port = port, sin_addr = 0\<rparr>)"
proof (intro conjI allI)
  have "host \<noteq> []" using assms(5) by auto
  with parseAddress_render [of port host] assms(2-4)
  have p: "parseAddress (http_addr config) = Some \<lparr>ad_host = host, ad_port = port\<rparr>" by simp
  have t: "takeWhile (\<lambda>c. c \<noteq> CHR 0x00) host = host" using assms(7) unfolding takeWhile_eq_all_conv by blast
  have "inet_pton host = None" using pton [of host] assms(5,6) by (cases "inet_pton host") blast+
  then have m: "makeSockaddr inet_pton \<lparr>ad_host = host, ad_port = port\<rparr> = \<lparr>sin_port = port, sin_addr = 0\<rparr>"
    unfolding makeSockaddr_def by (simp only: t Address.simps option.case)
  show "ln_bound (wl_listener (web_run inet_pton config acts web_start)) \<in> {None, Some \<lparr>sin_port = port, sin_addr = 0\<rparr>}" for acts
    using web_run_bound [of web_start inet_pton config acts] by (simp add: p m web_start_def listener_new_def)
  have "ln_bound (wl_listener (web_run inet_pton config (replicate 2 (RunWeb \<lparr>an_fd = 3, an_ok = True, an_peer = []\<rparr>)) web_start)) =
    Some \<lparr>sin_port = port, sin_addr = 0\<rparr>"
    by (simp add: run_defs p m numeral_eq_Suc)
  then show "\<exists>acts. ln_bound (wl_listener (web_run inet_pton config acts web_start)) = Some \<lparr>sin_port = port, sin_addr = 0\<rparr>" ..
qed

text \<open>An \<open>inet_pton\<close> that knows one address.\<close>

theorem host_name_listens_everywhere_witness:
  "\<exists>acts. ln_bound (wl_listener (web_run (\<lambda>h. if h = ''127.0.0.1'' then Some 0x7F000001 else None)
     (default_config\<lparr>http_addr := ''localhost'' @ CHR '':'' # show_nat (unat (8080 :: u16))\<rparr>) acts web_start)) = Some \<lparr>sin_port = 8080, sin_addr = 0\<rparr>"
  by (rule conjunct2 [OF host_name_listens_everywhere [where c = "CHR ''l''" and host = "''localhost''"]])
    (auto simp: isspace_def split: if_splits)

end
