(* ===== verification/Netmon_Format.thy ===== *)
theory Netmon_Format
  imports Netmon_Types
begin

text \<open>
  Text output of the standard library as the sources use it: integers, the UTC calendar behind
  \<^verbatim>\<open>formatIso8601\<close> (\<^verbatim>\<open>src/src/utils.cpp\<close>), and floating-point numbers in the default format of an output
  stream (six significant digits) and with a fixed number of decimals.
\<close>

section \<open>Integers\<close>

definition show_int :: "int \<Rightarrow> string" where
  "show_int n = (if n < 0 then CHR ''-'' # show_nat (nat (- n)) else show_nat (nat n))"

definition pad2 :: "int \<Rightarrow> string" where
  "pad2 n = (if n < 10 then CHR ''0'' # show_int n else show_int n)"

section \<open>The calendar\<close>

definition leap_year :: "int \<Rightarrow> bool" where
  "leap_year y \<longleftrightarrow> 4 dvd y \<and> (\<not> 100 dvd y \<or> 400 dvd y)"

definition year_days :: "int \<Rightarrow> int" where
  "year_days y = (if leap_year y then 366 else 365)"

definition month_days :: "int \<Rightarrow> int list" where
  "month_days y = [31, if leap_year y then 29 else 28, 31, 30, 31, 30, 31, 31, 30, 31, 30, 31]"

text \<open>The year of a day counted from the first day of year \<open>y\<close>, and the day counted from the first of that year.\<close>

function year_of_day :: "int \<Rightarrow> int \<Rightarrow> int \<times> int" where
  "year_of_day y d =
     (if d < 0 then year_of_day (y - 1) (d + year_days (y - 1))
      else if year_days y \<le> d then year_of_day (y + 1) (d - year_days y)
      else (y, d))"
  by pat_completeness auto
termination year_of_day
  by (relation "measure (\<lambda>(y, d). if d < 0 then nat (- d) + 366 else nat d)")
     (auto simp: year_days_def split: if_splits)

declare year_of_day.simps [simp del]

text \<open>The month and the day of the month (both from 1) of a day of the year (from 0).\<close>

fun month_of_day :: "int list \<Rightarrow> int \<Rightarrow> int \<times> int" where
  "month_of_day [] d = (1, d + 1)"
| "month_of_day (n # ns) d =
     (if d < n then (1, d + 1) else (let (m, r) = month_of_day ns (d - n) in (m + 1, r)))"

record tm =
  tm_year :: int
  tm_mon :: int
  tm_mday :: int
  tm_hour :: int
  tm_min :: int
  tm_sec :: int

text \<open>\<^verbatim>\<open>gmtime_r\<close>, with the year and the month as they are printed.\<close>

definition gmtime_r :: "int \<Rightarrow> tm" where
  "gmtime_r raw =
     (let days = raw div 86400; secs = raw mod 86400;
          (y, d) = year_of_day 1970 days; (m, md) = month_of_day (month_days y) d
      in \<lparr>tm_year = y, tm_mon = m, tm_mday = md,
          tm_hour = secs div 3600, tm_min = secs mod 3600 div 60, tm_sec = secs mod 60\<rparr>)"

text \<open>Whole seconds of a time point, as \<^verbatim>\<open>to_time_t\<close> and \<^verbatim>\<open>duration_cast\<close> give them: rounded towards zero.\<close>

definition to_time_t :: "time \<Rightarrow> int" where
  "to_time_t t = (if t < 0 then - ((- t) div ns_per_s) else t div ns_per_s)"

definition put_time :: "tm \<Rightarrow> string" where
  "put_time t =
     show_int (tm_year t) @ ''-'' @ pad2 (tm_mon t) @ ''-'' @ pad2 (tm_mday t) @ ''T'' @
     pad2 (tm_hour t) @ '':'' @ pad2 (tm_min t) @ '':'' @ pad2 (tm_sec t) @ ''Z''"

definition formatIso8601 :: "time \<Rightarrow> string" where
  "formatIso8601 tp = (if tp = 0 then [] else put_time (gmtime_r (to_time_t tp)))"

section \<open>Floating-point numbers\<close>

text \<open>\<^verbatim>\<open>std::fixed\<close> with \<open>p\<close> decimals.\<close>

definition show_fixed :: "nat \<Rightarrow> double \<Rightarrow> string" where
  "show_fixed p x =
     (let s = show_nat (nat (round_half_even (\<bar>x\<bar> * 10 ^ p)));
          ds = replicate (Suc p - length s) (CHR ''0'') @ s;
          body = take (length ds - p) ds @ CHR ''.'' # drop (length ds - p) ds
      in if x < 0 then CHR ''-'' # body else body)"

text \<open>
  The default format: six significant digits, in positional notation if the decimal exponent is from
  -4 to 5 and in scientific notation otherwise, without trailing zeros.
\<close>

definition significant :: "double \<Rightarrow> int \<times> nat" where
  "significant x =
     (let e = ilog 10 x; m = nat (round_half_even (x * 10 powi (5 - e)))
      in if m = 10 ^ 6 then (e + 1, 10 ^ 5) else (e, m))"

definition strip_zeros :: "string \<Rightarrow> string" where
  "strip_zeros ds = rev (dropWhile (\<lambda>c. c = CHR ''0'') (rev ds))"

definition with_fraction :: "string \<Rightarrow> string \<Rightarrow> string" where
  "with_fraction whole ds =
     (let f = strip_zeros ds in if f = [] then whole else whole @ CHR ''.'' # f)"

definition show_exponent :: "int \<Rightarrow> string" where
  "show_exponent e = CHR ''e'' # (if e < 0 then CHR ''-'' else CHR ''+'') # pad2 \<bar>e\<bar>"

definition show_positive :: "double \<Rightarrow> string" where
  "show_positive x =
     (let (e, m) = significant x; ds = show_nat m
      in if e < - 4 \<or> 6 \<le> e then with_fraction (take 1 ds) (drop 1 ds) @ show_exponent e
         else if e < 0 then with_fraction ''0'' (replicate (nat (- e) - 1) (CHR ''0'') @ ds)
         else with_fraction (take (nat e + 1) ds) (drop (nat e + 1) ds))"

definition show_double :: "double \<Rightarrow> string" where
  "show_double x = (if x = 0 then ''0'' else if x < 0 then CHR ''-'' # show_positive (- x) else show_positive x)"

section \<open>Printed integers\<close>

lemma nat_of_digits_show_int: "0 \<le> n \<Longrightarrow> int (nat_of_digits (show_int n)) = n"
  by (simp add: show_int_def)

lemma length_show_nat: "0 < k \<Longrightarrow> length (show_nat n) \<le> k \<longleftrightarrow> n < 10 ^ k"
proof (induction n arbitrary: k rule: show_nat.induct)
  case (1 n)
  show ?case
  proof (cases "n < 10")
    case True
    have "(10::nat) ^ 1 \<le> 10 ^ k" using 1(2) by (intro power_increasing) simp_all
    with True 1(2) show ?thesis by (subst show_nat.simps) simp
  next
    case False
    then obtain j where k: "k = Suc j" using 1(2) by (cases k) auto
    have "length (show_nat n) \<le> k \<longleftrightarrow> length (show_nat (n div 10)) \<le> j"
      using False k by (subst show_nat.simps) simp
    also have "\<dots> \<longleftrightarrow> n div 10 < 10 ^ j"
      using 1(1) [OF False, of j] False by (cases "j = 0") simp_all
    also have "\<dots> \<longleftrightarrow> n < 10 ^ k" by (simp add: k div_less_iff_less_mult ac_simps)
    finally show ?thesis .
  qed
qed

lemma length_show_nat_eq: "10 ^ k \<le> n \<Longrightarrow> n < 10 ^ Suc k \<Longrightarrow> length (show_nat n) = Suc k"
proof -
  assume n: "10 ^ k \<le> n" "n < 10 ^ Suc k"
  then have "length (show_nat n) \<le> Suc k" by (simp add: length_show_nat del: power_Suc)
  moreover have "\<not> length (show_nat n) \<le> k"
    using n length_show_nat [of k n] by (cases "k = 0") simp_all
  ultimately show ?thesis by simp
qed

lemma pad2: "0 \<le> n \<Longrightarrow> n < 100 \<Longrightarrow> length (pad2 n) = 2 \<and> int (nat_of_digits (pad2 n)) = n"
proof -
  assume n: "0 \<le> n" "n < 100"
  have "nat_of_digits (CHR ''0'' # s) = nat_of_digits s" for s by (simp add: nat_of_digits_def digit_val_def)
  moreover have "n < 10 \<Longrightarrow> length (show_nat (nat n)) = 1" by (subst show_nat.simps) simp
  moreover have "10 \<le> n \<Longrightarrow> length (show_nat (nat n)) = Suc 1" using n by (intro length_show_nat_eq) simp_all
  ultimately show ?thesis using n by (auto simp: pad2_def show_int_def)
qed

section \<open>The calendar is correct\<close>

text \<open>
  The reference: the number of days from 1 January 1970 to 1 January of year \<open>y\<close>, counting leap days in
  closed form, and the seconds since the epoch of a date and time of day.
\<close>

definition leap_days :: "int \<Rightarrow> int" where
  "leap_days y = (y - 1) div 4 - (y - 1) div 100 + (y - 1) div 400"

definition day_number :: "int \<Rightarrow> int" where
  "day_number y = 365 * (y - 1970) + leap_days y - leap_days 1970"

definition unix_time :: "int \<Rightarrow> int \<Rightarrow> int \<Rightarrow> int \<Rightarrow> int \<Rightarrow> int \<Rightarrow> int" where
  "unix_time y m d h mi s =
     (day_number y + sum_list (take (nat (m - 1)) (month_days y)) + (d - 1)) * 86400 + h * 3600 + mi * 60 + s"

lemma div_pred: "0 < n \<Longrightarrow> (y :: int) div n = (y - 1) div n + (if n dvd y then 1 else 0)"
proof -
  assume n: "0 < n"
  have y: "y = n * (y div n) + y mod n" by simp
  show ?thesis
  proof (cases "n dvd y")
    case True
    then have "y - 1 = n * (y div n - 1) + (n - 1)" using y by (simp add: algebra_simps)
    then have "(y - 1) div n = y div n - 1" by (rule int_div_pos_eq) (use n in simp_all)
    with True show ?thesis by simp
  next
    case False
    then have "y mod n \<noteq> 0" by (simp add: dvd_eq_mod_eq_0)
    then have "0 \<le> y mod n - 1" "y mod n - 1 < n"
      using pos_mod_sign [OF n, of y] pos_mod_bound [OF n, of y] by linarith+
    moreover have "y - 1 = n * (y div n) + (y mod n - 1)" using y by simp
    ultimately have "(y - 1) div n = y div n" by (metis int_div_pos_eq)
    with False show ?thesis by simp
  qed
qed

lemma leap_days_step: "leap_days (y + 1) = leap_days y + (if leap_year y then 1 else 0)"
proof -
  let ?i = "\<lambda>n. if n dvd y then 1 else 0 :: int"
  have sum: "x1 = z1 + i1 \<Longrightarrow> x2 = z2 + i2 \<Longrightarrow> x3 = z3 + i3 \<Longrightarrow> x1 - x2 + x3 = z1 - z2 + z3 + (i1 - i2 + i3)"
    for x1 x2 x3 z1 z2 z3 i1 i2 i3 :: int by simp
  have "leap_days (y + 1) = y div 4 - y div 100 + y div 400" by (simp add: leap_days_def)
  also have "\<dots> = leap_days y + (?i 4 - ?i 100 + ?i 400)"
    unfolding leap_days_def by (rule sum; rule div_pred; simp)
  also have "?i 4 - ?i 100 + ?i 400 = (if leap_year y then 1 else 0)"
  proof (cases "100 dvd y")
    case True
    moreover from True have "4 dvd y" by (rule dvd_trans [rotated]) simp
    ultimately show ?thesis by (simp add: leap_year_def)
  next
    case False
    moreover from False have "\<not> 400 dvd y" using dvd_trans [of 100 400 y] by auto
    ultimately show ?thesis by (simp add: leap_year_def)
  qed
  finally show ?thesis .
qed

lemma day_number_step: "day_number (y + 1) = day_number y + year_days y"
  by (simp add: day_number_def leap_days_step year_days_def)

lemma year_of_day:
  "year_of_day y d = (y', d') \<Longrightarrow> day_number y' + d' = day_number y + d \<and> 0 \<le> d' \<and> d' < year_days y'"
proof (induction y d rule: year_of_day.induct)
  case (1 y d)
  have "year_of_day y d = (if d < 0 then year_of_day (y - 1) (d + year_days (y - 1))
      else if year_days y \<le> d then year_of_day (y + 1) (d - year_days y) else (y, d))"
    by (rule year_of_day.simps)
  with 1 show ?case
    using day_number_step [of "y - 1"] day_number_step [of y] by (auto split: if_splits)
qed

lemma month_of_day:
  "0 \<le> d \<Longrightarrow> d < sum_list ns \<Longrightarrow> month_of_day ns d = (m, md) \<Longrightarrow>
   1 \<le> m \<and> m \<le> int (length ns) \<and> 1 \<le> md \<and> md \<le> ns ! nat (m - 1)
   \<and> sum_list (take (nat (m - 1)) ns) + (md - 1) = d"
proof (induction ns arbitrary: d m md)
  case (Cons n ns)
  show ?case
  proof (cases "d < n")
    case False
    obtain m1 r where r: "month_of_day ns (d - n) = (m1, r)" by force
    with Cons.prems False have m: "m = m1 + 1" "md = r" by auto
    have IH: "1 \<le> m1 \<and> m1 \<le> int (length ns) \<and> 1 \<le> r \<and> r \<le> ns ! nat (m1 - 1)
        \<and> sum_list (take (nat (m1 - 1)) ns) + (r - 1) = d - n"
      using Cons.prems False r by (intro Cons.IH) auto
    then have "nat m1 = Suc (nat (m1 - 1))" by arith
    then show ?thesis using IH by (simp add: m)
  qed (use Cons.prems in auto)
qed simp

lemma month_days_sum: "sum_list (month_days y) = year_days y" "length (month_days y) = 12"
  by (simp_all add: month_days_def year_days_def)

lemma month_days_le: "i < 12 \<Longrightarrow> month_days y ! i \<le> 31"
  by (auto simp: month_days_def nth_Cons split: nat.split)

lemma gmtime_r:
  fixes raw :: int
  defines "t \<equiv> gmtime_r raw"
  shows "unix_time (tm_year t) (tm_mon t) (tm_mday t) (tm_hour t) (tm_min t) (tm_sec t) = raw"
    and "1 \<le> tm_mon t" "tm_mon t \<le> 12" "1 \<le> tm_mday t" "tm_mday t \<le> month_days (tm_year t) ! nat (tm_mon t - 1)"
    and "0 \<le> tm_hour t" "tm_hour t < 24" "0 \<le> tm_min t" "tm_min t < 60" "0 \<le> tm_sec t" "tm_sec t < 60"
    and "day_number (tm_year t) \<le> raw div 86400" "raw div 86400 < day_number (tm_year t + 1)"
proof -
  define R s where "R = raw div 86400" and "s = raw mod 86400"
  define S M where "S = s mod 3600" and "M = S div 60"
  obtain y d where yd: "year_of_day 1970 R = (y, d)" by force
  obtain m md where m: "month_of_day (month_days y) d = (m, md)" by force
  have d: "day_number y + d = R" "0 \<le> d" "d < year_days y"
    using year_of_day [OF yd] by (simp_all add: day_number_def)
  note md = month_of_day [OF d(2) _ m, unfolded month_days_sum, OF d(3)]
  have "S mod 60 = s mod 60" unfolding S_def by (rule mod_mod_cancel) simp
  then have split: "raw = R * 86400 + s" "s = s div 3600 * 3600 + S" "S = M * 60 + s mod 60"
    unfolding R_def s_def S_def M_def by (metis div_mult_mod_eq)+
  have "0 \<le> s" "s < 86400" "0 \<le> S" "S < 3600" "0 \<le> s mod 60" "s mod 60 < 60"
    unfolding s_def S_def by (rule pos_mod_sign pos_mod_bound; simp)+
  then have h: "0 \<le> s div 3600" "s div 3600 \<le> 86399 div 3600" and mi: "0 \<le> M" "M \<le> 3599 div 60"
    and sec: "0 \<le> s mod 60" "s mod 60 < 60"
    unfolding M_def by (auto intro!: zdiv_mono1 pos_imp_zdiv_nonneg_iff [THEN iffD2])
  have t: "t = \<lparr>tm_year = y, tm_mon = m, tm_mday = md, tm_hour = s div 3600, tm_min = M, tm_sec = s mod 60\<rparr>"
    unfolding t_def gmtime_r_def Let_def R_def [symmetric] s_def [symmetric] S_def [symmetric] M_def [symmetric]
    by (simp add: yd m)
  from md have "sum_list (take (nat (m - 1)) (month_days y)) + (md - 1) = d" by blast
  with d(1) have "day_number y + sum_list (take (nat (m - 1)) (month_days y)) + (md - 1) = R" by linarith
  then show "unix_time (tm_year t) (tm_mon t) (tm_mday t) (tm_hour t) (tm_min t) (tm_sec t) = raw"
    unfolding unix_time_def t using split by simp
  show "1 \<le> tm_mon t" "tm_mon t \<le> 12" "1 \<le> tm_mday t" "tm_mday t \<le> month_days (tm_year t) ! nat (tm_mon t - 1)"
    using md by (simp_all add: t month_days_sum)
  show "0 \<le> tm_hour t" "tm_hour t < 24" "0 \<le> tm_min t" "tm_min t < 60" "0 \<le> tm_sec t" "tm_sec t < 60"
    using h mi sec by (simp_all add: t)
  show "day_number (tm_year t) \<le> raw div 86400" "raw div 86400 < day_number (tm_year t + 1)"
    using d unfolding R_def [symmetric] by (simp_all add: t day_number_step)
qed

text \<open>Every 64-bit nanosecond count lies in a year of four digits.\<close>

lemma to_time_t_range: "- (2 ^ 63) \<le> t \<Longrightarrow> t < 2 ^ 63 \<Longrightarrow> - 9223372036 \<le> to_time_t t \<and> to_time_t t \<le> 9223372036"
proof -
  assume t: "- (2 ^ 63) \<le> t" "t < 2 ^ 63"
  have *: "0 \<le> x div ns_per_s \<and> x div ns_per_s \<le> 9223372036" if "0 \<le> x" "x \<le> 2 ^ 63" for x :: int
    using that zdiv_mono1 [of x "2 ^ 63" ns_per_s] by (simp add: ns_per_s_def pos_imp_zdiv_nonneg_iff)
  show ?thesis using * [of t] * [of "- t"] t unfolding to_time_t_def by (cases "t < 0") simp_all
qed

lemma div_floor: "0 < n \<Longrightarrow> n * (x div n) \<le> (x :: int) \<and> x < n * (x div n) + n"
  using pos_mod_sign [of n x] pos_mod_bound [of n x] mult_div_mod_eq [of n x] by linarith

lemma four_digit_year:
  assumes "day_number y \<le> d" "d < day_number (y + 1)" "- 200000 \<le> d" "d \<le> 200000"
  shows "1000 \<le> y \<and> y \<le> 9999"
proof -
  define a b c where "a = (y - 1) div 4" and "b = (y - 1) div 100" and "c = (y - 1) div 400"
  define a' b' c' where "a' = y div 4" and "b' = y div 100" and "c' = y div 400"
  note q = div_floor [of 4 "y - 1", folded a_def] div_floor [of 100 "y - 1", folded b_def] div_floor [of 400 "y - 1", folded c_def]
    div_floor [of 4 y, folded a'_def] div_floor [of 100 y, folded b'_def] div_floor [of 400 y, folded c'_def]
  have "day_number y = 365 * (y - 1970) + (a - b + c) - 477" "day_number (y + 1) = 365 * (y - 1969) + (a' - b' + c') - 477"
    by (simp_all add: day_number_def leap_days_def a_def b_def c_def a'_def b'_def c'_def)
  with q assms show ?thesis by simp
qed

definition text_field :: "nat \<Rightarrow> nat \<Rightarrow> string \<Rightarrow> int" where
  "text_field i n s = int (nat_of_digits (take n (drop i s)))"

definition read_iso :: "string \<Rightarrow> int" where
  "read_iso s = unix_time (text_field 0 4 s) (text_field 5 2 s) (text_field 8 2 s)
     (text_field 11 2 s) (text_field 14 2 s) (text_field 17 2 s)"

text \<open>
  A time is printed as the date and time of day it denotes: for every time point of the clock except the
  unset one, the twenty characters of the ISO 8601 text, read back with the rules of the Gregorian
  calendar, give its number of whole seconds since the epoch.
\<close>

theorem formatIso8601_read_back:
  assumes "t \<noteq> 0" "- (2 ^ 63) \<le> t" "t < 2 ^ 63"
  shows "length (formatIso8601 t) = 20 \<and> read_iso (formatIso8601 t) = to_time_t t"
proof -
  define r where "r = gmtime_r (to_time_t t)"
  note r = gmtime_r [of "to_time_t t", folded r_def]
  have "- 200000 \<le> to_time_t t div 86400" "to_time_t t div 86400 \<le> 200000"
    using to_time_t_range [OF assms(2,3)] zdiv_mono1 [of "- 9223372036" "to_time_t t" 86400]
      zdiv_mono1 [of "to_time_t t" 9223372036 86400] by simp_all
  then have y: "1000 \<le> tm_year r \<and> tm_year r \<le> 9999" by (rule four_digit_year [OF r(12,13)])
  then have "length (show_nat (nat (tm_year r))) = Suc 3" by (intro length_show_nat_eq) auto
  then have ly: "length (show_int (tm_year r)) = 4" "int (nat_of_digits (show_int (tm_year r))) = tm_year r"
    using y by (simp_all add: show_int_def)
  have "nat (tm_mon r - 1) < 12" using r(2,3) by arith
  then have "tm_mday r \<le> 31" using r(5) month_days_le [of "nat (tm_mon r - 1)" "tm_year r"] by simp
  then have p: "length (pad2 (tm_mon r)) = 2 \<and> int (nat_of_digits (pad2 (tm_mon r))) = tm_mon r"
    "length (pad2 (tm_mday r)) = 2 \<and> int (nat_of_digits (pad2 (tm_mday r))) = tm_mday r"
    "length (pad2 (tm_hour r)) = 2 \<and> int (nat_of_digits (pad2 (tm_hour r))) = tm_hour r"
    "length (pad2 (tm_min r)) = 2 \<and> int (nat_of_digits (pad2 (tm_min r))) = tm_min r"
    "length (pad2 (tm_sec r)) = 2 \<and> int (nat_of_digits (pad2 (tm_sec r))) = tm_sec r"
    using r by (intro pad2; simp)+
  have s: "formatIso8601 t = put_time r" using assms(1) by (simp add: formatIso8601_def r_def)
  have "read_iso (put_time r) = unix_time (tm_year r) (tm_mon r) (tm_mday r) (tm_hour r) (tm_min r) (tm_sec r)"
    using ly p by (simp add: read_iso_def text_field_def put_time_def)
  then show ?thesis using ly p r(1) by (simp add: s put_time_def)
qed

theorem formatIso8601_read_back_witness:
  "read_iso (formatIso8601 1700000000000000000) = 1700000000"
  using formatIso8601_read_back [of 1700000000000000000] by (simp add: to_time_t_def ns_per_s_def)

section \<open>Printed numbers are accurate\<close>

text \<open>The value of a decimal numeral with an optional fraction, exponent and sign.\<close>

definition dec_val :: "string \<Rightarrow> rat" where
  "dec_val s =
     (let f = drop 1 (dropWhile isdigit s)
      in of_nat (nat_of_digits (takeWhile isdigit s)) + of_nat (nat_of_digits f) / 10 ^ length f)"

fun exponent_val :: "string \<Rightarrow> int" where
  "exponent_val [] = 0"
| "exponent_val (c # ds) = (if c = CHR ''-'' then - int (nat_of_digits ds) else int (nat_of_digits ds))"

definition magnitude :: "string \<Rightarrow> rat" where
  "magnitude s =
     dec_val (takeWhile (\<lambda>c. c \<noteq> CHR ''e'') s) * 10 powi exponent_val (drop 1 (dropWhile (\<lambda>c. c \<noteq> CHR ''e'') s))"

fun number_val :: "string \<Rightarrow> rat" where
  "number_val [] = 0"
| "number_val (c # s) = (if c = CHR ''-'' then - magnitude s else magnitude (c # s))"

lemma isdigit_simps [simp]: "\<not> isdigit (CHR ''.'')" "\<not> isdigit (CHR ''e'')" "\<not> isdigit (CHR ''-'')" "isdigit (CHR ''0'')"
  by (simp_all add: isdigit_def)

lemma takeWhile_digits: "list_all isdigit a \<Longrightarrow> takeWhile isdigit (a @ CHR ''.'' # b) = a"
  "list_all isdigit a \<Longrightarrow> dropWhile isdigit (a @ CHR ''.'' # b) = CHR ''.'' # b"
  "list_all isdigit a \<Longrightarrow> takeWhile isdigit a = a" "list_all isdigit a \<Longrightarrow> dropWhile isdigit a = []"
  by (auto simp: list_all_iff takeWhile_append2 dropWhile_append2 takeWhile_eq_all_conv dropWhile_eq_Nil_conv)

lemma nat_of_digits_app: "nat_of_digits (a @ b) = nat_of_digits a * 10 ^ length b + nat_of_digits b"
proof (induction b rule: rev_induct)
  case Nil
  then show ?case by (simp add: nat_of_digits_def)
next
  case (snoc c b)
  have "nat_of_digits (s @ [c]) = 10 * nat_of_digits s + digit_val c" for s by (simp add: nat_of_digits_def)
  then show ?case using snoc by (simp only: append_assoc [symmetric]) (simp add: algebra_simps)
qed

lemma dec_val_fraction:
  "list_all isdigit w \<Longrightarrow> list_all isdigit f \<Longrightarrow> dec_val (w @ CHR ''.'' # f) = of_nat (nat_of_digits (w @ f)) / 10 ^ length f"
  by (simp add: dec_val_def takeWhile_digits nat_of_digits_app field_simps)

lemma dec_val_whole: "list_all isdigit w \<Longrightarrow> dec_val w = of_nat (nat_of_digits w)"
  by (simp add: dec_val_def takeWhile_digits nat_of_digits_def)

lemma strip_zeros: "\<exists>k. ds = strip_zeros ds @ replicate k (CHR ''0'')"
proof -
  let ?z = "\<lambda>c. c = CHR ''0''"
  have "takeWhile ?z (rev ds) = replicate (length (takeWhile ?z (rev ds))) (CHR ''0'')"
    by (rule replicate_eqI) (auto dest: set_takeWhileD)
  moreover have "rev ds = takeWhile ?z (rev ds) @ dropWhile ?z (rev ds)" by simp
  ultimately have "ds = rev (dropWhile ?z (rev ds)) @ replicate (length (takeWhile ?z (rev ds))) (CHR ''0'')"
    by (metis rev_append rev_replicate rev_rev_ident)
  then show ?thesis unfolding strip_zeros_def by blast
qed

lemma nat_of_digits_zeros: "nat_of_digits (replicate k (CHR ''0'')) = 0"
  by (induction k) (simp_all add: nat_of_digits_def digit_val_def)

lemma with_fraction_val:
  assumes "list_all isdigit w" "list_all isdigit f"
  shows "dec_val (with_fraction w f) = of_nat (nat_of_digits (w @ f)) / 10 ^ length f"
proof -
  obtain k where f: "f = strip_zeros f @ replicate k (CHR ''0'')" using strip_zeros by blast
  define g where "g = strip_zeros f"
  have f: "f = g @ replicate k (CHR ''0'')" using f by (simp add: g_def)
  then have g: "list_all isdigit g" using assms(2) by simp
  have "nat_of_digits (w @ f) = nat_of_digits (w @ g) * 10 ^ k"
    by (simp add: f nat_of_digits_app nat_of_digits_zeros flip: append_assoc)
  then have v: "of_nat (nat_of_digits (w @ f)) / 10 ^ length f = (of_nat (nat_of_digits (w @ g)) / 10 ^ length g :: rat)"
    by (simp add: f power_add)
  show ?thesis
  proof (cases "g = []")
    case True
    with v assms(1) show ?thesis by (simp add: with_fraction_def g_def [symmetric] dec_val_whole)
  next
    case False
    with v assms(1) g show ?thesis by (simp add: with_fraction_def g_def [symmetric] dec_val_fraction)
  qed
qed

lemma significant:
  assumes "0 < x" "significant x = (e, m)"
  shows "\<bar>of_nat m * 10 powi (e - 5) - x\<bar> \<le> 5 / 10 ^ 6 * x" and "10 ^ 5 \<le> m" "m < 10 ^ 6"
proof -
  define k where "k = ilog 10 x"
  define n where "n = round_half_even (x * 10 powi (5 - k))"
  have k: "10 powi k \<le> x" "x < 10 powi (k + 1)" using ilog_bounds [of 10 x] assms(1) by (simp_all add: k_def)
  have err: "\<bar>of_int n - x * 10 powi (5 - k)\<bar> \<le> 1 / 2" unfolding n_def by (rule round_half_even_error)
  have p: "10 powi (5 - k) * 10 powi (k - 5) = (1 :: rat)" by (simp flip: power_int_add)
  have "10 powi k * 10 powi (5 - k) \<le> x * 10 powi (5 - k)" "x * 10 powi (5 - k) < 10 powi (k + 1) * 10 powi (5 - k)"
    using k by (simp_all add: mult_right_mono)
  then have "10 ^ 5 \<le> x * 10 powi (5 - k)" "x * 10 powi (5 - k) < 10 ^ 6" by (simp_all flip: power_int_add)
  with err have "of_int n > (10 ^ 5 - 1 :: rat)" "of_int n < (10 ^ 6 + 1 :: rat)" by linarith+
  then have n: "10 ^ 5 \<le> n" "n \<le> 10 ^ 6" by simp_all
  have "\<bar>of_int n * 10 powi (k - 5) - x\<bar> = \<bar>of_int n - x * 10 powi (5 - k)\<bar> * 10 powi (k - 5)"
    using p by (simp add: abs_mult_pos left_diff_distrib mult.assoc)
  also have "\<dots> \<le> 1 / 2 * 10 powi (k - 5)" using err by (intro mult_right_mono) simp_all
  also have "\<dots> = 5 / 10 ^ 6 * 10 powi k" by (simp add: power_int_diff)
  also have "\<dots> \<le> 5 / 10 ^ 6 * x" using k(1) by simp
  finally have v: "\<bar>of_int n * 10 powi (k - 5) - x\<bar> \<le> 5 / 10 ^ 6 * x" .
  have em: "(e, m) = (if nat n = 10 ^ 6 then (k + 1, 10 ^ 5) else (k, nat n))"
    using assms(2) unfolding significant_def Let_def k_def [symmetric] n_def [symmetric] by (rule sym)
  show "\<bar>of_nat m * 10 powi (e - 5) - x\<bar> \<le> 5 / 10 ^ 6 * x" "10 ^ 5 \<le> m" "m < 10 ^ 6"
    using em v n by (auto simp: nat_eq_iff power_int_add power_int_diff split: if_splits)
qed

lemma pad2_val: "0 \<le> n \<Longrightarrow> int (nat_of_digits (pad2 n)) = n"
proof -
  have "nat_of_digits (CHR ''0'' # s) = nat_of_digits s" for s by (simp add: nat_of_digits_def digit_val_def)
  then show "0 \<le> n \<Longrightarrow> int (nat_of_digits (pad2 n)) = n" by (simp add: pad2_def nat_of_digits_show_int)
qed

lemma exponent_val_show: "exponent_val (tl (show_exponent e)) = e"
  using pad2_val [of "\<bar>e\<bar>"] by (auto simp: show_exponent_def)

lemma digits_no_e: "list_all isdigit s \<Longrightarrow> CHR ''e'' \<notin> set s"
  by (auto simp: list_all_iff)

lemma with_fraction_chars:
  assumes "list_all isdigit w" "list_all isdigit f"
  shows "CHR ''e'' \<notin> set (with_fraction w f)"
proof -
  obtain k where "f = strip_zeros f @ replicate k (CHR ''0'')" using strip_zeros by blast
  then have "set (strip_zeros f) \<subseteq> set f" by (metis set_append sup_ge1)
  with digits_no_e [OF assms(1)] digits_no_e [OF assms(2)] show ?thesis by (auto simp: with_fraction_def Let_def)
qed

lemma until_e:
  "CHR ''e'' \<notin> set s \<Longrightarrow> takeWhile (\<lambda>c. c \<noteq> CHR ''e'') s = s"
  "CHR ''e'' \<notin> set s \<Longrightarrow> dropWhile (\<lambda>c. c \<noteq> CHR ''e'') s = []"
  "CHR ''e'' \<notin> set s \<Longrightarrow> takeWhile (\<lambda>c. c \<noteq> CHR ''e'') (s @ CHR ''e'' # t) = s"
  "CHR ''e'' \<notin> set s \<Longrightarrow> dropWhile (\<lambda>c. c \<noteq> CHR ''e'') (s @ CHR ''e'' # t) = CHR ''e'' # t"
  by (induction s) auto

lemma magnitude_plain: "CHR ''e'' \<notin> set s \<Longrightarrow> magnitude s = dec_val s"
  by (simp add: magnitude_def until_e)

lemma magnitude_exponent: "CHR ''e'' \<notin> set s \<Longrightarrow> magnitude (s @ CHR ''e'' # t) = dec_val s * 10 powi exponent_val t"
  by (simp add: magnitude_def until_e)

lemma dec_val_cut:
  assumes "list_all isdigit ds" "n \<le> length ds"
  shows "dec_val (with_fraction (take n ds) (drop n ds)) = of_nat (nat_of_digits ds) / 10 ^ (length ds - n)"
    and "CHR ''e'' \<notin> set (with_fraction (take n ds) (drop n ds))"
proof -
  have "list_all isdigit (take n ds)" "list_all isdigit (drop n ds)"
    using assms(1) by (auto simp: list_all_iff dest: in_set_takeD in_set_dropD)
  then show "dec_val (with_fraction (take n ds) (drop n ds)) = of_nat (nat_of_digits ds) / 10 ^ (length ds - n)"
    and "CHR ''e'' \<notin> set (with_fraction (take n ds) (drop n ds))"
    by (simp_all add: with_fraction_val with_fraction_chars)
qed

lemma dec_val_small:
  assumes "list_all isdigit ds"
  shows "dec_val (with_fraction ''0'' (replicate n (CHR ''0'') @ ds)) = of_nat (nat_of_digits ds) / 10 ^ (n + length ds)"
    and "CHR ''e'' \<notin> set (with_fraction ''0'' (replicate n (CHR ''0'') @ ds))"
proof -
  have d: "list_all isdigit (replicate n (CHR ''0'') @ ds)" using assms by (auto simp: list_all_iff)
  have "nat_of_digits (replicate (Suc n) (CHR ''0'') @ ds) = nat_of_digits ds"
    unfolding nat_of_digits_app nat_of_digits_zeros by simp
  then show "dec_val (with_fraction ''0'' (replicate n (CHR ''0'') @ ds)) = of_nat (nat_of_digits ds) / 10 ^ (n + length ds)"
    using with_fraction_val [of "''0''", OF _ d] by simp
  show "CHR ''e'' \<notin> set (with_fraction ''0'' (replicate n (CHR ''0'') @ ds))"
    by (rule with_fraction_chars [OF _ d]) simp
qed

lemma ten_power:
  "n < 6 \<Longrightarrow> (10 :: rat) powi (int n - 5) = 1 / 10 ^ (5 - n)" "(10 :: rat) powi (- int (Suc n) - 5) = 1 / 10 ^ (n + 6)"
proof -
  assume "n < 6"
  then have "int n - 5 = - int (5 - n)" by simp
  then show "(10 :: rat) powi (int n - 5) = 1 / 10 ^ (5 - n)"
    by (simp only: power_int_minus power_int_of_nat) (simp add: divide_inverse)
next
  have "- int (Suc n) - 5 = - int (n + 6)" by simp
  then show "(10 :: rat) powi (- int (Suc n) - 5) = 1 / 10 ^ (n + 6)"
    by (simp only: power_int_minus power_int_of_nat) (simp add: divide_inverse)
qed

lemma show_positive_val:
  assumes "0 < x"
  shows "\<bar>magnitude (show_positive x) - x\<bar> \<le> 5 / 10 ^ 6 * x"
proof -
  obtain e m where em: "significant x = (e, m)" by force
  note sig = significant [OF assms em]
  define ds where "ds = show_nat m"
  have "length (show_nat m) = Suc 5" using sig(2,3) by (intro length_show_nat_eq) simp_all
  then have l: "length ds = 6" by (simp add: ds_def)
  have dg: "list_all isdigit ds" and v: "nat_of_digits ds = m" by (simp_all add: ds_def show_nat_digits)
  have sp: "show_positive x =
     (if e < - 4 \<or> 6 \<le> e then with_fraction (take 1 ds) (drop 1 ds) @ show_exponent e
      else if e < 0 then with_fraction ''0'' (replicate (nat (- e) - 1) (CHR ''0'') @ ds)
      else with_fraction (take (nat e + 1) ds) (drop (nat e + 1) ds))"
    unfolding show_positive_def em ds_def Let_def by simp
  consider "e < - 4 \<or> 6 \<le> e" | n where "\<not> e < - 4" "e = - int (Suc n)" | n where "e = int n" "n < 6"
    by (metis int_cases not_le of_nat_less_iff of_nat_numeral)
  then have "magnitude (show_positive x) = of_nat m * 10 powi (e - 5)"
  proof cases
    case 1
    have "show_exponent e = CHR ''e'' # tl (show_exponent e)" by (simp add: show_exponent_def)
    then have "magnitude (with_fraction (take 1 ds) (drop 1 ds) @ show_exponent e) = of_nat m / 10 ^ 5 * 10 powi e"
      using magnitude_exponent [OF dec_val_cut(2) [OF dg, of 1], of "tl (show_exponent e)"] dec_val_cut(1) [OF dg, of 1]
      by (simp add: exponent_val_show l v)
    with 1 show ?thesis unfolding sp by (simp add: power_int_diff)
  next
    case (2 n)
    then have "show_positive x = with_fraction ''0'' (replicate n (CHR ''0'') @ ds)"
      unfolding sp by (simp add: nat_add_distrib)
    then show ?thesis
      unfolding 2(2) ten_power using dec_val_small [OF dg, of n] by (simp add: magnitude_plain l v)
  next
    case (3 n)
    then have "show_positive x = with_fraction (take (Suc n) ds) (drop (Suc n) ds)" unfolding sp by simp
    then show ?thesis
      unfolding 3(1) ten_power(1) [OF 3(2)] using dec_val_cut [OF dg, of "Suc n"] 3(2) by (simp add: magnitude_plain l v)
  qed
  with sig(1) show ?thesis by simp
qed

lemma show_positive_head: "0 < x \<Longrightarrow> show_positive x \<noteq> [] \<and> isdigit (hd (show_positive x))"
proof -
  have wf: "w \<noteq> [] \<Longrightarrow> with_fraction w f \<noteq> [] \<and> hd (with_fraction w f) = hd w" for w f
    by (simp add: with_fraction_def Let_def)
  obtain e m where em: "significant x = (e, m)" by force
  have m: "show_nat m \<noteq> []" "isdigit (hd (show_nat m))"
    using show_nat_digits [of m] by (auto simp: list_all_iff)
  show "0 < x \<Longrightarrow> ?thesis"
    unfolding show_positive_def em Let_def using m wf [of "take k (show_nat m)" for k] wf [of "''0''"]
    by (auto simp: hd_append)
qed

text \<open>
  A floating-point number is printed with an error of at most half a unit in the sixth digit: the value of
  the printed numeral differs from the number by at most five millionths of it, in positional and in
  scientific notation, whatever its size and sign.
\<close>

theorem show_double_accurate: "\<bar>number_val (show_double x) - x\<bar> \<le> 5 / 10 ^ 6 * \<bar>x\<bar>"
proof -
  have pos: "number_val (show_positive y) = magnitude (show_positive y)" if "0 < y" for y
    using show_positive_head [OF that] by (cases "show_positive y") auto
  consider "x = 0" | "0 < x" | "x < 0" by linarith
  then show ?thesis
  proof cases
    case 1
    have "number_val ''0'' = 0" by code_simp
    with 1 show ?thesis by (simp add: show_double_def)
  next
    case 2
    with pos show_positive_val [of x] show ?thesis by (simp add: show_double_def)
  next
    case 3
    with show_positive_val [of "- x"] show ?thesis by (simp add: show_double_def abs_minus_commute)
  qed
qed

text \<open>A natural number with a point before its last \<open>p\<close> digits, padded with zeros.\<close>

lemma fixed_text_val:
  assumes "0 < p" "ds = replicate (Suc p - length (show_nat n)) (CHR ''0'') @ show_nat n"
  shows "number_val (take (length ds - p) ds @ CHR ''.'' # drop (length ds - p) ds) = of_nat n / 10 ^ p"
    "magnitude (take (length ds - p) ds @ CHR ''.'' # drop (length ds - p) ds) = of_nat n / 10 ^ p"
proof -
  define w f where "w = take (length ds - p) ds" and "f = drop (length ds - p) ds"
  have ds: "list_all isdigit ds" "nat_of_digits ds = n" "Suc p \<le> length ds"
    using show_nat_digits [of n] by (auto simp: assms(2) list_all_iff nat_of_digits_app nat_of_digits_zeros)
  have wf_ds: "ds = w @ f" by (simp add: w_def f_def)
  have wf: "list_all isdigit w" "list_all isdigit f" "length f = p" "w \<noteq> []"
    using ds(1,3) by (auto simp: list_all_iff w_def f_def dest: in_set_takeD in_set_dropD)
  have "dec_val (w @ CHR ''.'' # f) = of_nat n / 10 ^ p"
    using dec_val_fraction [OF wf(1,2)] ds(2) wf_ds wf(3) by simp
  moreover have "CHR ''e'' \<notin> set (w @ CHR ''.'' # f)" using digits_no_e wf(1,2) by auto
  ultimately have v: "magnitude (w @ CHR ''.'' # f) = of_nat n / 10 ^ p" by (simp add: magnitude_plain)
  have "w \<noteq> [] \<and> hd w \<noteq> CHR ''-''" using wf(1,4) by (cases w) auto
  then have "number_val (w @ CHR ''.'' # f) = magnitude (w @ CHR ''.'' # f)" by (cases w) auto
  with v show "number_val (take (length ds - p) ds @ CHR ''.'' # drop (length ds - p) ds) = of_nat n / 10 ^ p"
    "magnitude (take (length ds - p) ds @ CHR ''.'' # drop (length ds - p) ds) = of_nat n / 10 ^ p"
    by (simp_all add: w_def f_def)
qed

lemma scaled_error:
  fixes x :: rat
  assumes "\<bar>of_nat n - x * 10 ^ p\<bar> \<le> 1 / 2"
  shows "\<bar>of_nat n / 10 ^ p - x\<bar> \<le> 1 / 2 / 10 ^ p"
proof -
  have "\<bar>of_nat n - x * 10 ^ p\<bar> / 10 ^ p \<le> 1 / 2 / 10 ^ p" using assms by (intro divide_right_mono) simp_all
  moreover have "of_nat n / 10 ^ p - x = (of_nat n - x * 10 ^ p) / 10 ^ p" by (simp add: diff_divide_distrib)
  ultimately show ?thesis by (simp only: abs_divide) simp
qed

lemma show_fixed_val: "0 < p \<Longrightarrow> \<bar>number_val (show_fixed p x) - x\<bar> \<le> 1 / 2 / 10 ^ p"
proof -
  assume p: "0 < p"
  define n where "n = nat (round_half_even (\<bar>x\<bar> * 10 ^ p))"
  note v = fixed_text_val [OF p refl, of n]
  have r: "\<bar>of_int (round_half_even (\<bar>x\<bar> * 10 ^ p)) - \<bar>x\<bar> * 10 ^ p\<bar> \<le> 1 / 2" by (rule round_half_even_error)
  moreover have "0 \<le> \<bar>x\<bar> * 10 ^ p" by simp
  ultimately have "- 1 < rat_of_int (round_half_even (\<bar>x\<bar> * 10 ^ p))" by linarith
  then have "of_nat n = (of_int (round_half_even (\<bar>x\<bar> * 10 ^ p)) :: rat)" by (simp add: n_def)
  with r have "\<bar>of_nat n - \<bar>x\<bar> * 10 ^ p\<bar> \<le> 1 / 2" by simp
  then have "\<bar>of_nat n / 10 ^ p - \<bar>x\<bar>\<bar> \<le> 1 / 2 / 10 ^ p" by (rule scaled_error)
  moreover obtain body where "show_fixed p x = (if x < 0 then CHR ''-'' # body else body)"
    "number_val body = of_nat n / 10 ^ p" "magnitude body = of_nat n / 10 ^ p"
    using v unfolding show_fixed_def Let_def n_def [symmetric] by blast
  ultimately show ?thesis by (cases "x < 0") (simp_all add: abs_if split: if_splits)
qed

end
