(* ===== verification/Json_Text.thy ===== *)
theory Json_Text
  imports Netmon_Format
begin

text \<open>
  The JSON texts that the sources assemble on output streams, and a reader for them. \<open>object_text\<close> and
  \<open>array_text\<close> are the two shapes the code writes; \<open>json_text\<close> is the text of a JSON value built from
  them, and \<open>read_json\<close> a reader of (compact) JSON texts that reads it back.
\<close>

section \<open>Writing\<close>

fun separated :: "string list \<Rightarrow> string" where
  "separated [] = []"
| "separated [x] = x"
| "separated (x # y # xs) = x @ CHR '','' # separated (y # xs)"

definition array_text :: "string list \<Rightarrow> string" where
  "array_text xs = CHR ''['' # separated xs @ '']''"

definition member_text :: "string \<times> string \<Rightarrow> string" where
  "member_text p = jsonQuote (fst p) @ CHR '':'' # snd p"

definition object_text :: "(string \<times> string) list \<Rightarrow> string" where
  "object_text ps = CHR ''{'' # separated (map member_text ps) @ ''}''"

definition bool_text :: "bool \<Rightarrow> string" where
  "bool_text b = (if b then ''true'' else ''false'')"

datatype json = JString string | JNumber string | JBool bool | JArray "json list" | JObject "(string \<times> json) list"

fun json_text :: "json \<Rightarrow> string" where
  "json_text (JString s) = jsonQuote s"
| "json_text (JNumber s) = s"
| "json_text (JBool b) = bool_text b"
| "json_text (JArray xs) = array_text (map json_text xs)"
| "json_text (JObject ps) = object_text (map (\<lambda>(k, v). (k, json_text v)) ps)"

section \<open>Number tokens\<close>

definition json_digits :: "string \<Rightarrow> bool" where
  "json_digits s \<longleftrightarrow> s \<noteq> [] \<and> list_all isdigit s"

fun json_exponent :: "string \<Rightarrow> bool" where
  "json_exponent [] = True"
| "json_exponent (c # s) =
     ((c = CHR ''e'' \<or> c = CHR ''E'') \<and>
      (case s of [] \<Rightarrow> False | d # t \<Rightarrow> if d = CHR ''+'' \<or> d = CHR ''-'' then json_digits t else json_digits s))"

fun json_fraction :: "string \<Rightarrow> bool" where
  "json_fraction [] = True"
| "json_fraction (c # s) =
     (if c = CHR ''.'' then takeWhile isdigit s \<noteq> [] \<and> json_exponent (dropWhile isdigit s) else json_exponent (c # s))"

definition json_magnitude :: "string \<Rightarrow> bool" where
  "json_magnitude s \<longleftrightarrow>
     (let w = takeWhile isdigit s
      in w \<noteq> [] \<and> (hd w = CHR ''0'' \<longrightarrow> length w = 1) \<and> json_fraction (dropWhile isdigit s))"

fun json_number :: "string \<Rightarrow> bool" where
  "json_number [] = False"
| "json_number (c # s) = (if c = CHR ''-'' then json_magnitude s else json_magnitude (c # s))"

definition number_char :: "char \<Rightarrow> bool" where
  "number_char c \<longleftrightarrow> isdigit c \<or> c \<in> {CHR ''-'', CHR ''+'', CHR ''.'', CHR ''e'', CHR ''E''}"

lemma digits_number_chars: "list_all isdigit s \<Longrightarrow> list_all number_char s"
  by (auto simp: list_all_iff number_char_def)

lemma json_exponent_chars: "json_exponent s \<Longrightarrow> list_all number_char s"
  by (cases s rule: json_exponent.cases)
     (auto simp: json_digits_def number_char_def split: list.splits if_splits dest!: digits_number_chars)

lemma digit_run: "list_all number_char (dropWhile isdigit s) \<Longrightarrow> list_all number_char s"
proof -
  assume "list_all number_char (dropWhile isdigit s)"
  moreover have "list_all number_char (takeWhile isdigit s)"
    by (rule digits_number_chars) (auto simp: list_all_iff dest: set_takeWhileD)
  ultimately have "list_all number_char (takeWhile isdigit s @ dropWhile isdigit s)"
    by (simp del: takeWhile_dropWhile_id)
  then show ?thesis by simp
qed

lemma json_fraction_chars: "json_fraction s \<Longrightarrow> list_all number_char s"
proof (cases s)
  case (Cons c t)
  assume f: "json_fraction s"
  show ?thesis
  proof (cases "c = CHR ''.''")
    case True
    with f Cons have "list_all number_char t" by (auto intro: digit_run dest: json_exponent_chars)
    with True Cons show ?thesis by (simp add: number_char_def)
  next
    case False
    with f Cons json_exponent_chars [of s] show ?thesis by simp
  qed
qed simp

lemma json_number_chars: "json_number s \<Longrightarrow> s \<noteq> [] \<and> list_all number_char s \<and> (isdigit (hd s) \<or> hd s = CHR ''-'')"
proof (cases s)
  case (Cons c t)
  assume n: "json_number s"
  have m: "json_magnitude u \<Longrightarrow> list_all number_char u \<and> u \<noteq> [] \<and> isdigit (hd u)" for u
    using digit_run [of u] json_fraction_chars [of "dropWhile isdigit u"]
    by (cases u) (auto simp: json_magnitude_def Let_def split: if_splits)
  show ?thesis
    using n m [of t] m [of s] by (auto simp: Cons number_char_def split: if_splits)
qed simp

section \<open>Printed numbers are number tokens\<close>

lemma show_nat_head: "0 < n \<Longrightarrow> hd (show_nat n) \<noteq> CHR ''0''"
proof (induction n rule: show_nat.induct)
  case (1 n)
  show ?case
  proof (cases "n < 10")
    case True
    have "char_of (48 + n) \<noteq> CHR ''0''" if "n < 10" "0 < n"
    proof
      assume "char_of (48 + n) = CHR ''0''"
      then have "code (char_of (48 + n)) = code (CHR ''0'')" by simp
      with that show False by simp
    qed
    with True 1(2) show ?thesis by (subst show_nat.simps) simp
  next
    case False
    with 1(1) show ?thesis by (subst show_nat.simps) simp
  qed
qed

lemma json_magnitude_digits: "json_digits w \<Longrightarrow> hd w \<noteq> CHR ''0'' \<or> length w = 1 \<Longrightarrow> json_magnitude w"
  by (auto simp: json_magnitude_def json_digits_def takeWhile_digits)

lemma json_number_magnitude: "json_magnitude s \<Longrightarrow> json_number s"
proof (cases s)
  case (Cons c t)
  assume "json_magnitude s"
  then have "isdigit c" by (auto simp: Cons json_magnitude_def Let_def split: if_splits)
  then have "c \<noteq> CHR ''-''" by auto
  then show "json_magnitude s \<Longrightarrow> ?thesis" by (simp add: Cons)
qed (simp add: json_magnitude_def)

lemma json_number_show_nat: "json_number (show_nat n)"
proof -
  have "hd (show_nat n) \<noteq> CHR ''0'' \<or> length (show_nat n) = 1"
    using show_nat_head [of n] by (cases "n = 0") (auto simp: show_nat.simps [of 0])
  then show ?thesis
    by (intro json_number_magnitude json_magnitude_digits) (auto simp: json_digits_def show_nat_digits)
qed

lemma json_number_show_int: "json_number (show_int n)"
proof (cases "n < 0")
  case True
  then have "hd (show_nat (nat (- n))) \<noteq> CHR ''0''" by (intro show_nat_head) simp
  then have "json_magnitude (show_nat (nat (- n)))"
    by (intro json_magnitude_digits) (auto simp: json_digits_def show_nat_digits)
  with True show ?thesis by (simp add: show_int_def)
qed (simp add: show_int_def json_number_show_nat)

lemma json_exponent_show: "json_exponent (show_exponent e)"
  using show_nat_digits [of "nat \<bar>e\<bar>"]
  by (auto simp: show_exponent_def pad2_def show_int_def json_digits_def)

lemma json_magnitude_fraction:
  assumes "json_digits w" "hd w \<noteq> CHR ''0'' \<or> length w = 1" "list_all isdigit f"
    and "t = [] \<or> \<not> isdigit (hd t)" "json_exponent t"
  shows "json_magnitude (with_fraction w f @ t)"
proof -
  have nw: "\<not> isdigit c \<Longrightarrow> takeWhile isdigit (a @ c # b) = a" "\<not> isdigit c \<Longrightarrow> dropWhile isdigit (a @ c # b) = c # b"
    if "list_all isdigit a" for a b c
    using that by (auto simp: list_all_iff takeWhile_append2 dropWhile_append2)
  have tail: "takeWhile isdigit (a @ t) = a" "dropWhile isdigit (a @ t) = t" if "list_all isdigit a" for a
    using assms(4) nw [OF that] takeWhile_digits(3,4) [OF that] by (cases t; simp)+
  have w: "list_all isdigit w" "w \<noteq> []" using assms(1) by (simp_all add: json_digits_def)
  obtain k where "f = strip_zeros f @ replicate k (CHR ''0'')" using strip_zeros by blast
  then have f: "list_all isdigit (strip_zeros f)" using assms(3) by (metis list_all_append)
  have jt: "json_fraction t" using assms(5) by (cases t) auto
  show ?thesis
  proof (cases "strip_zeros f = []")
    case True
    then show ?thesis
      using w assms(2) jt by (auto simp: with_fraction_def json_magnitude_def tail)
  next
    case False
    then show ?thesis
      using w assms(2,5) f tail [OF f] by (auto simp: with_fraction_def json_magnitude_def nw)
  qed
qed

lemma json_magnitude_show_positive: "0 < x \<Longrightarrow> json_magnitude (show_positive x)"
proof -
  assume "0 < x"
  obtain e m where em: "significant x = (e, m)" by force
  define ds where "ds = show_nat m"
  note sig = significant [OF \<open>0 < x\<close> em]
  have ds: "list_all isdigit ds" "ds \<noteq> []" "hd ds \<noteq> CHR ''0''"
    using sig(2) show_nat_head [of m] by (simp_all add: ds_def show_nat_digits)
  then have cut: "json_digits (take (Suc n) ds)" "hd (take (Suc n) ds) \<noteq> CHR ''0''" "list_all isdigit (drop (Suc n) ds)"
    "list_all isdigit (replicate n (CHR ''0'') @ ds)" for n
    by (auto simp: json_digits_def list_all_iff dest: in_set_takeD in_set_dropD)
  have zero: "json_digits ''0''" by (simp add: json_digits_def)
  have ex: "\<not> isdigit (hd (show_exponent e))" by (simp add: show_exponent_def)
  have "json_magnitude (with_fraction (take (Suc n) ds) (drop (Suc n) ds) @ show_exponent e)"
    "json_magnitude (with_fraction (take (Suc n) ds) (drop (Suc n) ds) @ [])"
    "json_magnitude (with_fraction ''0'' (replicate n (CHR ''0'') @ ds) @ [])" for n
    by (rule json_magnitude_fraction; use cut zero ex json_exponent_show in simp)+
  then show ?thesis
    unfolding show_positive_def em Let_def by (simp add: ds_def flip: Suc_eq_plus1)
qed

lemma json_number_show_double: "json_number (show_double x)"
proof -
  have "json_number ''0''" by code_simp
  moreover have "json_number (show_positive x)" if "0 < x"
    using json_magnitude_show_positive [OF that] by (rule json_number_magnitude)
  ultimately show ?thesis
    using json_magnitude_show_positive [of "- x"] by (auto simp: show_double_def)
qed

section \<open>Reading\<close>

definition read_quoted :: "string \<Rightarrow> (string \<times> string) option" where
  "read_quoted s =
     (case s of [] \<Rightarrow> None | c # t \<Rightarrow> if c = dquote then read_until (Suc (length t)) json_dec dquote t else None)"

definition read_number :: "string \<Rightarrow> (json \<times> string) option" where
  "read_number s =
     (let tok = takeWhile number_char s in if json_number tok then Some (JNumber tok, dropWhile number_char s) else None)"

text \<open>
  The reader for values, for the elements of an array up to its bracket, and for the members of an object up to
  its brace. The fuel bounds the number of nested calls; the length of the text is enough.
\<close>

fun read_json :: "nat \<Rightarrow> string \<Rightarrow> (json \<times> string) option"
  and read_elements :: "nat \<Rightarrow> string \<Rightarrow> (json list \<times> string) option"
  and read_members :: "nat \<Rightarrow> string \<Rightarrow> ((string \<times> json) list \<times> string) option"
where
  "read_json 0 s = None"
| "read_json (Suc n) s =
     (case s of
        [] \<Rightarrow> None
      | c # t \<Rightarrow>
          if c = dquote then map_option (apfst JString) (read_quoted s)
          else if c = CHR ''{'' then
            (if prefix ''}'' t then Some (JObject [], drop 1 t) else map_option (apfst JObject) (read_members n t))
          else if c = CHR ''['' then
            (if prefix '']'' t then Some (JArray [], drop 1 t) else map_option (apfst JArray) (read_elements n t))
          else if prefix ''true'' s then Some (JBool True, drop 4 s)
          else if prefix ''false'' s then Some (JBool False, drop 5 s)
          else read_number s)"
| "read_elements 0 s = None"
| "read_elements (Suc n) s =
     (case read_json n s of
        None \<Rightarrow> None
      | Some (x, t) \<Rightarrow>
          if prefix '','' t then map_option (apfst (Cons x)) (read_elements n (drop 1 t))
          else if prefix '']'' t then Some ([x], drop 1 t) else None)"
| "read_members 0 s = None"
| "read_members (Suc n) s =
     (case read_quoted s of
        None \<Rightarrow> None
      | Some (k, t) \<Rightarrow>
          if \<not> prefix '':'' t then None
          else case read_json n (drop 1 t) of
                 None \<Rightarrow> None
               | Some (x, u) \<Rightarrow>
                   if prefix '','' u then map_option (apfst (Cons (k, x))) (read_members n (drop 1 u))
                   else if prefix ''}'' u then Some ([(k, x)], drop 1 u) else None)"

definition read_document :: "string \<Rightarrow> json option" where
  "read_document s = (case read_json (length s) s of Some (j, []) \<Rightarrow> Some j | _ \<Rightarrow> None)"

fun json_ok :: "json \<Rightarrow> bool" where
  "json_ok (JString s) = True"
| "json_ok (JNumber s) = json_number s"
| "json_ok (JBool b) = True"
| "json_ok (JArray xs) = list_all json_ok xs"
| "json_ok (JObject ps) = list_all (\<lambda>(k, v). json_ok v) ps"

lemma read_quoted_jsonQuote: "read_quoted (jsonQuote s @ rest) = Some (s, rest)"
proof -
  have "length s \<le> length (jsonEscape s)"
  proof (induction s)
    case (Cons c s)
    have "json_escape_char c \<noteq> []" by (rule json_string.enc_nonempty)
    then have "1 \<le> length (json_escape_char c)" by (cases "json_escape_char c") simp_all
    with Cons show ?case by (simp add: jsonEscape_def)
  qed simp
  then have "length s < Suc (length (jsonEscape s @ dquote # rest))" by simp
  from json_string.read_until_encoded [OF this, of rest] show ?thesis
    by (simp add: read_quoted_def jsonQuote_def jsonEscape_def del: read_until.simps)
qed

lemma read_number_token:
  assumes "json_number s" "rest = [] \<or> \<not> number_char (hd rest)"
  shows "read_number (s @ rest) = Some (JNumber s, rest)"
proof -
  have "list_all number_char s" using json_number_chars [OF assms(1)] by simp
  then have "takeWhile number_char (s @ rest) = s" "dropWhile number_char (s @ rest) = rest"
    using assms(2) by (cases rest; auto simp: list_all_iff takeWhile_append2 dropWhile_append2)+
  with assms(1) show ?thesis by (simp add: read_number_def)
qed

lemma json_text_nonempty: "json_ok j \<Longrightarrow> json_text j \<noteq> []"
  by (cases j) (auto simp: jsonQuote_def bool_text_def array_text_def object_text_def dest: json_number_chars)

lemma json_text_head: "json_ok j \<Longrightarrow> hd (json_text j) \<noteq> CHR '']'' \<and> hd (json_text j) \<noteq> CHR ''}''"
  by (cases j) (auto simp: jsonQuote_def bool_text_def array_text_def object_text_def dest!: json_number_chars
      simp: isdigit_def)

text \<open>
  What a closing sequence reads, given that each value is read back by itself.
\<close>

lemma read_elements_text:
  assumes "xs \<noteq> []" "\<And>x m r. x \<in> set xs \<Longrightarrow> length (json_text x) \<le> m \<Longrightarrow> r = [] \<or> \<not> number_char (hd r) \<Longrightarrow>
      read_json m (json_text x @ r) = Some (x, r)"
    and "length (separated (map json_text xs)) < n"
  shows "read_elements n (separated (map json_text xs) @ CHR '']'' # rest) = Some (xs, rest)"
  using assms
proof (induction xs arbitrary: n)
  case (Cons x xs)
  then obtain m where n: "n = Suc m" by (cases n) auto
  have nc: "\<not> number_char (CHR '']'')" "\<not> number_char (CHR '','')" by (simp_all add: number_char_def isdigit_def)
  show ?case
  proof (cases xs)
    case Nil
    with Cons.prems(2) [of x m "CHR '']'' # rest"] Cons.prems(3) n nc show ?thesis by simp
  next
    case (Cons y ys)
    let ?t = "separated (map json_text xs) @ CHR '']'' # rest"
    have "separated (map json_text (x # xs)) = json_text x @ CHR '','' # separated (map json_text xs)"
      by (simp add: Cons)
    then have len: "length (json_text x) \<le> m" "length (separated (map json_text xs)) < m"
      and whole: "separated (map json_text (x # xs)) @ CHR '']'' # rest = json_text x @ CHR '','' # ?t"
      using Cons.prems(3) n by simp_all
    have "read_json m (json_text x @ CHR '','' # ?t) = Some (x, CHR '','' # ?t)"
      using Cons.prems(2) [of x m "CHR '','' # ?t"] len(1) nc by simp
    moreover have "read_elements m ?t = Some (xs, rest)"
      using Cons.prems(2) len(2) by (intro Cons.IH) (auto simp: Cons)
    ultimately show ?thesis unfolding n whole by simp
  qed
qed simp

lemma read_members_text:
  assumes "ps \<noteq> []" "\<And>p m r. p \<in> set ps \<Longrightarrow> length (json_text (snd p)) \<le> m \<Longrightarrow> r = [] \<or> \<not> number_char (hd r) \<Longrightarrow>
      read_json m (json_text (snd p) @ r) = Some (snd p, r)"
    and "length (separated (map (\<lambda>p. member_text (fst p, json_text (snd p))) ps)) < n"
  shows "read_members n (separated (map (\<lambda>p. member_text (fst p, json_text (snd p))) ps) @ CHR ''}'' # rest) = Some (ps, rest)"
  using assms
proof (induction ps arbitrary: n)
  case (Cons p ps)
  let ?f = "\<lambda>p. member_text (fst p, json_text (snd p))"
  obtain m where n: "n = Suc m" using Cons.prems(3) by (cases n) auto
  have nc: "\<not> number_char (CHR ''}'')" "\<not> number_char (CHR '','')" by (simp_all add: number_char_def isdigit_def)
  have m: "?f p = jsonQuote (fst p) @ CHR '':'' # json_text (snd p)" by (simp add: member_text_def)
  show ?case
  proof (cases ps)
    case Nil
    then have "length (json_text (snd p)) \<le> m" using Cons.prems(3) n by (simp add: m)
    with Nil Cons.prems(2) [of p m "CHR ''}'' # rest"] n nc show ?thesis by (simp add: m read_quoted_jsonQuote)
  next
    case (Cons q qs)
    let ?t = "separated (map ?f ps) @ CHR ''}'' # rest"
    have sep: "separated (map ?f (p # ps)) = ?f p @ CHR '','' # separated (map ?f ps)" by (simp add: Cons)
    then have len: "length (json_text (snd p)) \<le> m" "length (separated (map ?f ps)) < m"
      using Cons.prems(3) n by (simp_all add: m)
    have whole: "separated (map ?f (p # ps)) @ CHR ''}'' # rest = jsonQuote (fst p) @ CHR '':'' # json_text (snd p) @ CHR '','' # ?t"
      unfolding sep by (simp add: m)
    have "read_json m (json_text (snd p) @ CHR '','' # ?t) = Some (snd p, CHR '','' # ?t)"
      using Cons.prems(2) [of p m "CHR '','' # ?t"] len(1) nc by simp
    moreover have "read_members m ?t = Some (ps, rest)"
      using Cons.prems(2) len(2) by (intro Cons.IH) (auto simp: Cons)
    ultimately show ?thesis unfolding n whole by (simp add: read_quoted_jsonQuote)
  qed
qed simp

lemma separated_head: "xs \<noteq> [] \<Longrightarrow> hd xs \<noteq> [] \<Longrightarrow> separated xs \<noteq> [] \<and> hd (separated xs) = hd (hd xs)"
  by (cases xs rule: separated.cases) simp_all

lemma read_json_text:
  "json_ok j \<Longrightarrow> length (json_text j) \<le> n \<Longrightarrow> rest = [] \<or> \<not> number_char (hd rest) \<Longrightarrow>
   read_json n (json_text j @ rest) = Some (j, rest)"
proof (induction j arbitrary: n rest)
  case (JString s)
  then obtain m where "n = Suc m" by (cases n) (auto simp: jsonQuote_def)
  moreover have "jsonQuote s @ rest = dquote # jsonEscape s @ dquote # rest" by (simp add: jsonQuote_def)
  ultimately show ?case using read_quoted_jsonQuote [of s rest] by simp
next
  case (JNumber s)
  note num = json_number_chars [of s]
  from JNumber num obtain m where n: "n = Suc m" by (cases n) auto
  from JNumber num obtain c t where s: "s = c # t" "isdigit c \<or> c = CHR ''-''" by (cases s) auto
  then have "c \<notin> {dquote, CHR ''{'', CHR ''['', CHR ''t'', CHR ''f''}" by (auto simp: isdigit_def)
  then show ?case using read_number_token [of s rest] JNumber by (auto simp: n s)
next
  case (JBool b)
  then obtain m where "n = Suc m" by (cases n) (auto simp: bool_text_def split: if_splits)
  then show ?case by (simp add: bool_text_def)
next
  case (JArray xs)
  then obtain m where n: "n = Suc m" by (cases n) (auto simp: array_text_def)
  show ?case
  proof (cases "xs = []")
    case False
    have "separated (map json_text xs) \<noteq> [] \<and> hd (separated (map json_text xs)) = hd (json_text (hd xs))"
      using False JArray.prems(1) json_text_nonempty [of "hd xs"] separated_head [of "map json_text xs"]
      by (cases xs) simp_all
    moreover have "json_ok (hd xs)" using False JArray.prems(1) by (cases xs) simp_all
    ultimately have "\<not> prefix '']'' (separated (map json_text xs) @ CHR '']'' # rest)"
      using json_text_head [of "hd xs"] by (cases "separated (map json_text xs)") auto
    moreover have "read_elements m (separated (map json_text xs) @ CHR '']'' # rest) = Some (xs, rest)"
      using False JArray.prems n by (intro read_elements_text JArray.IH) (auto simp: array_text_def list_all_iff)
    ultimately show ?thesis by (simp add: n array_text_def)
  qed (simp add: n array_text_def)
next
  case (JObject ps)
  then obtain m where n: "n = Suc m" by (cases n) (auto simp: object_text_def)
  let ?f = "\<lambda>p. member_text (fst p, json_text (snd p))"
  have whole: "json_text (JObject ps) = CHR ''{'' # separated (map ?f ps) @ ''}''"
    by (simp add: object_text_def o_def case_prod_unfold)
  show ?case
  proof (cases "ps = []")
    case False
    then have "separated (map ?f ps) \<noteq> [] \<and> hd (separated (map ?f ps)) = dquote"
      using separated_head [of "map ?f ps"] by (cases ps) (simp_all add: member_text_def jsonQuote_def)
    then have "\<not> prefix ''}'' (separated (map ?f ps) @ CHR ''}'' # rest)"
      by (cases "separated (map ?f ps)") auto
    moreover have "read_members m (separated (map ?f ps) @ CHR ''}'' # rest) = Some (ps, rest)"
    proof (rule read_members_text [OF False])
      fix p m r
      assume "p \<in> set ps" "length (json_text (snd p)) \<le> m" "r = [] \<or> \<not> number_char (hd r)"
      then show "read_json m (json_text (snd p) @ r) = Some (snd p, r)"
        using JObject.prems(1) by (intro JObject.IH [of p]) (auto simp: list_all_iff snds.simps)
    next
      show "length (separated (map ?f ps)) < m" using JObject.prems(2) n unfolding whole by simp
    qed
    ultimately show ?thesis unfolding whole by (simp add: n)
  qed (simp add: n object_text_def)
qed

lemma read_document_text: "json_ok j \<Longrightarrow> read_document (json_text j) = Some j"
  using read_json_text [of j "length (json_text j)" "[]"] by (simp add: read_document_def)

end
