(* ===== verification/Sqlite_Store.thy ===== *)
theory Sqlite_Store
  imports Json_Text State_Store "HOL-Library.List_Lexorder" "HOL-Library.Product_Lexorder" "HOL-Library.Char_ord"
begin

text \<open>
  \<^verbatim>\<open>SqliteStore\<close> of \<^verbatim>\<open>src/src/sqlite_store.cpp\<close>. A table is the list of its rows in the order of insertion, and
  every SQL statement of the source is the function on tables that it denotes. What SQL or the library leave
  open is an argument: \<open>scan\<close> permutes the rows before a sort and stands for the order of rows that an
  \<^verbatim>\<open>ORDER BY\<close> does not fix, \<open>ok\<close> tells whether a statement can be prepared and run, and \<open>sizes\<close> are the
  successive readings of the size of the database file. Transactions are taken to commit.
\<close>

section \<open>Values\<close>

text \<open>
  \<^verbatim>\<open>sqlite3_bind_text\<close> with length -1 binds the text up to its first null character; times are bound as whole
  seconds and counters as signed 64-bit integers.
\<close>

definition bindText :: "string \<Rightarrow> string" where
  "bindText v = takeWhile (\<lambda>c. c \<noteq> CHR 0x00) v"

definition unixSeconds :: "time \<Rightarrow> int" where
  "unixSeconds tp = (if tp = 0 then 0 else to_time_t tp)"

definition timeFromColumn :: "int \<Rightarrow> time" where
  "timeFromColumn secs = (if secs \<le> 0 then 0 else fromUnixSeconds secs)"

definition parseStatus :: "string \<Rightarrow> DeviceStatus" where
  "parseStatus v =
     (let normalized = lower v
      in if normalized = ''online'' then Online
         else if normalized = ''idle'' then Idle
         else if normalized = ''offline'' then Offline
         else Unknown)"

definition parseSeverity :: "string \<Rightarrow> EventSeverity" where
  "parseSeverity v =
     (let normalized = lower v
      in if normalized = ''warning'' then Warning else if normalized = ''critical'' then Critical else Info)"

definition tagsText :: "string list \<Rightarrow> string" where
  "tagsText tags = join_with (CHR '','') tags"

definition parseTags :: "string \<Rightarrow> string list" where
  "parseTags v = filter (\<lambda>item. item \<noteq> []) (map trim (split v (CHR '','')))"

definition fieldsJson :: "fields \<Rightarrow> string" where
  "fieldsJson flds = object_text (map (\<lambda>key. (key, jsonQuote (dget_or flds key []))) (sort (map fst flds)))"

definition sqliteDeviceKey :: "DeviceState \<Rightarrow> string" where
  "sqliteDeviceKey device =
     (let mac = lower (dv_mac device)
      in if mac \<noteq> [] then ''mac:'' @ mac else if dv_ip device \<noteq> [] then ''ip:'' @ dv_ip device else [])"

section \<open>Tables\<close>

record device_row =
  dr_key :: string
  dr_mac :: string
  dr_ip :: string
  dr_hostname :: string
  dr_interface_name :: string
  dr_source :: string
  dr_neigh_state :: string
  dr_status :: string
  dr_first_seen :: int
  dr_last_seen :: int
  dr_last_dhcp :: int
  dr_last_traffic :: int
  dr_last_rate :: int
  dr_rx_bytes_total :: int
  dr_tx_bytes_total :: int
  dr_rx_rate_bps :: double
  dr_tx_rate_bps :: double
  dr_tags :: string
  dr_updated_at :: int

record traffic_row =
  tr_id :: int
  tr_mac :: string
  tr_ip :: string
  tr_ts :: int
  tr_rx_bytes :: int
  tr_tx_bytes :: int

record event_row =
  er_id :: string
  er_ts :: int
  er_type :: string
  er_severity :: string
  er_source :: string
  er_message :: string
  er_fields_json :: string

record attack_row =
  ar_id :: int
  ar_ts :: int
  ar_in_if :: string
  ar_src_ip :: string
  ar_dst_ip :: string
  ar_src_port :: string
  ar_dst_port :: string
  ar_proto :: string
  ar_length :: string
  ar_raw :: string

text \<open>The tables, and the last identifier that each \<^verbatim>\<open>AUTOINCREMENT\<close> column has used.\<close>

record Database =
  db_devices :: "device_row list"
  db_traffic :: "traffic_row list"
  db_events :: "event_row list"
  db_attacks :: "attack_row list"
  db_traffic_seq :: int
  db_attack_seq :: int
  db_migrations :: "(int \<times> int) list"

definition db_empty :: Database where
  "db_empty = \<lparr>db_devices = [], db_traffic = [], db_events = [], db_attacks = [], db_traffic_seq = 0, db_attack_seq = 0,
     db_migrations = []\<rparr>"

section \<open>Writing\<close>

definition device_row_of :: "time \<Rightarrow> DeviceState \<Rightarrow> device_row" where
  "device_row_of now device =
     \<lparr>dr_key = bindText (sqliteDeviceKey device), dr_mac = bindText (lower (dv_mac device)), dr_ip = bindText (dv_ip device),
      dr_hostname = bindText (dv_hostname device), dr_interface_name = bindText (dv_interface_name device),
      dr_source = bindText (dv_source device), dr_neigh_state = bindText (dv_neigh_state device),
      dr_status = bindText (toString_status (dv_status device)),
      dr_first_seen = unixSeconds (dv_first_seen device), dr_last_seen = unixSeconds (dv_last_seen device),
      dr_last_dhcp = unixSeconds (dv_last_dhcp device), dr_last_traffic = unixSeconds (dv_last_traffic device),
      dr_last_rate = unixSeconds (dv_last_rate device),
      dr_rx_bytes_total = sint (dv_rx_bytes_total device), dr_tx_bytes_total = sint (dv_tx_bytes_total device),
      dr_rx_rate_bps = dv_rx_rate_bps device, dr_tx_rate_bps = dv_tx_rate_bps device,
      dr_tags = bindText (tagsText (dv_tags device)), dr_updated_at = unixSeconds now\<rparr>"

text \<open>\<^verbatim>\<open>INSERT \<dots> ON CONFLICT(device_key) DO UPDATE\<close>.\<close>

definition upsert_row :: "device_row \<Rightarrow> device_row list \<Rightarrow> device_row list" where
  "upsert_row row rows =
     (if list_ex (\<lambda>r. dr_key r = dr_key row) rows
      then map (\<lambda>r. if dr_key r = dr_key row then row else r) rows
      else rows @ [row])"

text \<open>The loop over the devices; \<open>clk\<close> and \<open>step_ok\<close> are the clock reading and the outcome of each step.\<close>

fun upsert_loop :: "clock \<Rightarrow> (nat \<Rightarrow> bool) \<Rightarrow> nat \<Rightarrow> DeviceState list \<Rightarrow> device_row list \<Rightarrow> device_row list" where
  "upsert_loop clk step_ok i [] rows = rows"
| "upsert_loop clk step_ok i (device # ds) rows =
     (if sqliteDeviceKey device = [] then upsert_loop clk step_ok i ds rows
      else upsert_loop clk step_ok (Suc i) ds
             (if step_ok i then upsert_row (device_row_of (clk i) device) rows else rows))"

definition upsertDevices :: "bool \<Rightarrow> clock \<Rightarrow> (nat \<Rightarrow> bool) \<Rightarrow> DeviceState list \<Rightarrow> Database \<Rightarrow> Database" where
  "upsertDevices ok clk step_ok ds db =
     (if ds = [] \<or> \<not> ok then db else db\<lparr>db_devices := upsert_loop clk step_ok 0 ds (db_devices db)\<rparr>)"

definition insertTraffic :: "bool \<Rightarrow> TrafficSnapshot \<Rightarrow> Database \<Rightarrow> Database" where
  "insertTraffic ok snap db =
     (if \<not> ok then db
      else let i = db_traffic_seq db + 1
           in db\<lparr>db_traffic := db_traffic db @
                   [\<lparr>tr_id = i, tr_mac = bindText (lower (ts_mac snap)), tr_ip = bindText (ts_ip snap),
                     tr_ts = unixSeconds (ts_ts snap), tr_rx_bytes = sint (ts_rx_bytes snap),
                     tr_tx_bytes = sint (ts_tx_bytes snap)\<rparr>],
                 db_traffic_seq := i\<rparr>)"

definition event_row_of :: "Event \<Rightarrow> event_row" where
  "event_row_of event =
     \<lparr>er_id = bindText (ev_id event), er_ts = unixSeconds (ev_ts event), er_type = bindText (ev_type event),
      er_severity = bindText (toString_severity (ev_severity event)), er_source = bindText (ev_source event),
      er_message = bindText (ev_message event), er_fields_json = bindText (fieldsJson (ev_fields event))\<rparr>"

text \<open>\<^verbatim>\<open>INSERT OR REPLACE\<close>: an older row with the same identifier goes.\<close>

definition insertEvent :: "bool \<Rightarrow> Event \<Rightarrow> Database \<Rightarrow> Database" where
  "insertEvent ok event db =
     (if \<not> ok then db
      else let row = event_row_of event
           in db\<lparr>db_events := filter (\<lambda>r. er_id r \<noteq> er_id row) (db_events db) @ [row]\<rparr>)"

definition insertWANAttack :: "bool \<Rightarrow> WANAttackEvent \<Rightarrow> Database \<Rightarrow> Database" where
  "insertWANAttack ok event db =
     (if \<not> ok then db
      else let i = db_attack_seq db + 1
           in db\<lparr>db_attacks := db_attacks db @
                   [\<lparr>ar_id = i, ar_ts = unixSeconds (wa_ts event), ar_in_if = bindText (wa_in_if event),
                     ar_src_ip = bindText (wa_src_ip event), ar_dst_ip = bindText (wa_dst_ip event),
                     ar_src_port = bindText (wa_src_port event), ar_dst_port = bindText (wa_dst_port event),
                     ar_proto = bindText (wa_proto event), ar_length = bindText (wa_length event),
                     ar_raw = bindText (wa_raw event)\<rparr>],
                 db_attack_seq := i\<rparr>)"

section \<open>Reading\<close>

text \<open>\<^verbatim>\<open>LIMIT\<close> with a bound 64-bit value: a negative one means no limit.\<close>

definition limit_rows :: "u64 \<Rightarrow> 'a list \<Rightarrow> 'a list" where
  "limit_rows n rows = (if sint n < 0 then rows else take (nat (sint n)) rows)"

definition deviceFromStatement :: "device_row \<Rightarrow> DeviceState" where
  "deviceFromStatement row =
     \<lparr>dv_mac = dr_mac row, dv_ip = dr_ip row, dv_hostname = dr_hostname row, dv_interface_name = dr_interface_name row,
      dv_source = dr_source row, dv_neigh_state = dr_neigh_state row, dv_status = parseStatus (dr_status row),
      dv_first_seen = timeFromColumn (dr_first_seen row), dv_last_seen = timeFromColumn (dr_last_seen row),
      dv_last_dhcp = timeFromColumn (dr_last_dhcp row), dv_last_traffic = timeFromColumn (dr_last_traffic row),
      dv_last_rate = timeFromColumn (dr_last_rate row),
      dv_rx_bytes_total = of_int (dr_rx_bytes_total row), dv_tx_bytes_total = of_int (dr_tx_bytes_total row),
      dv_rx_rate_bps = dr_rx_rate_bps row, dv_tx_rate_bps = dr_tx_rate_bps row, dv_tags = parseTags (dr_tags row)\<rparr>"

definition impl_devices ::
  "(device_row list \<Rightarrow> device_row list) \<Rightarrow> bool \<Rightarrow> u64 \<Rightarrow> Database \<Rightarrow> DeviceState list" where
  "impl_devices scan ok limit db =
     (if \<not> ok then []
      else map deviceFromStatement
             (limit_rows (if limit = 0 then 1000 else limit) (sort_key (\<lambda>r. - dr_last_seen r) (scan (db_devices db)))))"

definition eventFromStatement :: "event_row \<Rightarrow> Event" where
  "eventFromStatement row =
     \<lparr>ev_id = er_id row, ev_ts = timeFromColumn (er_ts row), ev_type = er_type row,
      ev_severity = parseSeverity (er_severity row), ev_source = er_source row, ev_message = er_message row,
      ev_fields = (if er_fields_json row \<noteq> [] then [(''fields_json'', er_fields_json row)] else [])\<rparr>"

definition impl_recentEvents ::
  "(event_row list \<Rightarrow> event_row list) \<Rightarrow> bool \<Rightarrow> u64 \<Rightarrow> Database \<Rightarrow> Event list" where
  "impl_recentEvents scan ok limit db =
     (if \<not> ok then []
      else map eventFromStatement
             (limit_rows (if limit = 0 then 100 else limit) (sort_key (\<lambda>r. - er_ts r) (scan (db_events db)))))"

definition wanAttackFromStatement :: "attack_row \<Rightarrow> WANAttackEvent" where
  "wanAttackFromStatement row =
     \<lparr>wa_ts = timeFromColumn (ar_ts row), wa_in_if = ar_in_if row, wa_src_ip = ar_src_ip row, wa_dst_ip = ar_dst_ip row,
      wa_src_port = ar_src_port row, wa_dst_port = ar_dst_port row, wa_proto = ar_proto row, wa_length = ar_length row,
      wa_raw = ar_raw row\<rparr>"

definition impl_recentWANAttacks ::
  "(attack_row list \<Rightarrow> attack_row list) \<Rightarrow> bool \<Rightarrow> u64 \<Rightarrow> Database \<Rightarrow> WANAttackEvent list" where
  "impl_recentWANAttacks scan ok limit db =
     (if \<not> ok then []
      else map wanAttackFromStatement
             (limit_rows (if limit = 0 then 100 else limit) (sort_key (\<lambda>r. - ar_ts r) (scan (db_attacks db)))))"

section \<open>Loading the state\<close>

text \<open>Each row goes to the store with its own readings of the clock.\<close>

fun load_rows :: "(clock \<Rightarrow> 'a \<Rightarrow> StateStore \<Rightarrow> StateStore) \<Rightarrow> (nat \<Rightarrow> clock) \<Rightarrow> nat \<Rightarrow> 'a list \<Rightarrow> StateStore \<Rightarrow> StateStore" where
  "load_rows f clks i [] s = s"
| "load_rows f clks i (x # xs) s = load_rows f clks (Suc i) xs (f (clks i) x s)"

definition loadDevices ::
  "(device_row list \<Rightarrow> device_row list) \<Rightarrow> bool \<Rightarrow> (nat \<Rightarrow> clock) \<Rightarrow> Database \<Rightarrow> StateStore \<Rightarrow> StateStore" where
  "loadDevices scan ok clks db s =
     (if \<not> ok then s
      else load_rows updateDevice clks 0 (map deviceFromStatement (sort_key dr_last_seen (scan (db_devices db)))) s)"

definition loadEvents ::
  "(event_row list \<Rightarrow> event_row list) \<Rightarrow> bool \<Rightarrow> (nat \<Rightarrow> clock) \<Rightarrow> Config \<Rightarrow> Database \<Rightarrow> StateStore \<Rightarrow> StateStore" where
  "loadEvents scan ok clks config db s =
     (if \<not> ok then s
      else load_rows addEvent clks 0
             (map eventFromStatement
               (sort_key er_ts (scan (limit_rows (max_events config) (sort_key (\<lambda>r. - er_ts r) (scan (db_events db))))))) s)"

definition loadWANAttacks ::
  "(attack_row list \<Rightarrow> attack_row list) \<Rightarrow> bool \<Rightarrow> (nat \<Rightarrow> clock) \<Rightarrow> Config \<Rightarrow> Database \<Rightarrow> StateStore \<Rightarrow> StateStore" where
  "loadWANAttacks scan ok clks config db s =
     (if \<not> ok then s
      else load_rows addWANAttack clks 0
             (map wanAttackFromStatement
               (sort_key ar_ts
                 (scan (limit_rows (max_attack_events config) (sort_key (\<lambda>r. - ar_ts r) (scan (db_attacks db))))))) s)"

definition impl_loadInto ::
  "(device_row list \<Rightarrow> device_row list) \<Rightarrow> (event_row list \<Rightarrow> event_row list) \<Rightarrow> (attack_row list \<Rightarrow> attack_row list)
     \<Rightarrow> (nat \<Rightarrow> bool) \<Rightarrow> (nat \<Rightarrow> nat \<Rightarrow> clock) \<Rightarrow> Config \<Rightarrow> Database \<Rightarrow> StateStore \<Rightarrow> StateStore" where
  "impl_loadInto scan_d scan_e scan_a ok clks config db s =
     loadWANAttacks scan_a (ok 2) (clks 2) config db
       (loadEvents scan_e (ok 1) (clks 1) config db
         (loadDevices scan_d (ok 0) (clks 0) db s))"

section \<open>The traffic history\<close>

record TrafficHistoryPoint =
  hp_ts :: time
  hp_rx_rate_bps :: double
  hp_tx_rate_bps :: double
  hp_samples :: nat

record PreviousSample =
  ps_ts :: time
  ps_rx_bytes :: u64
  ps_tx_bytes :: u64

record Bucket =
  bk_rx_rate_bps :: double
  bk_tx_rate_bps :: double
  bk_samples :: nat

definition traffic_key :: "string \<Rightarrow> string \<Rightarrow> string" where
  "traffic_key mac ip = (if mac \<noteq> [] then ''mac:'' @ lower mac else ''ip:'' @ ip)"

text \<open>Both operands of the remainder have the sign of the C++ operator.\<close>

definition bucket_of :: "int \<Rightarrow> int" where
  "bucket_of secs = secs - (if secs < 0 then - ((- secs) mod 5) else secs mod 5)"

definition add_to_bucket :: "double \<Rightarrow> double \<Rightarrow> Bucket \<Rightarrow> Bucket" where
  "add_to_bucket rx tx b =
     \<lparr>bk_rx_rate_bps = fl (bk_rx_rate_bps b + rx), bk_tx_rate_bps = fl (bk_tx_rate_bps b + tx), bk_samples = bk_samples b + 1\<rparr>"

type_synonym history = "(string \<times> PreviousSample) list \<times> (int \<times> Bucket) list"

definition history_row :: "traffic_row \<Rightarrow> history \<Rightarrow> history" where
  "history_row row h =
     (case h of (previous_by_device, buckets) \<Rightarrow>
        let key = traffic_key (tr_mac row) (tr_ip row);
            rx_bytes = of_int (tr_rx_bytes row);
            tx_bytes = of_int (tr_tx_bytes row);
            ts = fromUnixSeconds (tr_ts row)
        in if key = ''ip:'' then h
           else (dput key \<lparr>ps_ts = ts, ps_rx_bytes = rx_bytes, ps_tx_bytes = tx_bytes\<rparr> previous_by_device,
                 case dget previous_by_device key of
                   None \<Rightarrow> buckets
                 | Some previous \<Rightarrow>
                     let dt = seconds_of_ns (tdiff ts (ps_ts previous));
                         reset = (rx_bytes < ps_rx_bytes previous \<or> tx_bytes < ps_tx_bytes previous)
                     in if 0 < dt \<and> \<not> reset
                        then dput (bucket_of (tr_ts row))
                               (add_to_bucket (rate_of (rx_bytes - ps_rx_bytes previous) dt)
                                  (rate_of (tx_bytes - ps_tx_bytes previous) dt)
                                  (dget_or buckets (bucket_of (tr_ts row)) \<lparr>bk_rx_rate_bps = 0, bk_tx_rate_bps = 0, bk_samples = 0\<rparr>))
                               buckets
                        else buckets))"

definition history_points :: "(int \<times> Bucket) list \<Rightarrow> TrafficHistoryPoint list" where
  "history_points buckets =
     map (\<lambda>(bucket_ts, b). \<lparr>hp_ts = fromUnixSeconds bucket_ts, hp_rx_rate_bps = bk_rx_rate_bps b,
                             hp_tx_rate_bps = bk_tx_rate_bps b, hp_samples = bk_samples b\<rparr>)
       (sort_key fst buckets)"

definition impl_trafficHistory :: "bool \<Rightarrow> u64 \<Rightarrow> Database \<Rightarrow> TrafficHistoryPoint list" where
  "impl_trafficHistory ok limit db =
     (let wanted = (if limit = 0 then 180 else min limit 720);
          row_limit = max (wanted * 12) wanted;
          newest = limit_rows row_limit (rev (sort_key (\<lambda>r. (tr_ts r, tr_id r)) (db_traffic db)));
          rows = sort_key (\<lambda>r. (tr_ts r, tr_id r)) newest
      in if \<not> ok then []
         else last_n (unat wanted) (history_points (snd (fold history_row rows ([], [])))))"

section \<open>Traffic totals\<close>

record DeviceTrafficTotal =
  tt_mac :: string
  tt_ip :: string
  tt_hostname :: string
  tt_first_ts :: time
  tt_last_ts :: time
  tt_rx_bytes :: u64
  tt_tx_bytes :: u64
  tt_samples :: nat

record Accumulator =
  ac_total :: DeviceTrafficTotal
  ac_previous_rx :: u64
  ac_previous_tx :: u64
  ac_has_previous :: bool

definition accumulator_new :: Accumulator where
  "accumulator_new =
     \<lparr>ac_total = \<lparr>tt_mac = [], tt_ip = [], tt_hostname = [], tt_first_ts = 0, tt_last_ts = 0, tt_rx_bytes = 0,
                  tt_tx_bytes = 0, tt_samples = 0\<rparr>,
      ac_previous_rx = 0, ac_previous_tx = 0, ac_has_previous = False\<rparr>"

text \<open>The address and the host name that the \<^verbatim>\<open>LEFT JOIN\<close> with the devices gives a sample.\<close>

definition joined :: "device_row list \<Rightarrow> traffic_row \<Rightarrow> string \<times> string" where
  "joined rows row =
     (case find (\<lambda>d. dr_key d = traffic_key (tr_mac row) (tr_ip row)) rows of
        None \<Rightarrow> (tr_ip row, [])
      | Some d \<Rightarrow> (if tr_ip row \<noteq> [] then tr_ip row else dr_ip d, dr_hostname d))"

definition grown :: "u64 \<Rightarrow> u64 \<Rightarrow> u64" where
  "grown current previous = (if previous \<le> current then current - previous else current)"

definition accumulate :: "string \<Rightarrow> string \<Rightarrow> string \<Rightarrow> traffic_row \<Rightarrow> Accumulator \<Rightarrow> Accumulator" where
  "accumulate mac ip hostname row acc =
     (let ts = timeFromColumn (tr_ts row);
          rx_bytes = of_int (tr_rx_bytes row);
          tx_bytes = of_int (tr_tx_bytes row);
          total = ac_total acc;
          total1 = (if tt_samples total = 0
                    then total\<lparr>tt_mac := mac, tt_ip := ip, tt_hostname := hostname, tt_first_ts := ts\<rparr>
                    else if ac_has_previous acc
                    then total\<lparr>tt_rx_bytes := tt_rx_bytes total + grown rx_bytes (ac_previous_rx acc),
                               tt_tx_bytes := tt_tx_bytes total + grown tx_bytes (ac_previous_tx acc)\<rparr>
                    else total)
      in \<lparr>ac_total = total1\<lparr>tt_last_ts := ts, tt_samples := tt_samples total1 + 1\<rparr>,
          ac_previous_rx = rx_bytes, ac_previous_tx = tx_bytes, ac_has_previous = True\<rparr>)"

definition totals_row :: "device_row list \<Rightarrow> traffic_row \<Rightarrow> (string \<times> Accumulator) list \<Rightarrow> (string \<times> Accumulator) list" where
  "totals_row rows row by_device =
     (let mac = lower (tr_mac row);
          (ip, hostname) = joined rows row;
          key = (if mac \<noteq> [] then ''mac:'' @ mac else ''ip:'' @ ip)
      in if key = ''ip:'' then by_device
         else dput key (accumulate mac ip hostname row (dget_or by_device key accumulator_new)) by_device)"

definition hours_ns :: "int \<Rightarrow> int" where
  "hours_ns h = wrap64 (h * 3600 * ns_per_s)"

definition impl_deviceTrafficTotals ::
  "(DeviceTrafficTotal list \<Rightarrow> DeviceTrafficTotal list) \<Rightarrow> bool \<Rightarrow> time \<Rightarrow> int \<Rightarrow> u64 \<Rightarrow> Database \<Rightarrow> DeviceTrafficTotal list" where
  "impl_deviceTrafficTotals scan ok now window limit db =
     (let cutoff = unixSeconds (tdiff now (hours_ns window));
          rows = sort_key (\<lambda>r. (traffic_key (tr_mac r) (tr_ip r), tr_ts r, tr_id r))
                   (filter (\<lambda>r. cutoff \<le> tr_ts r) (db_traffic db));
          out = map (ac_total \<circ> snd) (fold (totals_row (db_devices db)) rows []);
          sorted_out = sort_key (\<lambda>t. (- uint (tt_rx_bytes t + tt_tx_bytes t), - tt_last_ts t)) (scan out)
      in if \<not> ok then []
         else if 0 < limit \<and> unat limit < length sorted_out then take (unat limit) sorted_out else sorted_out)"

section \<open>Retention\<close>

definition deleteOlderThan :: "bool \<Rightarrow> ('r \<Rightarrow> int) \<Rightarrow> int \<Rightarrow> 'r list \<Rightarrow> 'r list" where
  "deleteOlderThan ok ts cutoff_seconds rows = (if ok then filter (\<lambda>r. \<not> ts r < cutoff_seconds) rows else rows)"

definition delete_ids :: "('r \<Rightarrow> 'i) \<Rightarrow> 'i list \<Rightarrow> 'r list \<Rightarrow> 'r list" where
  "delete_ids id_column ids rows = filter (\<lambda>r. id_column r \<notin> set ids) rows"

text \<open>A negative \<^verbatim>\<open>OFFSET\<close> counts as none.\<close>

definition deleteBeyondLimit :: "bool \<Rightarrow> ('r \<Rightarrow> int) \<Rightarrow> ('r \<Rightarrow> 'i :: linorder) \<Rightarrow> u64 \<Rightarrow> 'r list \<Rightarrow> 'r list" where
  "deleteBeyondLimit ok ts id_column limit rows =
     (if ok
      then delete_ids id_column
             (map id_column (drop (nat (sint limit)) (rev (sort_key (\<lambda>r. (ts r, id_column r)) rows)))) rows
      else rows)"

definition partition_key :: "traffic_row \<Rightarrow> string" where
  "partition_key row = (if tr_mac row \<noteq> [] then tr_mac row else tr_ip row)"

definition row_number :: "traffic_row list \<Rightarrow> traffic_row \<Rightarrow> nat" where
  "row_number rows row =
     Suc (length (filter (\<lambda>q. partition_key q = partition_key row \<and> (tr_ts row, tr_id row) < (tr_ts q, tr_id q)) rows))"

definition deleteTrafficBeyondDeviceLimit :: "bool \<Rightarrow> u64 \<Rightarrow> traffic_row list \<Rightarrow> traffic_row list" where
  "deleteTrafficBeyondDeviceLimit ok limit rows =
     (if ok then delete_ids tr_id (map tr_id (filter (\<lambda>r. sint limit < int (row_number rows r)) rows)) rows else rows)"

definition pruneOldRows :: "bool \<Rightarrow> ('r \<Rightarrow> int) \<Rightarrow> ('r \<Rightarrow> 'i :: linorder) \<Rightarrow> nat \<Rightarrow> 'r list \<Rightarrow> 'r list" where
  "pruneOldRows ok ts id_column limit rows =
     (if ok then delete_ids id_column (map id_column (take limit (sort_key (\<lambda>r. (ts r, id_column r)) rows))) rows else rows)"

text \<open>The rounds of \<^verbatim>\<open>enforceSizeLimit\<close>; \<open>sizes\<close> are the successive readings of \<^verbatim>\<open>databaseBytes\<close>.\<close>

fun prune_rounds :: "(nat \<Rightarrow> int) \<Rightarrow> (nat \<Rightarrow> nat \<Rightarrow> bool) \<Rightarrow> int \<Rightarrow> nat \<Rightarrow> nat \<Rightarrow> Database \<Rightarrow> Database" where
  "prune_rounds sizes ok max_bytes i 0 db = db"
| "prune_rounds sizes ok max_bytes i (Suc left) db =
     (if max_bytes < sizes i
      then prune_rounds sizes ok max_bytes (Suc i) left
             (db\<lparr>db_traffic := pruneOldRows (ok i 0) tr_ts tr_id 1000 (db_traffic db),
                 db_events := pruneOldRows (ok i 1) er_ts er_id 250 (db_events db),
                 db_attacks := pruneOldRows (ok i 2) ar_ts ar_id 250 (db_attacks db)\<rparr>)
      else db)"

definition max_db_bytes :: "Config \<Rightarrow> int" where
  "max_db_bytes config = max 1 (sqlite_max_db_mb config) * 1024 * 1024"

definition enforceSizeLimit :: "(nat \<Rightarrow> int) \<Rightarrow> (nat \<Rightarrow> nat \<Rightarrow> bool) \<Rightarrow> Config \<Rightarrow> Database \<Rightarrow> Database" where
  "enforceSizeLimit sizes ok config db =
     (if sizes 0 \<le> max_db_bytes config then db else prune_rounds sizes ok (max_db_bytes config) 1 12 db)"

definition wrap32 :: "int \<Rightarrow> int" where
  "wrap32 x = (x + 2 ^ 31) mod 2 ^ 32 - 2 ^ 31"

definition retention_cutoff :: "Config \<Rightarrow> time \<Rightarrow> int" where
  "retention_cutoff config now =
     (let retention_days = max 1 (sqlite_retention_days config)
      in unixSeconds (tdiff now (hours_ns (wrap32 (24 * retention_days)))))"

definition retention_statements :: "(nat \<Rightarrow> bool) \<Rightarrow> Config \<Rightarrow> int \<Rightarrow> Database \<Rightarrow> Database" where
  "retention_statements ok config cutoff_seconds db =
     (let events1 = deleteOlderThan (ok 0) er_ts cutoff_seconds (db_events db);
          attacks1 = deleteOlderThan (ok 1) ar_ts cutoff_seconds (db_attacks db);
          traffic1 = deleteOlderThan (ok 2) tr_ts cutoff_seconds (db_traffic db);
          events2 = deleteBeyondLimit (ok 3) er_ts er_id (max 1 (sqlite_max_events config)) events1;
          attacks2 = deleteBeyondLimit (ok 4) ar_ts ar_id (max 1 (max_attack_events config)) attacks1;
          traffic2 = deleteTrafficBeyondDeviceLimit (ok 5) (max 1 (sqlite_max_traffic_points_per_device config)) traffic1
      in db\<lparr>db_events := events2, db_attacks := attacks2, db_traffic := traffic2\<rparr>)"

text \<open>What the library answers while the retention runs: its statements, the sizes, and the rounds.\<close>

record retention_run =
  rt_ok :: "nat \<Rightarrow> bool"
  rt_sizes :: "nat \<Rightarrow> int"
  rt_prune_ok :: "nat \<Rightarrow> nat \<Rightarrow> bool"

definition impl_applyRetention :: "retention_run \<Rightarrow> Config \<Rightarrow> time \<Rightarrow> bool \<Rightarrow> Database \<Rightarrow> Database" where
  "impl_applyRetention run config now is_enabled db =
     (if \<not> is_enabled \<and> lower (storage_mode config) \<noteq> ''sqlite'' then db
      else enforceSizeLimit (rt_sizes run) (rt_prune_ok run) config
             (retention_statements (rt_ok run) config (retention_cutoff config now) db))"

section \<open>Opening\<close>

text \<open>
  What the dynamic loader and SQLite answer: whether the library and each symbol are there, and the error of
  opening the file and of each required statement, if any.
\<close>

record sqlite_env =
  en_library :: bool
  en_symbol :: "string \<Rightarrow> bool"
  en_open_error :: "string option"
  en_exec_error :: "nat \<Rightarrow> string option"

definition api_symbols :: "string list" where
  "api_symbols =
     [''sqlite3_open_v2'', ''sqlite3_close'', ''sqlite3_exec'', ''sqlite3_errmsg'', ''sqlite3_free'', ''sqlite3_prepare_v2'',
      ''sqlite3_step'', ''sqlite3_reset'', ''sqlite3_clear_bindings'', ''sqlite3_finalize'', ''sqlite3_bind_text'',
      ''sqlite3_bind_int64'', ''sqlite3_bind_double'', ''sqlite3_column_text'', ''sqlite3_column_int64'', ''sqlite3_column_double'']"

definition loadApi :: "sqlite_env \<Rightarrow> string option" where
  "loadApi env =
     (if \<not> en_library env then Some ''storage.mode=sqlite requires libsqlite3 at runtime''
      else map_option (\<lambda>name. ''sqlite: missing symbol '' @ name) (find (\<lambda>name. \<not> en_symbol env name) api_symbols))"

definition openDatabase :: "sqlite_env \<Rightarrow> Config \<Rightarrow> string option" where
  "openDatabase env config =
     map_option (\<lambda>message. ''sqlite: could not open '' @ sqlite_path config @ '': '' @ message) (en_open_error env)"

definition execRequired :: "sqlite_env \<Rightarrow> nat \<Rightarrow> string option" where
  "execRequired env i = map_option (\<lambda>message. ''sqlite: '' @ message) (en_exec_error env i)"

text \<open>Four pragmas, then the tables and the migration record in one statement.\<close>

definition initializeSchema :: "sqlite_env \<Rightarrow> time \<Rightarrow> Database \<Rightarrow> string + Database" where
  "initializeSchema env now db =
     (case find (\<lambda>i. execRequired env i \<noteq> None) [0..<5] of
        Some i \<Rightarrow> Inl (the (execRequired env i))
      | None \<Rightarrow> Inr (if list_ex (\<lambda>m. fst m = 1) (db_migrations db) then db
                      else db\<lparr>db_migrations := db_migrations db @ [(1, unixSeconds now)]\<rparr>))"

record SqliteStore =
  sq_config :: Config
  sq_enabled :: bool
  sq_db :: Database

text \<open>The constructor; \<open>file\<close> is the content of the database file, empty tables when it is new.\<close>

definition sqlite_new :: "sqlite_env \<Rightarrow> retention_run \<Rightarrow> clock \<Rightarrow> Config \<Rightarrow> Database \<Rightarrow> string + SqliteStore" where
  "sqlite_new env run clk config file =
     (if lower (storage_mode config) \<noteq> ''sqlite''
      then Inr \<lparr>sq_config = config, sq_enabled = False, sq_db = file\<rparr>
      else case loadApi env of
        Some message \<Rightarrow> Inl message
      | None \<Rightarrow> (case openDatabase env config of
          Some message \<Rightarrow> Inl message
        | None \<Rightarrow> (case initializeSchema env (clk 0) file of
            Inl message \<Rightarrow> Inl message
          | Inr db \<Rightarrow> Inr \<lparr>sq_config = config, sq_enabled = True,
                            sq_db = impl_applyRetention run config (clk 1) False db\<rparr>)))"

section \<open>The interface\<close>

definition on_db :: "(Database \<Rightarrow> Database) \<Rightarrow> SqliteStore \<Rightarrow> SqliteStore" where
  "on_db f st = (if sq_enabled st then st\<lparr>sq_db := f (sq_db st)\<rparr> else st)"

definition sqlite_loadInto ::
  "(device_row list \<Rightarrow> device_row list) \<Rightarrow> (event_row list \<Rightarrow> event_row list) \<Rightarrow> (attack_row list \<Rightarrow> attack_row list)
     \<Rightarrow> (nat \<Rightarrow> bool) \<Rightarrow> (nat \<Rightarrow> nat \<Rightarrow> clock) \<Rightarrow> SqliteStore \<Rightarrow> StateStore \<Rightarrow> StateStore" where
  "sqlite_loadInto scan_d scan_e scan_a ok clks st s =
     (if sq_enabled st then impl_loadInto scan_d scan_e scan_a ok clks (sq_config st) (sq_db st) s else s)"

definition sqlite_upsertDevices :: "bool \<Rightarrow> clock \<Rightarrow> (nat \<Rightarrow> bool) \<Rightarrow> DeviceState list \<Rightarrow> SqliteStore \<Rightarrow> SqliteStore" where
  "sqlite_upsertDevices ok clk step_ok ds = on_db (upsertDevices ok clk step_ok ds)"

definition sqlite_insertTraffic :: "bool \<Rightarrow> TrafficSnapshot \<Rightarrow> SqliteStore \<Rightarrow> SqliteStore" where
  "sqlite_insertTraffic ok snap = on_db (insertTraffic ok snap)"

definition sqlite_insertEvent :: "bool \<Rightarrow> Event \<Rightarrow> SqliteStore \<Rightarrow> SqliteStore" where
  "sqlite_insertEvent ok event = on_db (insertEvent ok event)"

definition sqlite_insertWANAttack :: "bool \<Rightarrow> WANAttackEvent \<Rightarrow> SqliteStore \<Rightarrow> SqliteStore" where
  "sqlite_insertWANAttack ok event = on_db (insertWANAttack ok event)"

definition sqlite_applyRetention :: "retention_run \<Rightarrow> time \<Rightarrow> SqliteStore \<Rightarrow> SqliteStore" where
  "sqlite_applyRetention run now st = on_db (impl_applyRetention run (sq_config st) now (sq_enabled st)) st"

definition sqlite_devices ::
  "(device_row list \<Rightarrow> device_row list) \<Rightarrow> bool \<Rightarrow> u64 \<Rightarrow> SqliteStore \<Rightarrow> DeviceState list" where
  "sqlite_devices scan ok limit st = (if sq_enabled st then impl_devices scan ok limit (sq_db st) else [])"

definition sqlite_recentEvents ::
  "(event_row list \<Rightarrow> event_row list) \<Rightarrow> bool \<Rightarrow> u64 \<Rightarrow> SqliteStore \<Rightarrow> Event list" where
  "sqlite_recentEvents scan ok limit st = (if sq_enabled st then impl_recentEvents scan ok limit (sq_db st) else [])"

definition sqlite_recentWANAttacks ::
  "(attack_row list \<Rightarrow> attack_row list) \<Rightarrow> bool \<Rightarrow> u64 \<Rightarrow> SqliteStore \<Rightarrow> WANAttackEvent list" where
  "sqlite_recentWANAttacks scan ok limit st = (if sq_enabled st then impl_recentWANAttacks scan ok limit (sq_db st) else [])"

definition sqlite_trafficHistory :: "bool \<Rightarrow> u64 \<Rightarrow> SqliteStore \<Rightarrow> TrafficHistoryPoint list" where
  "sqlite_trafficHistory ok limit st = (if sq_enabled st then impl_trafficHistory ok limit (sq_db st) else [])"

definition sqlite_deviceTrafficTotals ::
  "(DeviceTrafficTotal list \<Rightarrow> DeviceTrafficTotal list) \<Rightarrow> bool \<Rightarrow> time \<Rightarrow> int \<Rightarrow> u64 \<Rightarrow> SqliteStore \<Rightarrow> DeviceTrafficTotal list" where
  "sqlite_deviceTrafficTotals scan ok now window limit st =
     (if sq_enabled st then impl_deviceTrafficTotals scan ok now window limit (sq_db st) else [])"

end
