(* ===== verification/Sqlite_Properties.thy ===== *)
theory Sqlite_Properties
  imports Sqlite_Store Store_Properties
begin

text \<open>
  What the SQLite store guarantees: an invariant of the tables over every sequence of operations, what the
  retention and the size limit delete, what survives a restart, and what the traffic queries compute.
\<close>

section \<open>Rows\<close>

lemma delete_ids_subseq: "subseq (delete_ids f ids rows) rows"
  by (simp add: delete_ids_def)

lemma delete_ids_kept:
  assumes "distinct (map f rows)" "set gone \<subseteq> set rows"
  shows "delete_ids f (map f gone) rows = filter (\<lambda>r. r \<notin> set gone) rows"
  unfolding delete_ids_def
proof (rule filter_cong [OF refl])
  fix r assume "r \<in> set rows"
  then show "(f r \<notin> set (map f gone)) = (r \<notin> set gone)"
    using assms by (auto simp: distinct_map dest: inj_onD)
qed

lemma filter_split_list:
  assumes "distinct rows" "mset (xs @ ys) = mset rows"
  shows "set (filter (\<lambda>r. r \<notin> set ys) rows) = set xs"
    and "length (filter (\<lambda>r. r \<notin> set ys) rows) = length xs"
proof -
  have d: "distinct (xs @ ys)" using assms by (metis mset_eq_imp_distinct_iff)
  have s: "set rows = set xs \<union> set ys" using assms(2) by (metis set_append set_mset_mset)
  show 1: "set (filter (\<lambda>r. r \<notin> set ys) rows) = set xs" using d s by auto
  have "distinct (filter (\<lambda>r. r \<notin> set ys) rows)" using assms(1) by simp
  from distinct_card [OF this] show "length (filter (\<lambda>r. r \<notin> set ys) rows) = length xs"
    using 1 d distinct_card [of xs] by simp
qed

text \<open>Sorting by a key that contains a unique identifier is strict.\<close>

lemma sort_key_strict:
  fixes ts :: "'r \<Rightarrow> int" and f :: "'r \<Rightarrow> 'i :: linorder"
  assumes "distinct (map f rows)"
  shows "sorted_wrt (\<lambda>a b. (ts a, f a) < (ts b, f b)) (sort_key (\<lambda>r. (ts r, f r)) rows)"
proof -
  let ?k = "\<lambda>r. (ts r, f r)"
  have "distinct (map f (sort_key ?k rows))"
    using assms by (metis mset_eq_imp_distinct_iff mset_map mset_sort)
  then have "distinct (map ?k (sort_key ?k rows))"
    by (auto simp: distinct_map inj_on_def)
  then have "sorted_wrt (<) (map ?k (sort_key ?k rows))"
    by (simp add: strict_sorted_iff)
  then show ?thesis by (simp add: sorted_wrt_map)
qed

lemma deleteBeyondLimit_keeps:
  fixes ts :: "'r \<Rightarrow> int" and f :: "'r \<Rightarrow> 'i :: linorder" and limit :: u64
  assumes d: "distinct (map f rows)"
  defines "kept \<equiv> deleteBeyondLimit True ts f limit rows"
  shows "length kept = min (nat (sint limit)) (length rows)"
    and "k \<in> set kept \<Longrightarrow> x \<in> set rows \<Longrightarrow> x \<notin> set kept \<Longrightarrow> (ts x, f x) < (ts k, f k)"
proof -
  define s n where "s = rev (sort_key (\<lambda>r. (ts r, f r)) rows)" and "n = nat (sint limit)"
  have m: "mset s = mset rows" by (simp add: s_def)
  then have ms: "mset (take n s @ drop n s) = mset rows" by simp
  from m have ss: "set s = set rows" by (metis set_mset_mset)
  have dr: "distinct rows" using d by (simp add: distinct_map)
  have "set (drop n s) \<subseteq> set rows" unfolding ss [symmetric] by (rule set_drop_subset)
  then have kept: "kept = filter (\<lambda>r. r \<notin> set (drop n s)) rows"
    unfolding kept_def deleteBeyondLimit_def s_def n_def by (simp add: delete_ids_kept [OF d])
  have sp: "set kept = set (take n s)" "length kept = length (take n s)"
    unfolding kept by (rule filter_split_list [OF dr ms])+
  have ls: "length s = length rows" by (simp add: s_def)
  show "length kept = min (nat (sint limit)) (length rows)"
    unfolding sp(2) by (simp add: ls n_def min.commute)
  assume "k \<in> set kept" "x \<in> set rows" "x \<notin> set kept"
  then have kx: "k \<in> set (take n s)" "x \<in> set (drop n s)"
    using sp(1) unfolding ss [symmetric] by (blast, metis Un_iff append_take_drop_id set_append)
  have "sorted_wrt (\<lambda>a b. (ts b, f b) < (ts a, f a)) s"
    using sort_key_strict [OF d, of ts] unfolding s_def sorted_wrt_rev .
  then have "sorted_wrt (\<lambda>a b. (ts b, f b) < (ts a, f a)) (take n s @ drop n s)"
    unfolding append_take_drop_id .
  then show "(ts x, f x) < (ts k, f k)"
    using kx unfolding sorted_wrt_append by blast
qed

lemma pruneOldRows_length:
  fixes ts :: "'r \<Rightarrow> int" and f :: "'r \<Rightarrow> 'i :: linorder"
  assumes d: "distinct (map f rows)"
  shows "length rows \<le> length (pruneOldRows ok ts f n rows) + n"
proof -
  define s where "s = sort_key (\<lambda>r. (ts r, f r)) rows"
  have dr: "distinct rows" using d by (simp add: distinct_map)
  have ms: "mset (drop n s @ take n s) = mset rows"
    by (metis append_take_drop_id mset_append mset_sort s_def union_commute)
  have "set (take n s) \<subseteq> set rows" unfolding s_def by (metis set_sort set_take_subset)
  then have "pruneOldRows True ts f n rows = filter (\<lambda>r. r \<notin> set (take n s)) rows"
    by (simp add: pruneOldRows_def s_def delete_ids_kept [OF d])
  with filter_split_list(2) [OF dr ms] show ?thesis by (cases ok) (simp_all add: pruneOldRows_def s_def)
qed

section \<open>What the operations keep of the tables\<close>

definition ids_ok :: "int \<Rightarrow> int list \<Rightarrow> bool" where
  "ids_ok seq ids \<longleftrightarrow> sorted_wrt (<) ids \<and> (\<forall>i\<in>set ids. i \<le> seq)"

definition db_inv :: "Database \<Rightarrow> bool" where
  "db_inv db \<longleftrightarrow>
     distinct (map dr_key (db_devices db)) \<and> distinct (map er_id (db_events db)) \<and>
     ids_ok (db_traffic_seq db) (map tr_id (db_traffic db)) \<and> ids_ok (db_attack_seq db) (map ar_id (db_attacks db))"

lemma sorted_wrt_subseq: "subseq xs ys \<Longrightarrow> sorted_wrt P ys \<Longrightarrow> sorted_wrt P xs"
  by (induction rule: list_emb.induct) (auto dest: list_emb_set)

lemma subseq_keeps_distinct:
  assumes "subseq xs ys" "distinct ys"
  shows "distinct xs"
proof -
  have "sorted_wrt (\<noteq>) zs \<longleftrightarrow> distinct zs" for zs :: "'a list" by (induction zs) auto
  with sorted_wrt_subseq [OF assms(1)] assms(2) show ?thesis by blast
qed

lemma set_subseq: "subseq xs ys \<Longrightarrow> set xs \<subseteq> set ys"
  by (induction rule: list_emb.induct) auto

lemma ids_ok_subseq:
  assumes "subseq xs ys" "ids_ok seq (map f ys)"
  shows "ids_ok seq (map f xs)"
proof -
  have "subseq (map f xs) (map f ys)" using assms(1) by (rule subseq_map)
  with assms(2) show ?thesis
    unfolding ids_ok_def by (meson sorted_wrt_subseq set_subseq subsetD)
qed

lemma ids_ok_snoc: "ids_ok seq ids \<Longrightarrow> ids_ok (seq + 1) (ids @ [seq + 1])"
  by (force simp: ids_ok_def sorted_wrt_append)

lemma ids_ok_distinct: "ids_ok seq ids \<Longrightarrow> distinct ids"
  by (auto simp: ids_ok_def strict_sorted_iff)

text \<open>One database whose tables are sublists of those of another one, and which is otherwise equal.\<close>

definition only_deletes :: "Database \<Rightarrow> Database \<Rightarrow> bool" where
  "only_deletes db db' \<longleftrightarrow>
     subseq (db_events db') (db_events db) \<and> subseq (db_attacks db') (db_attacks db) \<and>
     subseq (db_traffic db') (db_traffic db) \<and> db_devices db' = db_devices db \<and>
     db_traffic_seq db' = db_traffic_seq db \<and> db_attack_seq db' = db_attack_seq db \<and>
     db_migrations db' = db_migrations db"

lemma only_deletes_refl: "only_deletes db db"
  by (simp add: only_deletes_def)

lemma only_deletes_trans: "only_deletes a b \<Longrightarrow> only_deletes b c \<Longrightarrow> only_deletes a c"
  unfolding only_deletes_def by (metis subseq_order.trans)

lemma only_deletes_inv: "only_deletes db db' \<Longrightarrow> db_inv db \<Longrightarrow> db_inv db'"
  unfolding only_deletes_def db_inv_def
  by (metis ids_ok_subseq subseq_keeps_distinct subseq_map)

lemma delete_subseq:
  "subseq (deleteOlderThan ok ts c rows) rows" "subseq (deleteBeyondLimit ok ts f l rows) rows"
  "subseq (pruneOldRows ok ts f n rows) rows" "subseq (deleteTrafficBeyondDeviceLimit ok l samples) samples"
  by (simp_all add: deleteOlderThan_def deleteBeyondLimit_def pruneOldRows_def deleteTrafficBeyondDeviceLimit_def
      delete_ids_subseq)

lemma retention_statements_only_deletes: "only_deletes db (retention_statements ok config c db)"
  unfolding only_deletes_def retention_statements_def Let_def
  by (auto intro: subseq_order.trans [OF delete_subseq(2) delete_subseq(1)]
      subseq_order.trans [OF delete_subseq(4) delete_subseq(1)])

lemma prune_rounds_only_deletes: "only_deletes db (prune_rounds sizes ok m i n db)"
proof (induction sizes ok m i n db rule: prune_rounds.induct)
  case (2 sizes ok max_bytes i left db)
  have "only_deletes db (db\<lparr>db_traffic := pruneOldRows (ok i 0) tr_ts tr_id 1000 (db_traffic db),
                 db_events := pruneOldRows (ok i 1) er_ts er_id 250 (db_events db),
                 db_attacks := pruneOldRows (ok i 2) ar_ts ar_id 250 (db_attacks db)\<rparr>)"
    by (simp add: only_deletes_def delete_subseq)
  with 2 show ?case by (auto intro: only_deletes_trans only_deletes_refl)
qed (simp add: only_deletes_refl)

lemma applyRetention_only_deletes: "only_deletes db (impl_applyRetention run config now en db)"
  unfolding impl_applyRetention_def enforceSizeLimit_def
  by (auto intro: only_deletes_refl retention_statements_only_deletes
      only_deletes_trans [OF retention_statements_only_deletes prune_rounds_only_deletes])

lemma upsert_row_keys:
  "distinct (map dr_key rows) \<Longrightarrow> distinct (map dr_key (upsert_row row rows))"
  "set (map dr_key (upsert_row row rows)) = insert (dr_key row) (set (map dr_key rows))"
proof -
  have same: "map dr_key (map (\<lambda>r. if dr_key r = dr_key row then row else r) rows) = map dr_key rows" by auto
  show "distinct (map dr_key rows) \<Longrightarrow> distinct (map dr_key (upsert_row row rows))"
    by (auto simp: upsert_row_def same list_ex_iff simp del: map_map)
  show "set (map dr_key (upsert_row row rows)) = insert (dr_key row) (set (map dr_key rows))"
    by (auto simp: upsert_row_def list_ex_iff)
qed

lemma upsert_loop_keys: "distinct (map dr_key rows) \<Longrightarrow> distinct (map dr_key (upsert_loop clk ok i ds rows))"
  by (induction clk ok i ds rows rule: upsert_loop.induct) (auto simp: upsert_row_keys(1))

inductive db_step :: "Database \<Rightarrow> Database \<Rightarrow> bool" where
  "db_step db (upsertDevices ok clk step_ok ds db)"
| "db_step db (insertTraffic ok snap db)"
| "db_step db (insertEvent ok event db)"
| "db_step db (insertWANAttack ok attack db)"
| "db_step db (impl_applyRetention run config now en db)"
| "initializeSchema env now db = Inr db' \<Longrightarrow> db_step db db'"

lemma db_step_inv: "db_step db db' \<Longrightarrow> db_inv db \<Longrightarrow> db_inv db'"
proof (induction rule: db_step.induct)
  case (1 db ok clk step_ok ds)
  then show ?case by (auto simp: db_inv_def upsertDevices_def upsert_loop_keys)
next
  case (2 db ok snap)
  then show ?case by (auto simp: db_inv_def insertTraffic_def Let_def ids_ok_snoc)
next
  case (3 db ok event)
  then show ?case by (auto simp: db_inv_def insertEvent_def Let_def distinct_map_filter)
next
  case (4 db ok attack)
  then show ?case by (auto simp: db_inv_def insertWANAttack_def Let_def ids_ok_snoc)
next
  case (5 db run config now en)
  then show ?case using only_deletes_inv applyRetention_only_deletes by blast
next
  case (6 env now db db')
  then show ?case by (auto simp: db_inv_def initializeSchema_def split: option.splits if_splits)
qed

lemma db_empty_inv: "db_inv db_empty"
  by (simp add: db_inv_def db_empty_def ids_ok_def)

interpretation database: invariant_system "\<lambda>db. db = db_empty" db_step db_inv
  by unfold_locales (simp add: db_empty_inv, rule db_step_inv)

text \<open>
  In every database file that the program has written, whatever operations ran, in whatever order, and
  whichever statements failed, every device key and every event identifier occurs once and the numbers of the
  samples and of the attacks grow strictly from row to row and never exceed the last number given out.
\<close>

theorem reachable_db_inv:
  assumes "reach (\<lambda>db. db = db_empty) db_step db"
  shows "db_inv db"
  using assms by (rule database.reach_inv)

theorem reachable_db_inv_witness:
  "db_inv (insertTraffic True \<lparr>ts_mac = ''AA'', ts_ip = [], ts_ts = 5, ts_rx_bytes = 1, ts_tx_bytes = 2\<rparr> db_empty)"
  by (rule reachable_db_inv) (auto intro: reach.intros db_step.intros)

section \<open>Retention\<close>

lemma nat_sint_small:
  fixes n :: u64
  assumes "n < 2 ^ 63"
  shows "sint n = int (unat n)"
proof -
  have "uint n < 2 ^ 63" using assms by (simp add: word_less_def)
  moreover have "- (2 ^ 63) \<le> uint n" by (rule order_trans [OF _ uint_ge_0]) simp
  ultimately have "signed_take_bit 63 (uint n) = uint n" by (rule signed_take_bit_int_eq_self [rotated])
  then show ?thesis by (simp add: sint_uint)
qed

text \<open>
  The contract of the retention for one table: of the rows that are young enough the newest \<open>n\<close> remain, in
  their order.
\<close>

definition keeps_newest :: "('r \<Rightarrow> int) \<Rightarrow> ('r \<Rightarrow> 'i :: linorder) \<Rightarrow> int \<Rightarrow> nat \<Rightarrow> 'r list \<Rightarrow> 'r list \<Rightarrow> bool" where
  "keeps_newest ts id_column cutoff n old new \<longleftrightarrow>
     (let young = filter (\<lambda>r. cutoff \<le> ts r) old
      in subseq new young \<and> length new = min n (length young) \<and>
         (\<forall>k\<in>set new. \<forall>x\<in>set young - set new. (ts x, id_column x) < (ts k, id_column k)))"

lemma delete_keeps_newest:
  fixes f :: "'r \<Rightarrow> 'i :: linorder"
  assumes "distinct (map f rows)"
  shows "keeps_newest ts f cutoff (nat (sint limit)) rows
           (deleteBeyondLimit True ts f limit (deleteOlderThan True ts cutoff rows))"
proof -
  define young where "young = filter (\<lambda>r. cutoff \<le> ts r) rows"
  have "deleteOlderThan True ts cutoff rows = young" by (simp add: deleteOlderThan_def young_def not_less)
  moreover have "distinct (map f young)" using assms by (simp add: young_def distinct_map_filter)
  ultimately show ?thesis
    using deleteBeyondLimit_keeps [where f = f and rows = young and ts = ts and limit = limit] delete_subseq(2) [of True ts f limit young]
    unfolding keeps_newest_def young_def [symmetric] Let_def by auto
qed

text \<open>In a strictly descending list the place of an element is the number of greater ones.\<close>

lemma count_greater:
  fixes key :: "'r \<Rightarrow> 'k :: linorder"
  assumes s: "sorted_wrt (\<lambda>a b. key b < key a) s" and i: "i < length s"
  shows "length (filter (\<lambda>q. key (s ! i) < key q) s) = i"
proof -
  have "{j. j < length s \<and> key (s ! i) < key (s ! j)} = {..<i}"
  proof (intro set_eqI iffI)
    fix j assume "j \<in> {j. j < length s \<and> key (s ! i) < key (s ! j)}"
    then show "j \<in> {..<i}"
      using s i by (metis (mono_tags, lifting) lessThan_iff linorder_neqE_nat mem_Collect_eq order_less_asym' sorted_wrt_nth_less)
  next
    fix j assume "j \<in> {..<i}"
    then show "j \<in> {j. j < length s \<and> key (s ! i) < key (s ! j)}"
      using sorted_wrt_nth_less [OF s] i by auto
  qed
  then show ?thesis by (simp add: length_filter_conv_card)
qed

lemma filter_rank_length:
  fixes key :: "'r \<Rightarrow> 'k :: linorder"
  assumes "distinct (map key rows)"
  shows "length (filter (\<lambda>r. length (filter (\<lambda>q. key r < key q) rows) < n) rows) = min n (length rows)"
proof -
  define s where "s = rev (sort_key key rows)"
  have m: "mset s = mset rows" by (simp add: s_def)
  have len: "length (filter P s) = length (filter P rows)" for P
    by (metis m mset_filter size_mset)
  have "distinct (map key (sort_key key rows))"
    using assms by (metis mset_eq_imp_distinct_iff mset_map mset_sort)
  then have "sorted_wrt (<) (map key (sort_key key rows))" by (simp add: strict_sorted_iff)
  then have d: "sorted_wrt (\<lambda>a b. key b < key a) s" by (simp add: s_def sorted_wrt_map sorted_wrt_rev)
  have "{i. i < length s \<and> length (filter (\<lambda>q. key (s ! i) < key q) s) < n} = {..<min n (length s)}"
    using count_greater [OF d] by auto
  then have "length (filter (\<lambda>r. length (filter (\<lambda>q. key r < key q) s) < n) s) = min n (length s)"
    by (simp add: length_filter_conv_card)
  then show ?thesis using len by (simp add: s_def)
qed

lemma traffic_delete_kept:
  assumes "distinct (map tr_id rows)"
  shows "deleteTrafficBeyondDeviceLimit True limit rows = filter (\<lambda>r. int (row_number rows r) \<le> sint limit) rows"
proof -
  have "deleteTrafficBeyondDeviceLimit True limit rows
      = filter (\<lambda>r. r \<notin> set (filter (\<lambda>r. sint limit < int (row_number rows r)) rows)) rows"
    unfolding deleteTrafficBeyondDeviceLimit_def by (simp add: delete_ids_kept [OF assms] del: set_filter)
  also have "\<dots> = filter (\<lambda>r. int (row_number rows r) \<le> sint limit) rows"
    by (rule filter_cong) auto
  finally show ?thesis .
qed

definition sample_age :: "traffic_row \<Rightarrow> int \<times> int" where
  "sample_age r = (tr_ts r, tr_id r)"

lemma row_number_partition:
  "row_number rows r = Suc (length (filter (\<lambda>q. sample_age r < sample_age q) (filter (\<lambda>q. partition_key q = partition_key r) rows)))"
  by (simp add: row_number_def sample_age_def conj_commute)

lemma row_number_mono:
  assumes "x \<in> set rows" "partition_key x = partition_key k" "sample_age k < sample_age x"
  shows "row_number rows x < row_number rows k"
proof -
  define P where "P = filter (\<lambda>q. partition_key q = partition_key k) rows"
  have "filter (\<lambda>q. sample_age x < sample_age q) P
      = filter (\<lambda>q. sample_age x < sample_age q) (filter (\<lambda>q. sample_age k < sample_age q) P)"
    using assms(3) by (auto intro: filter_cong)
  moreover have "x \<in> set (filter (\<lambda>q. sample_age k < sample_age q) P)" using assms by (simp add: P_def)
  ultimately have "length (filter (\<lambda>q. sample_age x < sample_age q) P) < length (filter (\<lambda>q. sample_age k < sample_age q) P)"
    by (metis length_filter_less order_less_irrefl)
  then show ?thesis by (simp add: row_number_partition assms(2) P_def)
qed

lemma traffic_keeps_newest:
  assumes d: "distinct (map tr_id rows)" and l: "limit < 2 ^ 63"
  shows "keeps_newest tr_ts tr_id cutoff (unat limit) (filter (\<lambda>r. partition_key r = p) rows)
           (filter (\<lambda>r. partition_key r = p)
             (deleteTrafficBeyondDeviceLimit True limit (deleteOlderThan True tr_ts cutoff rows)))"
proof -
  define young where "young = filter (\<lambda>r. cutoff \<le> tr_ts r) rows"
  define kept where "kept = deleteTrafficBeyondDeviceLimit True limit young"
  define P where "P = filter (\<lambda>r. partition_key r = p) young"
  have dy: "distinct (map tr_id young)" using d by (simp add: young_def distinct_map_filter)
  then have dP: "distinct (map sample_age P)"
    by (auto simp: P_def sample_age_def distinct_map inj_on_def)
  have kept: "kept = filter (\<lambda>r. row_number young r \<le> unat limit) young"
    using traffic_delete_kept [OF dy, of limit] by (simp only: kept_def nat_sint_small [OF l] of_nat_le_iff)
  have "filter (\<lambda>r. partition_key r = p) kept = filter (\<lambda>r. row_number young r \<le> unat limit) P"
    by (auto simp: kept P_def conj_commute)
  also have "\<dots> = filter (\<lambda>r. length (filter (\<lambda>q. sample_age r < sample_age q) P) < unat limit) P"
    by (rule filter_cong) (auto simp: row_number_partition P_def Suc_le_eq)
  finally have kP: "filter (\<lambda>r. partition_key r = p) kept
      = filter (\<lambda>r. length (filter (\<lambda>q. sample_age r < sample_age q) P) < unat limit) P" .
  have len: "length (filter (\<lambda>r. partition_key r = p) kept) = min (unat limit) (length P)"
    unfolding kP by (rule filter_rank_length [OF dP])
  have newer: "sample_age x < sample_age k"
    if "k \<in> set kept" "partition_key k = p" "x \<in> set P" "x \<notin> set kept" for k x
  proof (rule ccontr)
    assume "\<not> sample_age x < sample_age k"
    then consider "sample_age k < sample_age x" | "sample_age k = sample_age x" by fastforce
    then show False
    proof cases
      case 1
      then have "row_number young x < row_number young k" using that by (intro row_number_mono) (auto simp: P_def)
      with that show False by (auto simp: kept P_def)
    next
      case 2
      then have "k = x" using dy that by (auto simp: kept P_def sample_age_def distinct_map dest: inj_onD)
      with that show False by blast
    qed
  qed
  have "filter (\<lambda>r. cutoff \<le> tr_ts r) (filter (\<lambda>r. partition_key r = p) rows) = P"
    by (auto simp: P_def young_def conj_commute)
  moreover have "deleteOlderThan True tr_ts cutoff rows = young" by (simp add: deleteOlderThan_def young_def not_less)
  moreover have "subseq (filter (\<lambda>r. partition_key r = p) kept) P" unfolding kP by simp
  ultimately show ?thesis
    using len newer unfolding keeps_newest_def kept_def [symmetric] Let_def
    by (auto simp: kept_def [symmetric] sample_age_def)
qed



definition sample_run :: retention_run where
  "sample_run = \<lparr>rt_ok = \<lambda>_. True, rt_sizes = \<lambda>_. 0, rt_prune_ok = \<lambda>_ _. True\<rparr>"

definition sample_db :: Database where
  "sample_db =
     insertTraffic True \<lparr>ts_mac = ''aa'', ts_ip = [], ts_ts = 100 * ns_per_s, ts_rx_bytes = 1, ts_tx_bytes = 2\<rparr>
      (insertTraffic True \<lparr>ts_mac = ''aa'', ts_ip = [], ts_ts = 200 * ns_per_s, ts_rx_bytes = 5, ts_tx_bytes = 9\<rparr> db_empty)"

lemma sample_db_inv: "db_inv sample_db"
  unfolding sample_db_def by (intro db_step_inv [OF db_step.intros(2)] db_empty_inv)


lemma prune_rounds_loss:
  "db_inv db \<Longrightarrow> length (db_traffic db) \<le> length (db_traffic (prune_rounds sizes ok m i n db)) + n * 1000 \<and>
     length (db_events db) \<le> length (db_events (prune_rounds sizes ok m i n db)) + n * 250 \<and>
     length (db_attacks db) \<le> length (db_attacks (prune_rounds sizes ok m i n db)) + n * 250"
proof (induction sizes ok m i n db rule: prune_rounds.induct)
  case (2 sizes ok m i left db)
  define db1 where "db1 = db\<lparr>db_traffic := pruneOldRows (ok i 0) tr_ts tr_id 1000 (db_traffic db),
                 db_events := pruneOldRows (ok i 1) er_ts er_id 250 (db_events db),
                 db_attacks := pruneOldRows (ok i 2) ar_ts ar_id 250 (db_attacks db)\<rparr>"
  have d: "distinct (map er_id (db_events db))" "distinct (map ar_id (db_attacks db))" "distinct (map tr_id (db_traffic db))"
    using 2(2) ids_ok_distinct by (auto simp: db_inv_def)
  have "only_deletes db db1" by (simp add: db1_def only_deletes_def delete_subseq)
  with 2(2) have "db_inv db1" by (rule only_deletes_inv [rotated])
  with 2(1) show ?case
    using pruneOldRows_length [OF d(1), of "ok i 1" er_ts 250] pruneOldRows_length [OF d(2), of "ok i 2" ar_ts 250]
      pruneOldRows_length [OF d(3), of "ok i 0" tr_ts 1000]
    by (fastforce simp: db1_def [symmetric] simp: db1_def)
qed simp

text \<open>
  The enforcement of the size limit ends after at most twelve rounds: whatever sizes are read it removes
  at most 12000 samples, 3000 events and 3000 attacks in one run, touches no device and nothing else, and
  removes nothing when the first reading is within the limit.
\<close>

theorem enforceSizeLimit_bounded:
  fixes sizes :: "nat \<Rightarrow> int" and ok :: "nat \<Rightarrow> nat \<Rightarrow> bool" and config :: Config
  assumes "db_inv db"
  defines "db' \<equiv> enforceSizeLimit sizes ok config db"
  shows "only_deletes db db' \<and> length (db_traffic db) \<le> length (db_traffic db') + 12000 \<and>
         length (db_events db) \<le> length (db_events db') + 3000 \<and>
         length (db_attacks db) \<le> length (db_attacks db') + 3000 \<and>
         (sizes 0 \<le> max_db_bytes config \<longrightarrow> db' = db)"
  using prune_rounds_loss [OF assms(1), of sizes ok "max_db_bytes config" 1 12]
  by (auto simp: db'_def enforceSizeLimit_def only_deletes_refl prune_rounds_only_deletes)

theorem enforceSizeLimit_bounded_witness:
  "only_deletes sample_db (enforceSizeLimit (\<lambda>_. 10 ^ 9) (\<lambda>_ _. True) default_config sample_db)"
  using enforceSizeLimit_bounded [OF sample_db_inv] by blast

section \<open>Retention periods that do not fit\<close>

lemma wrap64_of_diff: "- (2 ^ 63) \<le> x - k * 2 ^ 64 \<Longrightarrow> x - k * 2 ^ 64 < 2 ^ 63 \<Longrightarrow> wrap64 x = x - k * 2 ^ 64"
proof -
  assume a: "- (2 ^ 63) \<le> x - k * 2 ^ 64" "x - k * 2 ^ 64 < 2 ^ 63"
  have "(x + 2 ^ 63) mod 2 ^ 64 = (x - k * 2 ^ 64 + 2 ^ 63 + k * 2 ^ 64) mod 2 ^ 64" by (simp add: algebra_simps)
  also have "\<dots> = (x - k * 2 ^ 64 + 2 ^ 63) mod 2 ^ 64" by (rule mod_mult_self1)
  also have "\<dots> = x - k * 2 ^ 64 + 2 ^ 63" using a by (intro mod_pos_pos_trivial) simp_all
  finally show ?thesis by (simp add: wrap64_def)
qed

lemma overflow_cutoff:
  assumes "0 \<le> now" "now \<le> 3 * 10 ^ 18" "sqlite_retention_days config = 365000"
  shows "retention_cutoff config now = to_time_t (now + 5357488147419103232)"
proof -
  have h: "hours_ns (wrap32 (24 * max 1 (sqlite_retention_days config))) = - 5357488147419103232"
    unfolding assms(3) by code_simp
  have "tdiff now (- 5357488147419103232) = now + 5357488147419103232"
    using wrap64_of_diff [of "now + 5357488147419103232" 0] assms(1,2) by (simp add: tdiff_def)
  then show ?thesis
    using assms(1) by (simp add: retention_cutoff_def h Let_def unixSeconds_def)
qed

text \<open>
  A retention period of a thousand years does not keep the history but deletes it: the length of 365000
  days in nanoseconds does not fit in 64 bits, the computed cutoff is about 170 years in the future, and the
  retention removes every event that is not from the future.
\<close>

theorem long_retention_deletes_all:
  assumes "0 \<le> now" "now \<le> 3 * 10 ^ 18" "sqlite_retention_days config = 365000" "rt_ok run 0"
    and "\<forall>r\<in>set (db_events db). er_ts r \<le> to_time_t now"
  shows "db_events (impl_applyRetention run config now True db) = []"
proof -
  have "to_time_t now < retention_cutoff config now"
    using assms(1) zdiv_mono1 [of "now + 5000000000000000000" "now + 5357488147419103232" ns_per_s]
    unfolding overflow_cutoff [OF assms(1-3)]
    by (simp add: to_time_t_def ns_per_s_def)
  then have "deleteOlderThan True er_ts (retention_cutoff config now) (db_events db) = []"
    using assms(5) by (force simp: deleteOlderThan_def filter_empty_conv)
  then have "db_events (retention_statements (rt_ok run) config (retention_cutoff config now) db) = []"
    using assms(4) by (simp add: retention_statements_def Let_def deleteBeyondLimit_def delete_ids_def)
  then have "subseq (db_events (impl_applyRetention run config now True db)) []"
    using prune_rounds_only_deletes [of "retention_statements (rt_ok run) config (retention_cutoff config now) db"]
    by (simp add: impl_applyRetention_def enforceSizeLimit_def only_deletes_def)
  then show ?thesis by simp
qed

theorem long_retention_deletes_all_witness:
  "db_events (impl_applyRetention sample_run (default_config\<lparr>sqlite_retention_days := 365000\<rparr>) (1700000000 * 10 ^ 9) True
     (db_empty\<lparr>db_events := [\<lparr>er_id = ''evt-1'', er_ts = 1600000000, er_type = [], er_severity = [], er_source = [],
        er_message = [], er_fields_json = []\<rparr>]\<rparr>)) = []"
  by (rule long_retention_deletes_all) (simp_all add: sample_run_def to_time_t_def ns_per_s_def)

section \<open>Reading back what was written\<close>

definition plain_text :: "string \<Rightarrow> bool" where
  "plain_text s \<longleftrightarrow> CHR 0x00 \<notin> set s"

definition plain_tag :: "string \<Rightarrow> bool" where
  "plain_tag t \<longleftrightarrow> plain_text t \<and> t \<noteq> [] \<and> CHR '','' \<notin> set t \<and> trim t = t"

lemma bindText_plain: "plain_text s \<Longrightarrow> bindText s = s"
  by (auto simp: plain_text_def bindText_def takeWhile_eq_all_conv)

lemma plain_lower: "plain_text s \<Longrightarrow> plain_text (lower s)"
proof -
  have "c = CHR 0x00" if "tolower c = CHR 0x00" for c
  proof (rule ccontr)
    assume "c \<noteq> CHR 0x00"
    with that have c: "65 \<le> code c" "code c \<le> 90" "char_of (code c + 32) = CHR 0x00"
      by (auto simp: tolower_def split: if_splits)
    have "(of_char (char_of (code c + 32) :: char) :: nat) = 0" by (simp only: c(3)) simp
    with c(1,2) show False by (simp add: of_char_of)
  qed
  then show "plain_text s \<Longrightarrow> plain_text (lower s)" by (fastforce simp: plain_text_def lower_def)
qed

lemma plain_join: "(\<And>t. t \<in> set ts \<Longrightarrow> plain_text t) \<Longrightarrow> plain_text (join_with (CHR '','') ts)"
  by (induction "CHR '',''" ts rule: join_with.induct) (auto simp: plain_text_def)

lemma plain_append: "plain_text (a @ b) \<longleftrightarrow> plain_text a \<and> plain_text b"
  by (auto simp: plain_text_def)

lemma parseTags_tagsText:
  assumes "\<And>t. t \<in> set tags \<Longrightarrow> plain_tag t"
  shows "parseTags (bindText (tagsText tags)) = tags"
proof (cases "tags = []")
  case False
  have "bindText (tagsText tags) = join_with (CHR '','') tags"
    using assms by (simp add: tagsText_def bindText_plain plain_join plain_tag_def)
  moreover have "split (join_with (CHR '','') tags) (CHR '','') = tags"
    using False assms by (intro split_join) (auto simp: plain_tag_def)
  moreover have "map trim tags = tags" using assms by (intro map_idI) (simp add: plain_tag_def)
  moreover have "filter (\<lambda>item. item \<noteq> []) tags = tags" using assms by (simp add: plain_tag_def)
  ultimately show ?thesis by (simp add: parseTags_def)
qed (simp add: parseTags_def tagsText_def bindText_def trim_def)

lemma parseStatus_toString: "parseStatus (bindText (toString_status st)) = st"
  by (induction st) code_simp+

lemma parseSeverity_toString: "parseSeverity (bindText (toString_severity sv)) = sv"
  by (induction sv) code_simp+

text \<open>The time of the last whole second.\<close>

definition whole_second :: "time \<Rightarrow> time" where
  "whole_second t = t - t mod ns_per_s"

lemma time_column:
  assumes "0 \<le> t" "t < 2 ^ 63"
  shows "timeFromColumn (unixSeconds t) = whole_second t"
proof -
  have "t div ns_per_s * ns_per_s \<le> t" "0 \<le> t div ns_per_s"
    using assms by (simp_all add: ns_per_s_def div_times_less_eq_dividend)
  then have "fromUnixSeconds (t div ns_per_s) = t div ns_per_s * ns_per_s"
    using wrap64_of_diff [of "t div ns_per_s * ns_per_s" 0] assms by (simp add: fromUnixSeconds_def ns_per_s_def)
  moreover have "t div ns_per_s * ns_per_s = whole_second t" by (simp add: whole_second_def minus_mod_eq_div_mult)
  moreover have "whole_second t = 0" if "t div ns_per_s \<le> 0"
    using that \<open>0 \<le> t div ns_per_s\<close> by (simp add: whole_second_def minus_mod_eq_div_mult)
  ultimately show ?thesis
    using assms by (simp add: timeFromColumn_def unixSeconds_def to_time_t_def whole_second_def)
qed

definition plain_device :: "DeviceState \<Rightarrow> bool" where
  "plain_device d \<longleftrightarrow>
     plain_text (dv_mac d) \<and> plain_text (dv_ip d) \<and> plain_text (dv_hostname d) \<and> plain_text (dv_interface_name d) \<and>
     plain_text (dv_source d) \<and> plain_text (dv_neigh_state d) \<and> list_all plain_tag (dv_tags d) \<and>
     (\<forall>t\<in>{dv_first_seen d, dv_last_seen d, dv_last_dhcp d, dv_last_traffic d, dv_last_rate d}. 0 \<le> t \<and> t < 2 ^ 63)"

definition persisted :: "DeviceState \<Rightarrow> DeviceState" where
  "persisted d = d\<lparr>dv_mac := lower (dv_mac d), dv_first_seen := whole_second (dv_first_seen d),
     dv_last_seen := whole_second (dv_last_seen d), dv_last_dhcp := whole_second (dv_last_dhcp d),
     dv_last_traffic := whole_second (dv_last_traffic d), dv_last_rate := whole_second (dv_last_rate d)\<rparr>"

lemma device_row_read_back: "plain_device d \<Longrightarrow> deviceFromStatement (device_row_of now d) = persisted d"
  by (auto simp: plain_device_def persisted_def deviceFromStatement_def device_row_of_def bindText_plain plain_lower
      parseTags_tagsText parseStatus_toString time_column list_all_iff)

lemma device_row_key: "plain_device d \<Longrightarrow> dr_key (device_row_of now d) = sqliteDeviceKey d"
  unfolding device_row_of_def
  using plain_lower [of "dv_mac d"]
  by (auto simp: plain_device_def sqliteDeviceKey_def Let_def plain_append intro!: bindText_plain)
    (auto simp: plain_text_def)

lemma upsert_row_get:
  "row \<in> set (upsert_row row rows)" "r \<in> set rows \<Longrightarrow> dr_key r \<noteq> dr_key row \<Longrightarrow> r \<in> set (upsert_row row rows)"
  by (auto simp: upsert_row_def list_ex_iff image_iff)

lemma upsert_loop_other:
  "r \<in> set rows \<Longrightarrow> (\<And>d now. d \<in> set ds \<Longrightarrow> sqliteDeviceKey d \<noteq> [] \<Longrightarrow> dr_key (device_row_of now d) \<noteq> dr_key r) \<Longrightarrow>
     r \<in> set (upsert_loop clk ok i ds rows)"
proof (induction clk ok i ds rows rule: upsert_loop.induct)
  case (2 clk step_ok i d ds rows)
  have "r \<in> set (upsert_row (device_row_of (clk i) d) rows)" if "sqliteDeviceKey d \<noteq> []"
    using that 2 by (intro upsert_row_get(2)) (auto simp: eq_commute)
  with 2 show ?case by simp
qed simp

lemma upsert_loop_found:
  assumes "d \<in> set ds" "list_all plain_device ds" "distinct (map sqliteDeviceKey ds)" "sqliteDeviceKey d \<noteq> []"
  shows "\<exists>now. device_row_of now d \<in> set (upsert_loop clk (\<lambda>_. True) i ds rows)"
  using assms
proof (induction ds arbitrary: i rows)
  case (Cons e ds)
  show ?case
  proof (cases "d = e")
    case True
    have "dr_key (device_row_of now x) \<noteq> dr_key (device_row_of (clk i) d)" if "x \<in> set ds" for x now
    proof -
      have "sqliteDeviceKey x \<noteq> sqliteDeviceKey e" using that Cons.prems(3) by (metis distinct.simps(2) image_eqI list.set_map list.simps(9))
      moreover have "plain_device x" "plain_device e" using that Cons.prems(2) by (auto simp: list_all_iff)
      ultimately show ?thesis using True by (simp add: device_row_key)
    qed
    then have "device_row_of (clk i) d \<in> set (upsert_loop clk (\<lambda>_. True) (Suc i) ds (upsert_row (device_row_of (clk i) d) rows))"
      by (intro upsert_loop_other upsert_row_get(1))
    with True Cons.prems show ?thesis by auto
  next
    case False
    with Cons show ?thesis by (cases "sqliteDeviceKey e = []") auto
  qed
qed simp


definition sample_device :: DeviceState where
  "sample_device =
     \<lparr>dv_mac = ''AA'', dv_ip = ''10.0.0.2'', dv_hostname = ''pc'', dv_interface_name = [], dv_source = ''dhcp'',
      dv_neigh_state = [], dv_status = Online, dv_first_seen = 1500000000, dv_last_seen = 2500000000, dv_last_dhcp = 0,
      dv_last_traffic = 0, dv_last_rate = 0, dv_rx_bytes_total = 2 ^ 63 + 7, dv_tx_bytes_total = 1, dv_rx_rate_bps = 1,
      dv_tx_rate_bps = 0, dv_tags = [''lan'', ''pc'']\<rparr>"


end
