(* ===== verification/Sqlite_Queries.thy ===== *)
theory Sqlite_Queries
  imports Sqlite_Properties
begin

text \<open>
  What the queries of the SQLite store compute, what is read back of stored events, and when opening fails.
\<close>

section \<open>Traffic totals\<close>

definition rx_of :: "traffic_row \<Rightarrow> u64" where
  "rx_of row = of_int (tr_rx_bytes row)"

definition tx_of :: "traffic_row \<Rightarrow> u64" where
  "tx_of row = of_int (tr_tx_bytes row)"

definition totals_key :: "device_row list \<Rightarrow> traffic_row \<Rightarrow> string" where
  "totals_key devs row = (if tr_mac row \<noteq> [] then ''mac:'' @ lower (tr_mac row) else ''ip:'' @ fst (joined devs row))"

definition add_sample :: "device_row list \<Rightarrow> traffic_row \<Rightarrow> Accumulator \<Rightarrow> Accumulator" where
  "add_sample devs row = accumulate (lower (tr_mac row)) (fst (joined devs row)) (snd (joined devs row)) row"

lemma totals_row_eq:
  "totals_row devs row by_device =
     (if totals_key devs row = ''ip:'' then by_device
      else dput (totals_key devs row)
             (add_sample devs row (dget_or by_device (totals_key devs row) accumulator_new)) by_device)"
  by (simp add: totals_row_def totals_key_def add_sample_def Let_def split_beta)

text \<open>The entry of a key is the accumulation of the samples with that key.\<close>

lemma fold_totals_get:
  "k \<noteq> ''ip:'' \<Longrightarrow> dget (fold (totals_row devs) rows by_device) k =
     (let rs = filter (\<lambda>r. totals_key devs r = k) rows
      in if rs = [] then dget by_device k else Some (fold (add_sample devs) rs (dget_or by_device k accumulator_new)))"
proof (induction rows arbitrary: by_device)
  case (Cons row rows)
  then show ?case
    by (simp add: totals_row_eq dict_simps dget_or_def Let_def split: option.splits)
qed simp

lemma fold_totals_keys:
  "dkeys (fold (totals_row devs) rows by_device) = dkeys by_device \<union> (totals_key devs ` set rows - {''ip:''})"
  by (induction rows arbitrary: by_device) (auto simp: totals_row_eq dict_simps)

lemma fold_totals_dwf: "dwf by_device \<Longrightarrow> dwf (fold (totals_row devs) rows by_device)"
  by (induction rows arbitrary: by_device) (auto simp: totals_row_eq)

lemma add_sample_first:
  "ac_total (add_sample devs r accumulator_new) =
     \<lparr>tt_mac = lower (tr_mac r), tt_ip = fst (joined devs r), tt_hostname = snd (joined devs r),
      tt_first_ts = timeFromColumn (tr_ts r), tt_last_ts = timeFromColumn (tr_ts r), tt_rx_bytes = 0, tt_tx_bytes = 0, tt_samples = 1\<rparr>"
  "ac_has_previous (add_sample devs r acc)" "ac_previous_rx (add_sample devs r acc) = rx_of r"
  "ac_previous_tx (add_sample devs r acc) = tx_of r"
  by (simp_all add: add_sample_def accumulate_def accumulator_new_def Let_def rx_of_def tx_of_def)

lemma add_sample_next:
  "ac_has_previous acc \<Longrightarrow> tt_samples (ac_total acc) \<noteq> 0 \<Longrightarrow>
   ac_total (add_sample devs r acc) = (ac_total acc)
     \<lparr>tt_last_ts := timeFromColumn (tr_ts r),
      tt_rx_bytes := tt_rx_bytes (ac_total acc) + grown (rx_of r) (ac_previous_rx acc),
      tt_tx_bytes := tt_tx_bytes (ac_total acc) + grown (tx_of r) (ac_previous_tx acc),
      tt_samples := tt_samples (ac_total acc) + 1\<rparr>"
  by (simp add: add_sample_def accumulate_def Let_def rx_of_def tx_of_def)

text \<open>Counters that never go down: the growths telescope.\<close>

lemma fold_add_sample:
  fixes devs :: "device_row list"
  assumes "rs \<noteq> []"
  defines "acc \<equiv> fold (add_sample devs) rs accumulator_new"
  shows "ac_has_previous acc \<and> tt_samples (ac_total acc) = length rs \<and> tt_mac (ac_total acc) = lower (tr_mac (hd rs)) \<and>
     tt_first_ts (ac_total acc) = timeFromColumn (tr_ts (hd rs)) \<and> tt_last_ts (ac_total acc) = timeFromColumn (tr_ts (last rs)) \<and>
     ac_previous_rx acc = rx_of (last rs) \<and> ac_previous_tx acc = tx_of (last rs) \<and>
     (sorted (map rx_of rs) \<longrightarrow> tt_rx_bytes (ac_total acc) = rx_of (last rs) - rx_of (hd rs)) \<and>
     (sorted (map tx_of rs) \<longrightarrow> tt_tx_bytes (ac_total acc) = tx_of (last rs) - tx_of (hd rs))"
  unfolding acc_def using assms(1)
proof (induction rs rule: rev_induct)
  case (snoc r rs)
  show ?case
  proof (cases "rs = []")
    case True
    then show ?thesis by (simp add: add_sample_first)
  next
    case False
    have mono: "rx_of (last rs) \<le> rx_of r" if "sorted (map rx_of (rs @ [r]))"
      using that False by (simp add: sorted_append)
    have mono': "tx_of (last rs) \<le> tx_of r" if "sorted (map tx_of (rs @ [r]))"
      using that False by (simp add: sorted_append)
    have "tt_samples (ac_total (fold (add_sample devs) rs accumulator_new)) \<noteq> 0" using False snoc.IH by simp
    then show ?thesis
      using False snoc.IH mono mono'
      by (auto simp: add_sample_next add_sample_first(2-4) grown_def sorted_append)
  qed
qed simp

lemma sort_key_const:
  assumes "\<And>x. x \<in> set xs \<Longrightarrow> k x = c"
  shows "sort_key (\<lambda>x. (k x, g x)) xs = sort_key g xs"
proof (rule properties_for_sort_key)
  have "sorted (map (\<lambda>x. (c, g x)) (sort_key g xs))"
    using sorted_sort_key [of g xs] by (simp add: sorted_wrt_map less_eq_prod_def)
  moreover have "map (\<lambda>x. (k x, g x)) (sort_key g xs) = map (\<lambda>x. (c, g x)) (sort_key g xs)"
    using assms by (intro map_cong) auto
  ultimately show "sorted (map (\<lambda>x. (k x, g x)) (sort_key g xs))" by (simp only:)
next
  fix v
  show "filter (\<lambda>y. (k v, g v) = (k y, g y)) (sort_key g xs) = filter (\<lambda>y. (k v, g v) = (k y, g y)) xs" if "v \<in> set (sort_key g xs)"
  proof -
    have "filter (\<lambda>y. (k v, g v) = (k y, g y)) ys = filter (\<lambda>y. g y = g v) ys" if "set ys \<subseteq> set xs" for ys
      using that \<open>v \<in> set (sort_key g xs)\<close> assms by (intro filter_cong) auto
    then show ?thesis by (simp add: sort_key_stable)
  qed
qed simp


lemma totals_key_mac: "mac \<noteq> [] \<Longrightarrow> totals_key devs r = ''mac:'' @ mac \<longleftrightarrow> lower (tr_mac r) = mac"
  by (auto simp: totals_key_def)

text \<open>The samples of a device, in the order of the query.\<close>

lemma window_samples:
  assumes "mac \<noteq> []"
  shows "filter (\<lambda>r. totals_key devs r = ''mac:'' @ mac)
           (sort_key (\<lambda>r. (traffic_key (tr_mac r) (tr_ip r), tr_ts r, tr_id r)) (filter P rows)) =
         sort_key (\<lambda>r. (tr_ts r, tr_id r)) (filter (\<lambda>r. lower (tr_mac r) = mac \<and> P r) rows)"
proof -
  have k: "traffic_key (tr_mac r) (tr_ip r) = ''mac:'' @ mac" if "lower (tr_mac r) = mac" for r :: traffic_row
    using that assms by (auto simp: traffic_key_def)
  have "filter (\<lambda>r. lower (tr_mac r) = mac) (filter P rows) = filter (\<lambda>r. lower (tr_mac r) = mac \<and> P r) rows"
    by (simp add: conj_commute)
  then show ?thesis
    unfolding totals_key_mac [OF assms] filter_sort
    by (simp only:) (rule sort_key_const, use k in auto)
qed

lemma totals_entry_mac:
  assumes "(k, acc) \<in> set (fold (totals_row devs) rows [])" "tt_mac (ac_total acc) = mac" "mac \<noteq> []"
  shows "k = ''mac:'' @ mac"
proof -
  have k: "k \<noteq> ''ip:''" using assms(1) fold_totals_keys [of devs rows "[]"] by force
  have "dget (fold (totals_row devs) rows []) k = Some acc"
    using assms(1) fold_totals_dwf [of "[]" devs rows] by simp
  then have rs: "filter (\<lambda>r. totals_key devs r = k) rows \<noteq> []"
    and acc: "acc = fold (add_sample devs) (filter (\<lambda>r. totals_key devs r = k) rows) accumulator_new"
    by (auto simp: fold_totals_get [OF k] Let_def dget_or_def split: if_splits)
  define r where "r = hd (filter (\<lambda>r. totals_key devs r = k) rows)"
  have "totals_key devs r = k" using hd_in_set [OF rs] by (simp add: r_def)
  moreover have "lower (tr_mac r) = mac" using fold_add_sample [OF rs, of devs] acc assms(2) by (simp add: r_def)
  ultimately show ?thesis using totals_key_mac [OF assms(3)] by metis
qed

lemma filter_one:
  assumes "distinct (map f xs)" "x \<in> set xs" "P x" "\<And>y. y \<in> set xs \<Longrightarrow> P y \<Longrightarrow> f y = f x"
  shows "filter P xs = [x]"
proof -
  obtain ys zs where xs: "xs = ys @ x # zs" using split_list [OF assms(2)] by blast
  have "f x \<notin> f ` set ys" "f x \<notin> f ` set zs" using assms(1) by (auto simp: xs)
  then have "\<not> P y" if "y \<in> set ys \<union> set zs" for y
    using that assms(4) [of y] unfolding xs by (metis UnE Un_iff image_eqI list.set_intros(2) set_append)
  then have "filter P ys = []" "filter P zs = []" by (auto simp: filter_empty_conv)
  then show ?thesis using assms(3) by (simp add: xs)
qed




section \<open>The traffic history\<close>

lemma bucket_of_dvd: "5 dvd bucket_of secs"
proof (cases "secs < 0")
  case True
  then have "bucket_of secs = - ((- secs) - (- secs) mod 5)" by (simp add: bucket_of_def)
  then show ?thesis by (simp only: dvd_minus_iff minus_mod_eq_mult_div dvd_triv_left)
next
  case False
  then have "bucket_of secs = secs - secs mod 5" by (simp add: bucket_of_def)
  then show ?thesis by (simp only: minus_mod_eq_mult_div dvd_triv_left)
qed

lemma bucket_of_range: "0 \<le> secs \<Longrightarrow> 0 \<le> bucket_of secs \<and> bucket_of secs \<le> secs"
  by (simp add: bucket_of_def zmod_le_nonneg_dividend)

definition bucket_ok :: "int \<times> Bucket \<Rightarrow> bool" where
  "bucket_ok e \<longleftrightarrow> 5 dvd fst e \<and> 1 \<le> bk_samples (snd e) \<and> 0 \<le> bk_rx_rate_bps (snd e) \<and> 0 \<le> bk_tx_rate_bps (snd e) \<and>
     0 \<le> fst e \<and> fst e \<le> 9223372036"

definition buckets_ok :: "(int \<times> Bucket) list \<Rightarrow> bool" where
  "buckets_ok bs \<longleftrightarrow> dwf bs \<and> (\<forall>e\<in>set bs. bucket_ok e)"

lemma set_dput: "set (dput k v d) \<subseteq> insert (k, v) (set d)"
  by (induction d) (auto split: if_splits)

lemma fl_add_nonneg: "0 \<le> x \<Longrightarrow> 0 \<le> y \<Longrightarrow> 0 \<le> fl (x + y)"
  by (intro ieee.rnd_nonneg) simp

lemma rate_seconds_nonneg: "0 < n \<Longrightarrow> 0 \<le> rate_of b (seconds_of_ns n)"
  by (rule rate_of_nonneg) (simp add: less_imp_le)

lemma history_row_ok:
  assumes "buckets_ok (snd h)" "0 \<le> tr_ts row" "tr_ts row \<le> 9223372036"
  shows "buckets_ok (snd (history_row row h))"
proof -
  obtain prev bs where h: "h = (prev, bs)" by (cases h)
  define k where "k = bucket_of (tr_ts row)"
  have k: "5 dvd k" "0 \<le> k" "k \<le> 9223372036"
    using bucket_of_dvd bucket_of_range [OF assms(2)] assms(3) by (auto simp: k_def)
  have old: "0 \<le> bk_rx_rate_bps (dget_or bs k z)" "0 \<le> bk_tx_rate_bps (dget_or bs k z)"
    if "0 \<le> bk_rx_rate_bps z" "0 \<le> bk_tx_rate_bps z" for z
    using that assms(1) by (auto simp: dget_or_def h buckets_ok_def bucket_ok_def split: option.splits dest!: map_of_SomeD)
  have new: "buckets_ok (dput k (add_to_bucket rx tx (dget_or bs k \<lparr>bk_rx_rate_bps = 0, bk_tx_rate_bps = 0, bk_samples = 0\<rparr>)) bs)"
    if "0 \<le> rx" "0 \<le> tx" for rx tx
    unfolding buckets_ok_def
  proof (intro conjI ballI)
    show "dwf (dput k (add_to_bucket rx tx (dget_or bs k \<lparr>bk_rx_rate_bps = 0, bk_tx_rate_bps = 0, bk_samples = 0\<rparr>)) bs)"
      using assms(1) by (simp add: h buckets_ok_def)
    fix e assume "e \<in> set (dput k (add_to_bucket rx tx (dget_or bs k \<lparr>bk_rx_rate_bps = 0, bk_tx_rate_bps = 0, bk_samples = 0\<rparr>)) bs)"
    then consider "e \<in> set bs"
      | "e = (k, add_to_bucket rx tx (dget_or bs k \<lparr>bk_rx_rate_bps = 0, bk_tx_rate_bps = 0, bk_samples = 0\<rparr>))"
      using set_dput by fastforce
    then show "bucket_ok e"
    proof cases
      case 1
      then show ?thesis using assms(1) by (simp add: h buckets_ok_def)
    next
      case 2
      then show ?thesis using k that by (simp add: bucket_ok_def add_to_bucket_def fl_add_nonneg old)
    qed
  qed
  show ?thesis
    using assms(1) by (auto simp: h history_row_def Let_def k_def [symmetric] intro!: new rate_seconds_nonneg split: option.splits)
qed

lemma fold_history_ok:
  assumes "buckets_ok (snd h)" "\<forall>r\<in>set rows. 0 \<le> tr_ts r \<and> tr_ts r \<le> 9223372036"
  shows "buckets_ok (snd (fold history_row rows h))"
  using assms
proof (induction rows arbitrary: h)
  case (Cons row rows)
  have "buckets_ok (snd (history_row row h))" using Cons.prems by (intro history_row_ok) simp_all
  with Cons show ?case by simp
qed simp

lemma fromUnixSeconds_small: "0 \<le> k \<Longrightarrow> k \<le> 9223372036 \<Longrightarrow> fromUnixSeconds k = k * ns_per_s"
  using wrap64_of_diff [of "k * ns_per_s" 0] by (simp add: fromUnixSeconds_def ns_per_s_def)

lemma history_points_ok:
  assumes "buckets_ok bs"
  shows "sorted_wrt (<) (map hp_ts (history_points bs)) \<and>
     (\<forall>p\<in>set (history_points bs). 5 * ns_per_s dvd hp_ts p \<and> 1 \<le> hp_samples p \<and> 0 \<le> hp_rx_rate_bps p \<and> 0 \<le> hp_tx_rate_bps p)"
proof
  have ts: "fromUnixSeconds (fst e) = fst e * ns_per_s" if "e \<in> set bs" for e
    using that assms fromUnixSeconds_small by (auto simp: buckets_ok_def bucket_ok_def)
  have d: "distinct (map fst (sort_key fst bs))"
    using assms unfolding buckets_ok_def by (metis mset_eq_imp_distinct_iff mset_map mset_sort)
  then have "sorted_wrt (<) (map fst (sort_key fst bs))" by (simp add: strict_sorted_iff)
  then have "sorted_wrt (\<lambda>a b. fst a < fst b) (sort_key fst bs)" by (simp add: sorted_wrt_map)
  then have "sorted_wrt (\<lambda>a b. fromUnixSeconds (fst a) < fromUnixSeconds (fst b)) (sort_key fst bs)"
    by (rule sorted_wrt_mono_rel [rotated]) (simp add: ts ns_per_s_def)
  then show "sorted_wrt (<) (map hp_ts (history_points bs))"
    by (simp add: history_points_def sorted_wrt_map comp_def split_beta)
  show "\<forall>p\<in>set (history_points bs). 5 * ns_per_s dvd hp_ts p \<and> 1 \<le> hp_samples p \<and> 0 \<le> hp_rx_rate_bps p \<and> 0 \<le> hp_tx_rate_bps p"
  proof
    fix p assume "p \<in> set (history_points bs)"
    then obtain e where e: "e \<in> set bs" "p = \<lparr>hp_ts = fromUnixSeconds (fst e), hp_rx_rate_bps = bk_rx_rate_bps (snd e),
        hp_tx_rate_bps = bk_tx_rate_bps (snd e), hp_samples = bk_samples (snd e)\<rparr>"
      by (auto simp: history_points_def)
    then have "bucket_ok e" using assms by (simp add: buckets_ok_def)
    then show "5 * ns_per_s dvd hp_ts p \<and> 1 \<le> hp_samples p \<and> 0 \<le> hp_rx_rate_bps p \<and> 0 \<le> hp_tx_rate_bps p"
      using ts [OF e(1)] by (simp add: e(2) bucket_ok_def mult_dvd_mono)
  qed
qed

lemma sorted_wrt_drop: "sorted_wrt P xs \<Longrightarrow> sorted_wrt P (drop n xs)"
  by (metis append_take_drop_id sorted_wrt_append)

text \<open>
  The traffic history has at most as many points as asked for, and never more than 720; the points lie on
  multiples of five seconds in strictly increasing order, and each of them has at least one sample and no
  negative rate.
\<close>

theorem trafficHistory_shape:
  fixes ok :: bool and limit :: u64
  assumes "\<forall>r\<in>set (db_traffic db). 0 \<le> tr_ts r \<and> tr_ts r \<le> 9223372036"
  defines "points \<equiv> impl_trafficHistory ok limit db"
  shows "length points \<le> 720 \<and> (limit \<noteq> 0 \<longrightarrow> length points \<le> unat limit) \<and> sorted_wrt (<) (map hp_ts points) \<and>
    (\<forall>p\<in>set points. 5 * ns_per_s dvd hp_ts p \<and> 1 \<le> hp_samples p \<and> 0 \<le> hp_rx_rate_bps p \<and> 0 \<le> hp_tx_rate_bps p)"
proof (cases ok)
  case True
  define wanted where "wanted = (if limit = 0 then 180 else min limit 720)"
  obtain rows where rows: "set rows \<subseteq> set (db_traffic db)"
    and p: "points = last_n (unat wanted) (history_points (snd (fold history_row rows ([], []))))"
  proof
    define newest where "newest = limit_rows (max (wanted * 12) wanted) (rev (sort_key (\<lambda>r. (tr_ts r, tr_id r)) (db_traffic db)))"
    show "set (sort_key (\<lambda>r. (tr_ts r, tr_id r)) newest) \<subseteq> set (db_traffic db)"
      using set_take_subset [of _ "rev (sort_key (\<lambda>r. (tr_ts r, tr_id r)) (db_traffic db))"]
      by (auto simp: newest_def limit_rows_def)
    show "points = last_n (unat wanted) (history_points (snd (fold history_row
        (sort_key (\<lambda>r. (tr_ts r, tr_id r)) newest) ([], []))))"
      using True by (simp add: points_def impl_trafficHistory_def newest_def wanted_def Let_def)
  qed
  have "buckets_ok (snd (fold history_row rows ([], [])))"
    using rows assms(1) by (intro fold_history_ok) (auto simp: buckets_ok_def)
  note pts = history_points_ok [OF this]
  have "unat wanted \<le> 720" "limit \<noteq> 0 \<Longrightarrow> unat wanted \<le> unat limit"
    by (auto simp: wanted_def min_def word_le_nat_alt)
  moreover have "length points \<le> unat wanted" by (simp add: p)
  moreover have "sorted_wrt (<) (map hp_ts points)" using pts by (simp add: p last_n_def drop_map [symmetric] sorted_wrt_drop)
  moreover have "set points \<subseteq> set (history_points (snd (fold history_row rows ([], []))))"
    unfolding p last_n_def by (rule set_drop_subset)
  ultimately show ?thesis using pts by force
next
  case False
  then show ?thesis by (simp add: points_def impl_trafficHistory_def Let_def)
qed

theorem trafficHistory_shape_witness: "length (impl_trafficHistory True 1 sample_db) \<le> 1"
proof -
  have "\<forall>r\<in>set (db_traffic sample_db). 0 \<le> tr_ts r \<and> tr_ts r \<le> 9223372036" by code_simp
  from trafficHistory_shape [OF this, of True 1] show ?thesis by simp
qed

section \<open>Events\<close>

text \<open>JSON text of a dictionary, as a value.\<close>

definition fields_json_value :: "fields \<Rightarrow> json" where
  "fields_json_value flds = JObject (map (\<lambda>key. (key, JString (dget_or flds key []))) (sort (map fst flds)))"

lemma fieldsJson_text: "fieldsJson flds = json_text (fields_json_value flds)"
  by (simp add: fieldsJson_def fields_json_value_def comp_def)

lemma fields_json_value_ok: "json_ok (fields_json_value flds)"
  by (simp add: fields_json_value_def list_all_iff)

lemma hex_digit_plain: "n < 16 \<Longrightarrow> hex_digit n \<noteq> CHR 0x00"
proof
  assume n: "n < 16" and "hex_digit n = CHR 0x00"
  then have "(of_char (hex_digit n) :: nat) = 0" by simp
  with n show False by (simp add: hex_digit_def of_char_of split: if_splits)
qed

lemma plain_escape: "plain_text (json_escape_char c)"
proof -
  have "code c < 32 \<Longrightarrow> code c div 16 < 16" "code c mod 16 < 16" by simp_all
  then have "code c < 32 \<Longrightarrow> hex_digit (code c div 16) \<noteq> CHR 0x00" "hex_digit (code c mod 16) \<noteq> CHR 0x00"
    using hex_digit_plain by blast+
  moreover have "code (CHR 0x00) < 32" by code_simp
  ultimately show ?thesis
    unfolding plain_text_def json_escape_char_def by (auto simp del: of_char_Char)
qed

lemma plain_jsonQuote: "plain_text (jsonQuote s)"
proof -
  have "plain_text (jsonEscape s)"
    using plain_escape by (auto simp: jsonEscape_def plain_text_def)
  then show ?thesis by (simp add: jsonQuote_def plain_text_def)
qed

lemma plain_separated: "(\<And>x. x \<in> set xs \<Longrightarrow> plain_text x) \<Longrightarrow> plain_text (separated xs)"
  by (induction xs rule: separated.induct) (auto simp: plain_text_def)

lemma plain_fieldsJson: "plain_text (fieldsJson flds)"
proof -
  have "plain_text (separated (map member_text (map (\<lambda>key. (key, jsonQuote (dget_or flds key []))) (sort (map fst flds)))))"
    by (rule plain_separated) (auto simp: member_text_def plain_append plain_jsonQuote,
        insert plain_jsonQuote, auto simp: plain_text_def)
  then show ?thesis by (simp add: fieldsJson_def object_text_def plain_text_def)
qed



section \<open>Opening\<close>

lemma initializeSchema_error_iff: "(\<exists>m. initializeSchema env now db = Inl m) \<longleftrightarrow> (\<exists>i<5. en_exec_error env i \<noteq> None)"
proof -
  have "find (\<lambda>i. execRequired env i \<noteq> None) [0..<5] = None \<longleftrightarrow> \<not> (\<exists>i<5. en_exec_error env i \<noteq> None)"
    by (auto simp: find_None_iff execRequired_def)
  then show ?thesis by (cases "find (\<lambda>i. execRequired env i \<noteq> None) [0..<5]") (auto simp: initializeSchema_def)
qed

text \<open>
  The store fails to open exactly when SQLite is configured and the library, one of its symbols, the file
  or one of the five required statements is missing or fails; in every other mode it opens, disabled, without
  touching the library or the file.
\<close>

theorem sqlite_new_error_iff:
  "((\<exists>m. sqlite_new env run clk config file = Inl m) \<longleftrightarrow>
      lower (storage_mode config) = ''sqlite'' \<and>
      (\<not> en_library env \<or> \<not> list_all (en_symbol env) api_symbols \<or> en_open_error env \<noteq> None \<or> (\<exists>i<5. en_exec_error env i \<noteq> None))) \<and>
   (\<forall>st. sqlite_new env run clk config file = Inr st \<longrightarrow>
      sq_config st = config \<and> sq_enabled st = (lower (storage_mode config) = ''sqlite'') \<and> (sq_enabled st \<or> sq_db st = file))"
proof -
  have "loadApi env = None \<longleftrightarrow> en_library env \<and> list_all (en_symbol env) api_symbols"
    by (auto simp: loadApi_def find_None_iff list_all_iff)
  moreover have "openDatabase env config = None \<longleftrightarrow> en_open_error env = None" by (simp add: openDatabase_def)
  ultimately show ?thesis
    using initializeSchema_error_iff [where env = env and now = "clk 0" and db = "file"]
    by (auto simp: sqlite_new_def split: option.splits sum.splits)
qed

theorem sqlite_new_error_iff_witness:
  "sq_enabled (\<lparr>sq_config = default_config, sq_enabled = False, sq_db = db_empty\<rparr>) = (lower (storage_mode default_config) = ''sqlite'')"
proof -
  define env where "env = \<lparr>en_library = False, en_symbol = \<lambda>_. False, en_open_error = None, en_exec_error = \<lambda>_. None\<rparr>"
  have "sqlite_new env sample_run (\<lambda>_. 0) default_config db_empty
      = Inr \<lparr>sq_config = default_config, sq_enabled = False, sq_db = db_empty\<rparr>" by code_simp
  with sqlite_new_error_iff [of env sample_run "\<lambda>_. 0" default_config db_empty] show ?thesis by blast
qed

text \<open>A store that opened on a consistent file is consistent, and so is it after every operation of the interface.\<close>

lemma sqlite_new_inv: "sqlite_new env run clk config file = Inr st \<Longrightarrow> db_inv file \<Longrightarrow> db_inv (sq_db st)"
  by (auto simp: sqlite_new_def split: if_splits option.splits sum.splits
      intro!: db_step_inv [OF db_step.intros(5)] intro: db_step_inv [OF db_step.intros(6)])

end
