(* ===== verification/Netmon_Runtime.thy ===== *)
theory Netmon_Runtime
  imports App_Properties Sqlite_Queries
begin

text \<open>
  The program around the components: \<^verbatim>\<open>main\<close> of \<^verbatim>\<open>src/src/main.cpp\<close>, \<^verbatim>\<open>App::start\<close> and the cleanup loop of
  \<^verbatim>\<open>src/src/app.cpp\<close>, and the effect on the database of the calls that the application makes. The threads,
  signals and sockets themselves are not modelled: a loop takes the successive values of \<^verbatim>\<open>running_\<close> as an
  argument.
\<close>

section \<open>The calls of the application\<close>

text \<open>What the library and the clock answer to one call.\<close>

record call_run =
  cr_ok :: bool
  cr_clk :: clock
  cr_step_ok :: "nat \<Rightarrow> bool"
  cr_retention :: retention_run

definition apply_call :: "call_run \<Rightarrow> call \<Rightarrow> SqliteStore \<Rightarrow> SqliteStore" where
  "apply_call r c =
     (case c of
        UpsertDevices ds \<Rightarrow> sqlite_upsertDevices (cr_ok r) (cr_clk r) (cr_step_ok r) ds
      | InsertEvent e \<Rightarrow> sqlite_insertEvent (cr_ok r) e
      | InsertTraffic snap \<Rightarrow> sqlite_insertTraffic (cr_ok r) snap
      | InsertWANAttack a \<Rightarrow> sqlite_insertWANAttack (cr_ok r) a
      | ApplyRetention \<Rightarrow> sqlite_applyRetention (cr_retention r) (cr_clk r 0)
      | Broadcast m \<Rightarrow> (\<lambda>st. st))"

fun apply_calls :: "(nat \<Rightarrow> call_run) \<Rightarrow> nat \<Rightarrow> call list \<Rightarrow> SqliteStore \<Rightarrow> SqliteStore" where
  "apply_calls rs i [] st = st"
| "apply_calls rs i (c # cs) st = apply_calls rs (Suc i) cs (apply_call (rs i) c st)"

section \<open>Starting\<close>

text \<open>What loading meets: the order of rows, the prepared statements and the clock.\<close>

record load_run =
  ld_devices :: "device_row list \<Rightarrow> device_row list"
  ld_events :: "event_row list \<Rightarrow> event_row list"
  ld_attacks :: "attack_row list \<Rightarrow> attack_row list"
  ld_ok :: "nat \<Rightarrow> bool"
  ld_clks :: "nat \<Rightarrow> nat \<Rightarrow> clock"

definition app_start ::
  "sqlite_env \<Rightarrow> retention_run \<Rightarrow> clock \<Rightarrow> load_run \<Rightarrow> Config \<Rightarrow> Database \<Rightarrow> string + App \<times> SqliteStore" where
  "app_start env run clk ld config db_file =
     (let storage = lower (storage_mode config)
      in if storage \<noteq> ''memory'' \<and> storage \<noteq> ''sqlite'' then Inl ''storage.mode must be memory or sqlite''
         else case sqlite_new env run clk config db_file of
                Inl what \<Rightarrow> Inl what
              | Inr st \<Rightarrow>
                  Inr ((app_new config)\<lparr>ap_sqlite_enabled := sq_enabled st,
                         ap_state := (if sq_enabled st
                                      then sqlite_loadInto (ld_devices ld) (ld_events ld) (ld_attacks ld) (ld_ok ld) (ld_clks ld)
                                             st (store_new config)
                                      else store_new config)\<rparr>,
                       st))"

section \<open>The cleanup loop\<close>

text \<open>
  Each element of the list is the value of one \<^verbatim>\<open>running_.load()\<close>; at its end the application is stopped.
  Up to sixty of them pass while the loop sleeps.
\<close>

fun nap :: "nat \<Rightarrow> bool list \<Rightarrow> bool list" where
  "nap 0 loads = loads"
| "nap (Suc i) [] = []"
| "nap (Suc i) (running # loads) = (if running then nap i loads else loads)"

lemma length_nap: "length (nap i loads) \<le> length loads"
  by (induction i loads rule: nap.induct) auto

function runCleanupLoop :: "(nat \<Rightarrow> clock) \<Rightarrow> nat \<Rightarrow> bool list \<Rightarrow> App \<Rightarrow> App" where
  "runCleanupLoop clks n loads app =
     (case loads of
        running # loads1 \<Rightarrow>
          if \<not> running then app
          else (case nap 60 loads1 of
                  running2 # loads2 \<Rightarrow>
                    if \<not> running2 then app
                    else runCleanupLoop clks (Suc n) loads2 (cleanup_round (clks n) app)
                | [] \<Rightarrow> app)
      | [] \<Rightarrow> app)"
  by pat_completeness auto
termination runCleanupLoop
proof (relation "measure (\<lambda>(clks, n, loads, app). length loads)")
  fix clks :: "nat \<Rightarrow> clock" and n :: nat and loads :: "bool list" and app :: App and running loads1 running2 loads2
  assume "loads = running # loads1" "nap 60 loads1 = running2 # loads2"
  then show "((clks, Suc n, loads2, cleanup_round (clks n) app), clks, n, loads, app)
      \<in> measure (\<lambda>(clks, n, loads, app). length loads)"
    using length_nap [of 60 loads1] by simp
qed simp

declare runCleanupLoop.simps [simp del]

section \<open>main\<close>

datatype arguments = Run string | Exit int string

definition usage :: "string \<Rightarrow> string" where
  "usage argv0 = ''Usage: '' @ argv0 @ '' [--config path]'' @ [CHR 0x0A]"

fun parse_arguments :: "string \<Rightarrow> string \<Rightarrow> string list \<Rightarrow> arguments" where
  "parse_arguments argv0 config_path [] = Run config_path"
| "parse_arguments argv0 config_path [arg] =
     (if arg = ''--help'' \<or> arg = ''-h'' then Exit 0 (usage argv0)
      else Exit 2 (''unknown argument: '' @ arg @ [CHR 0x0A] @ usage argv0))"
| "parse_arguments argv0 config_path (arg # next # rest) =
     (if arg = ''--config'' then parse_arguments argv0 next rest
      else if arg = ''--help'' \<or> arg = ''-h'' then Exit 0 (usage argv0)
      else Exit 2 (''unknown argument: '' @ arg @ [CHR 0x0A] @ usage argv0))"

text \<open>
  The exit status and what is printed; \<open>start\<close> gives the error of starting the application, if any. A
  started application runs until a signal and then stops.
\<close>

definition netmon_main ::
  "(string \<Rightarrow> string option) \<Rightarrow> environment \<Rightarrow> (Config \<Rightarrow> string option) \<Rightarrow> string \<Rightarrow> string list \<Rightarrow> int \<times> string" where
  "netmon_main read_file env start argv0 args =
     (case parse_arguments argv0 ''./config.example.yaml'' args of
        Exit status text_out \<Rightarrow> (status, text_out)
      | Run config_path \<Rightarrow>
          let config = loadConfig read_file env config_path;
              note_out = (if enable_debug_file_log config
                          then ''debug file logging is disabled in this MVP build; using stdout/stderr only'' @ [CHR 0x0A] else [])
          in case start config of
               Some what \<Rightarrow> (2, note_out @ ''fatal: '' @ what @ [CHR 0x0A])
             | None \<Rightarrow> (0, note_out))"

end
