(* ===== verification/Runtime_Properties.thy ===== *)
theory Runtime_Properties
  imports Netmon_Runtime
begin

text \<open>
  What the running program guarantees across log lines, cleanup rounds and restarts, and what a restart loses.
\<close>

section \<open>The cleanup loop\<close>

lemma nap_running: "nap i (replicate n True @ stopped) =
    (if i \<le> n then replicate (n - i) True @ stopped else nap (i - n) stopped)"
proof (induction i arbitrary: n)
  case (Suc i)
  then show ?case by (cases n) (auto simp: Suc_diff_le)
qed simp

lemma nap_stopped: "list_all Not stopped \<Longrightarrow> list_all Not (nap i stopped)"
  by (induction i stopped rule: nap.induct) auto

lemma runCleanupLoop_stopped: "list_all Not loads \<Longrightarrow> runCleanupLoop clks n loads app = app"
  by (subst runCleanupLoop.simps) (cases loads; simp)

lemma runCleanupLoop_short:
  assumes "m < 62" "list_all Not stopped"
  shows "runCleanupLoop clks n (replicate m True @ stopped) app = app"
proof (cases m)
  case 0
  then show ?thesis using assms(2) by (simp add: runCleanupLoop_stopped)
next
  case (Suc k)
  have "list_all Not (nap 60 (replicate k True @ stopped))"
    using assms Suc nap_stopped [OF assms(2), of "60 - k"] by (auto simp: nap_running le_Suc_eq)
  then show ?thesis
    by (subst runCleanupLoop.simps) (auto simp: Suc split: list.splits)
qed

text \<open>
  C15: As long as the application runs the cleanup loop makes progress: every sixty-two reads of the running
  flag, about one minute, one whole cleanup round is done, in order; and once the flag is down the loop ends
  without starting another round, wherever in its sleep it is.
\<close>

theorem runCleanupLoop_rounds:
  assumes "list_all Not stopped"
  shows "runCleanupLoop clks n (replicate loads True @ stopped) app =
         fold (\<lambda>i. cleanup_round (clks i)) [n..<n + loads div 62] app"
proof (induction loads arbitrary: n app rule: less_induct)
  case (less loads)
  show ?case
  proof (cases "loads < 62")
    case True
    then show ?thesis using runCleanupLoop_short [OF True assms] by simp
  next
    case False
    then obtain k where k: "loads = 62 + k" by (metis le_add_diff_inverse not_less)
    have "replicate loads True @ stopped = True # replicate (61 + k) True @ stopped"
      by (simp add: k add.commute [of 62] add.commute [of 61] flip: replicate_Suc)
    moreover have "nap 60 (replicate (61 + k) True @ stopped) = True # replicate k True @ stopped"
      by (simp add: nap_running)
    ultimately have "runCleanupLoop clks n (replicate loads True @ stopped) app
        = runCleanupLoop clks (Suc n) (replicate k True @ stopped) (cleanup_round (clks n) app)"
      by (subst runCleanupLoop.simps) simp
    also have "\<dots> = fold (\<lambda>i. cleanup_round (clks i)) [Suc n..<Suc n + k div 62] (cleanup_round (clks n) app)"
      using k by (intro less.IH) simp
    also have "\<dots> = fold (\<lambda>i. cleanup_round (clks i)) [n..<n + loads div 62] app"
      by (simp add: k upt_conv_Cons)
    finally show ?thesis .
  qed
qed

theorem runCleanupLoop_rounds_witness:
  "runCleanupLoop (\<lambda>_ _. 7) 0 (replicate 130 True @ [False, False]) (app_new default_config) =
   cleanup_round (\<lambda>_. 7) (cleanup_round (\<lambda>_. 7) (app_new default_config))"
  using runCleanupLoop_rounds [of "[False, False]" "\<lambda>_ _. 7" 0 130 "app_new default_config"] by (simp add: upt_rec)

section \<open>Starting from a database\<close>

lemma load_rows_steps:
  assumes "\<And>clk x s. store_step s (f clk x s)"
  shows "store_step\<^sup>*\<^sup>* s (load_rows f clks i xs s)"
proof (induction xs arbitrary: i s)
  case (Cons x xs)
  have "store_step s (f (clks i) x s)" by (rule assms)
  with Cons.IH [of "f (clks i) x s" "Suc i"] show ?case by (simp add: converse_rtranclp_into_rtranclp)
qed simp

lemma loadInto_steps: "store_step\<^sup>*\<^sup>* s (sqlite_loadInto sd se sa ok clks st s)"
proof -
  have d: "store_step\<^sup>*\<^sup>* s (loadDevices sd ok1 clk db s)" for ok1 clk db s
    by (simp add: loadDevices_def load_rows_steps store_step.UpdateDevice)
  have e: "store_step\<^sup>*\<^sup>* s (loadEvents se ok1 clk c db s)" for ok1 clk c db s
    by (simp add: loadEvents_def load_rows_steps store_step.AddEvent)
  have a: "store_step\<^sup>*\<^sup>* s (loadWANAttacks sa ok1 clk c db s)" for ok1 clk c db s
    by (simp add: loadWANAttacks_def load_rows_steps store_step.AddWANAttack)
  show ?thesis
    unfolding sqlite_loadInto_def impl_loadInto_def
    using rtranclp_trans [OF rtranclp_trans [OF d e] a] by simp
qed

lemma apply_call_inv: "db_inv (sq_db st) \<Longrightarrow> db_inv (sq_db (apply_call r c st))"
  unfolding apply_call_def sqlite_upsertDevices_def sqlite_insertEvent_def sqlite_insertTraffic_def
    sqlite_insertWANAttack_def sqlite_applyRetention_def on_db_def
  by (auto split: call.splits intro: db_step_inv [OF db_step.intros(1)] db_step_inv [OF db_step.intros(2)]
      db_step_inv [OF db_step.intros(3)] db_step_inv [OF db_step.intros(4)] db_step_inv [OF db_step.intros(5)])

lemma apply_calls_inv: "db_inv (sq_db st) \<Longrightarrow> db_inv (sq_db (apply_calls rs i cs st))"
  by (induction rs i cs st rule: apply_calls.induct) (auto intro: apply_call_inv)

text \<open>
  The whole program: the application and its database. Work done by the application reaches the database as
  the calls it makes; a restart opens the file that the last run left.
\<close>

inductive system_step :: "App \<times> SqliteStore \<Rightarrow> App \<times> SqliteStore \<Rightarrow> bool" where
  Work: "app_step app app' \<Longrightarrow> ap_calls app' = ap_calls app @ new \<Longrightarrow> system_step (app, st) (app', apply_calls rs 0 new st)"
| Restart: "app_start env run clk ld config (sq_db st) = Inr s \<Longrightarrow> system_step (app, st) s"

inductive_cases system_stepE: "system_step s t"

definition system_start :: "App \<times> SqliteStore \<Rightarrow> bool" where
  "system_start s \<longleftrightarrow> (\<exists>env run clk ld config. app_start env run clk ld config db_empty = Inr s)"

definition system_inv :: "App \<times> SqliteStore \<Rightarrow> bool" where
  "system_inv s \<longleftrightarrow> app_inv (fst s) \<and> db_inv (sq_db (snd s)) \<and> ap_sqlite_enabled (fst s) = sq_enabled (snd s)"

lemma app_start_Inr:
  assumes "app_start env run clk ld config db_file = Inr (app, st)"
  shows "sqlite_new env run clk config db_file = Inr st" "ap_sqlite_enabled app = sq_enabled st"
    "ap_stats app = stats_new" "ap_calls app = []" "store_step\<^sup>*\<^sup>* (store_new config) (ap_state app)"
  using assms loadInto_steps
  by (auto simp: app_start_def app_new_def Let_def split: if_splits sum.splits)

lemma app_start_inv:
  assumes "app_start env run clk ld config db_file = Inr s" "db_inv db_file"
  shows "system_inv s"
proof -
  obtain app st where s: "s = (app, st)" by (cases s)
  note st = app_start_Inr [OF assms(1) [unfolded s]]
  have "store_inv (ap_state app)" using store.steps_inv [OF st(5) store_inv_new] .
  moreover have "db_inv (sq_db st)" using sqlite_new_inv [OF st(1) assms(2)] .
  ultimately show ?thesis using st(2,3) by (simp add: s system_inv_def app_inv_def stats_ok_new)
qed

lemma apply_calls_enabled: "sq_enabled (apply_calls rs i cs st) = sq_enabled st"
proof (induction rs i cs st rule: apply_calls.induct)
  case (2 rs i c cs st)
  then show ?case
    by (simp add: apply_call_def sqlite_upsertDevices_def sqlite_insertEvent_def sqlite_insertTraffic_def
        sqlite_insertWANAttack_def sqlite_applyRetention_def on_db_def split: call.splits)
qed simp

lemma handleLog_enabled: "ap_sqlite_enabled (handleLog clk line peer app) = ap_sqlite_enabled app"
  unfolding handleLog_def applyParseResult_def count_message_def branch_defs call_defs Let_def makeEvent_split by simp

lemma cleanup_round_enabled: "ap_sqlite_enabled (cleanup_round clk app) = ap_sqlite_enabled app"
  by (simp add: cleanup_round_def call_defs)

lemma app_step_enabled: "app_step app app' \<Longrightarrow> ap_sqlite_enabled app' = ap_sqlite_enabled app"
  by (auto elim!: app_stepE simp: handleLog_enabled cleanup_round_enabled)

interpretation system: invariant_system system_start system_step system_inv
proof
  fix s assume "system_start s"
  then show "system_inv s" by (auto simp: system_start_def intro: app_start_inv db_empty_inv)
next
  fix s t assume s: "system_inv s" and t: "system_step s t"
  from t show "system_inv t"
  proof (cases rule: system_step.cases)
    case (Work app app' new st rs)
    then show ?thesis
      using s app_inv_step [of app app'] by (simp add: system_inv_def apply_calls_inv apply_calls_enabled app_step_enabled)
  next
    case Restart
    then show ?thesis using s app_start_inv by (simp add: system_inv_def)
  qed
qed




section \<open>What a restart loses\<close>

lemma load_events_seq:
  "(\<And>e. e \<in> set es \<Longrightarrow> ev_id e \<noteq> []) \<Longrightarrow> st_event_seq (load_rows addEvent clks i es s) = st_event_seq s"
  by (induction es arbitrary: i s) (simp_all add: addEvent_known_id(2))

lemma load_other_seq:
  "st_event_seq (load_rows updateDevice clks i ds s) = st_event_seq s"
  "st_event_seq (load_rows addWANAttack clks i as s) = st_event_seq s"
  by (induction ds arbitrary: i s) (simp_all add: update_frame, induction as arbitrary: i s, simp_all add: update_frame)

lemma loaded_seq:
  assumes "\<And>rows. set (se rows) \<subseteq> set rows" "\<And>r. r \<in> set (db_events (sq_db st)) \<Longrightarrow> er_id r \<noteq> []"
  shows "st_event_seq (sqlite_loadInto sd se sa ok clks st s) = st_event_seq s"
proof -
  have ev: "ev_id e \<noteq> []" if "e \<in> set (map eventFromStatement (sort_key er_ts
      (se (limit_rows n (sort_key (\<lambda>r. - er_ts r) (se (db_events (sq_db st))))))))" for e n
  proof -
    from that obtain r where r: "r \<in> set (se (limit_rows n (sort_key (\<lambda>r. - er_ts r) (se (db_events (sq_db st))))))"
      "e = eventFromStatement r" by auto
    then have "r \<in> set (limit_rows n (sort_key (\<lambda>r. - er_ts r) (se (db_events (sq_db st)))))" using assms(1) by blast
    then have "r \<in> set (se (db_events (sq_db st)))" by (auto simp: limit_rows_def dest: in_set_takeD split: if_splits)
    then have "r \<in> set (db_events (sq_db st))" using assms(1) by blast
    then show ?thesis using assms(2) by (simp add: r(2) eventFromStatement_def)
  qed
  have "st_event_seq (loadEvents se ok1 clk c (sq_db st) s) = st_event_seq s" for ok1 clk c s
  proof (cases ok1)
    case True
    then show ?thesis unfolding loadEvents_def by (simp only: not_True_eq_False if_False) (rule load_events_seq, rule ev)
  qed (simp add: loadEvents_def)
  then show ?thesis
    unfolding sqlite_loadInto_def impl_loadInto_def
    by (simp add: loadDevices_def loadWANAttacks_def load_other_seq)
qed



text \<open>
  The fields of an event do not survive a restart: an event read from the file carries them as one field
  \<^verbatim>\<open>fields_json\<close>, which is not among the fields that may be stored, so that the next cleanup round, which writes
  all recent events again, replaces the stored fields by an empty object.
\<close>

theorem reloaded_fields_lost:
  "er_fields_json (event_row_of (preprocessEventForStorage (eventFromStatement row))) = ''{}''"
proof -
  have "clean_fields t [(''fields_json'', v)] [] = []" for t v
  proof -
    have k: "lower (cleanStorageValue ''fields_json'' 48) = ''fields_json''" by code_simp
    have "\<not> storageFieldAllowed t ''fields_json''" by (simp add: storageFieldAllowed_def common_fields_def)
    then show ?thesis by (simp add: clean_field_def k)
  qed
  then have "clean_fields t (ev_fields (eventFromStatement row)) [] = []" for t
    by (simp add: eventFromStatement_def)
  then have "ev_fields (preprocessEventForStorage (eventFromStatement row)) = []"
    by (simp add: preprocessEventForStorage_def)
  then show ?thesis
    by (simp add: event_row_of_def fieldsJson_def object_text_def bindText_def)
qed

section \<open>Arguments\<close>

text \<open>
  With any number of \<^verbatim>\<open>--config\<close> options the last one counts, and without any the example configuration; the
  program exits with status 0 or 2, and with 2 when the application does not start.
\<close>

theorem main_config_options:
  "netmon_main read_file env start argv0 (concat (map (\<lambda>p. [''--config'', p]) paths)) =
     netmon_main read_file env start argv0 [''--config'', last (''./config.example.yaml'' # paths)] \<and>
   fst (netmon_main read_file env start argv0 args) \<in> {0, 2} \<and>
   (fst (netmon_main read_file env start argv0 [''--config'', path]) = 2 \<longleftrightarrow> start (loadConfig read_file env path) \<noteq> None)"
proof -
  have "parse_arguments argv0 path (concat (map (\<lambda>p. [''--config'', p]) paths)) = Run (last (path # paths))" for path
    by (induction paths arbitrary: path) auto
  then have "netmon_main read_file env start argv0 (concat (map (\<lambda>p. [''--config'', p]) paths)) =
      netmon_main read_file env start argv0 [''--config'', last (''./config.example.yaml'' # paths)]"
    unfolding netmon_main_def by simp
  moreover have "case parse_arguments argv0 p args of Exit status m \<Rightarrow> status \<in> {0, 2} | Run q \<Rightarrow> True" for p
    by (induction argv0 p args rule: parse_arguments.induct) auto
  from this [of "''./config.example.yaml''"] have "fst (netmon_main read_file env start argv0 args) \<in> {0, 2}"
    unfolding netmon_main_def Let_def by (auto split: option.splits arguments.splits)
  moreover have "fst (netmon_main read_file env start argv0 [''--config'', path]) = 2 \<longleftrightarrow> start (loadConfig read_file env path) \<noteq> None"
    by (simp add: netmon_main_def Let_def split: option.splits)
  ultimately show ?thesis by blast
qed

end
