(* ===== verification/Web_Server.thy ===== *)
theory Web_Server
  imports Prometheus_Exporter Web_Socket Sqlite_Store
begin

text \<open>
  \<^verbatim>\<open>WebServer\<close> of \<^verbatim>\<open>src/src/web_server.cpp\<close>: receiving and parsing a request, authorization, the JSON documents,
  the routes, and the registry of WebSocket clients. A response is the text that is sent. The files are an
  argument that gives the content of a path that can be opened, and the clocks and the answers of SQLite are
  an argument of type \<open>query_run\<close>; the version is set by the build. Sockets are numbers, and what is done with them is a list of \<open>fd_event\<close>.
\<close>

section \<open>Requests\<close>

record Request =
  rq_method :: string
  rq_target :: string
  rq_path :: string
  rq_query :: string
  rq_headers :: "(string, string) dict"

definition headerValue :: "(string, string) dict \<Rightarrow> string \<Rightarrow> string" where
  "headerValue headers key = (case dget headers (lower key) of None \<Rightarrow> [] | Some v \<Rightarrow> v)"

definition crlf :: string where
  "crlf = [CHR 0x0D, CHR 0x0A]"

text \<open>
  The receiving loop: the chunks are the results of \<^verbatim>\<open>recv\<close>, an empty one for a result that is not positive.
  \<open>None\<close> means that the connection is closed without an answer.
\<close>

fun receive_request :: "string \<Rightarrow> string list \<Rightarrow> string option" where
  "receive_request raw chunks =
     (if find_str (crlf @ crlf) raw = None \<and> length raw < 16384
      then (case chunks of
              [] \<Rightarrow> None
            | chunk # rest \<Rightarrow> if chunk = [] then None else receive_request (raw @ chunk) rest)
      else Some raw)"

declare receive_request.simps [simp del]

definition strip_cr :: "string \<Rightarrow> string" where
  "strip_cr line = (if line \<noteq> [] \<and> last line = CHR 0x0D then butlast line else line)"

text \<open>\<^verbatim>\<open>stream >> word\<close>: the word and the rest of the stream; no word means failure.\<close>

definition read_word :: "string \<Rightarrow> string \<times> string" where
  "read_word s = (let t = dropWhile isspace s in (takeWhile (\<lambda>c. \<not> isspace c) t, dropWhile (\<lambda>c. \<not> isspace c) t))"

fun parse_headers :: "string list \<Rightarrow> (string, string) dict \<Rightarrow> (string, string) dict" where
  "parse_headers [] headers = headers"
| "parse_headers (l # ls) headers =
     (let line = strip_cr l
      in if line = [] then headers
         else case find_char (CHR '':'') line of
                None \<Rightarrow> parse_headers ls headers
              | Some colon \<Rightarrow>
                  parse_headers ls (dput (lower (trim (take colon line))) (trim (drop (Suc colon) line)) headers))"

definition parseRequest :: "string \<Rightarrow> Request option" where
  "parseRequest raw =
     (case getlines raw of
        [] \<Rightarrow> None
      | first # rest \<Rightarrow>
          let (meth, rest1) = read_word (strip_cr first);
              (target, rest2) = read_word rest1
          in if meth = [] \<or> target = [] then None
             else Some \<lparr>rq_method = meth, rq_target = target,
                        rq_path = (case find_char (CHR ''?'') target of None \<Rightarrow> target | Some pos \<Rightarrow> take pos target),
                        rq_query = (case find_char (CHR ''?'') target of None \<Rightarrow> [] | Some pos \<Rightarrow> drop (Suc pos) target),
                        rq_headers = parse_headers rest []\<rparr>)"

fun query_lookup :: "string list \<Rightarrow> string \<Rightarrow> string" where
  "query_lookup [] key = []"
| "query_lookup (part # parts) key =
     (case find_char (CHR ''='') part of
        None \<Rightarrow> query_lookup parts key
      | Some eq \<Rightarrow> if take eq part = key then drop (Suc eq) part else query_lookup parts key)"

definition queryParam :: "Request \<Rightarrow> string \<Rightarrow> string" where
  "queryParam request key = query_lookup (split (rq_query request) (CHR ''&'')) key"

definition authorized :: "Config \<Rightarrow> Request \<Rightarrow> bool" where
  "authorized config request =
     (if dashboard_token config = [] then True
      else if headerValue (rq_headers request) ''x-netmon-token'' = dashboard_token config then True
      else queryParam request ''token'' = dashboard_token config)"

section \<open>Responses\<close>

definition sendResponse :: "nat \<Rightarrow> string \<Rightarrow> string \<Rightarrow> string \<Rightarrow> string" where
  "sendResponse status status_text content_type body =
     ''HTTP/1.1 '' @ show_nat status @ '' '' @ status_text @ crlf @
     ''Content-Type: '' @ content_type @ crlf @
     ''Content-Length: '' @ show_nat (length body) @ crlf @
     ''Connection: close'' @ crlf @
     ''Cache-Control: no-store'' @ crlf @
     ''X-Content-Type-Options: nosniff'' @ crlf @
     crlf @ body"

definition error_body :: "string \<Rightarrow> string" where
  "error_body what = object_text [(''error'', jsonQuote what)]"

definition sendJson :: "string \<Rightarrow> string" where
  "sendJson body = sendResponse 200 ''OK'' ''application/json; charset=utf-8'' body"

definition sendPrometheus :: "string \<Rightarrow> string" where
  "sendPrometheus body = sendResponse 200 ''OK'' ''text/plain; version=0.0.4; charset=utf-8'' body"

definition sendNotFound :: string where
  "sendNotFound = sendResponse 404 ''Not Found'' ''application/json; charset=utf-8'' (error_body ''not_found'')"

definition sendUnauthorized :: string where
  "sendUnauthorized = sendResponse 401 ''Unauthorized'' ''application/json; charset=utf-8'' (error_body ''unauthorized'')"

section \<open>Files\<close>

definition contentTypeFor :: "string \<Rightarrow> string" where
  "contentTypeFor path =
     (if suffix ''.html'' path then ''text/html; charset=utf-8''
      else if suffix ''.css'' path then ''text/css; charset=utf-8''
      else if suffix ''.js'' path then ''application/javascript; charset=utf-8''
      else if suffix ''.svg'' path then ''image/svg+xml''
      else ''application/octet-stream'')"

text \<open>The content and the content type, which stays unset when the path is refused.\<close>

definition readStaticFile :: "Config \<Rightarrow> (string \<Rightarrow> string option) \<Rightarrow> string \<Rightarrow> string \<times> string" where
  "readStaticFile config read_file path =
     (if find_str ''..'' path \<noteq> None then ([], [])
      else let relative = (if path = [] \<or> hd path \<noteq> CHR ''/'' then path else drop 1 path);
               full_path = web_root config @ ''/'' @ relative
           in (case read_file full_path of None \<Rightarrow> [] | Some content \<Rightarrow> content, contentTypeFor full_path))"

definition dashboard_candidates :: "string list" where
  "dashboard_candidates =
     [''./deployments/grafana/openwrt-netmon-lite-dashboard.json'',
      ''/app/deployments/grafana/openwrt-netmon-lite-dashboard.json'',
      ''../deployments/grafana/openwrt-netmon-lite-dashboard.json'']"

definition grafanaDashboardJson :: "(string \<Rightarrow> string option) \<Rightarrow> string" where
  "grafanaDashboardJson read_file =
     (case find (\<lambda>path. read_file path \<noteq> None) dashboard_candidates of
        None \<Rightarrow> []
      | Some path \<Rightarrow> the (read_file path))"

section \<open>Documents\<close>

definition jsonFields :: "fields \<Rightarrow> string" where
  "jsonFields flds = object_text (map (\<lambda>key. (key, jsonQuote (dget_or flds key []))) (sort (map fst flds)))"

definition tagsJson :: "string list \<Rightarrow> string" where
  "tagsJson tags = array_text (map jsonQuote tags)"

definition statsByTypeJson :: "(string, u64) dict \<Rightarrow> string" where
  "statsByTypeJson values = object_text (map (\<lambda>(key, n). (key, show_nat (unat n))) values)"

definition deviceJson :: "DeviceState \<Rightarrow> string" where
  "deviceJson device = object_text
     [(''mac'', jsonQuote (dv_mac device)), (''ip'', jsonQuote (dv_ip device)), (''hostname'', jsonQuote (dv_hostname device)),
      (''interface_name'', jsonQuote (dv_interface_name device)), (''source'', jsonQuote (dv_source device)),
      (''neigh_state'', jsonQuote (dv_neigh_state device)), (''status'', jsonQuote (toString_status (dv_status device))),
      (''first_seen'', jsonQuote (formatIso8601 (dv_first_seen device))),
      (''last_seen'', jsonQuote (formatIso8601 (dv_last_seen device))),
      (''last_dhcp'', jsonQuote (formatIso8601 (dv_last_dhcp device))),
      (''last_traffic'', jsonQuote (formatIso8601 (dv_last_traffic device))),
      (''last_rate'', jsonQuote (formatIso8601 (dv_last_rate device))),
      (''rx_bytes_total'', show_nat (unat (dv_rx_bytes_total device))),
      (''tx_bytes_total'', show_nat (unat (dv_tx_bytes_total device))),
      (''rx_rate_bps'', show_double (dv_rx_rate_bps device)), (''tx_rate_bps'', show_double (dv_tx_rate_bps device)),
      (''tags'', tagsJson (dv_tags device))]"

definition eventJson :: "Event \<Rightarrow> string" where
  "eventJson event = object_text
     [(''id'', jsonQuote (ev_id event)), (''ts'', jsonQuote (formatIso8601 (ev_ts event))), (''type'', jsonQuote (ev_type event)),
      (''severity'', jsonQuote (toString_severity (ev_severity event))), (''source'', jsonQuote (ev_source event)),
      (''message'', jsonQuote (ev_message event)), (''fields'', jsonFields (ev_fields event))]"

definition wanAttackJson :: "WANAttackEvent \<Rightarrow> string" where
  "wanAttackJson event = object_text
     [(''ts'', jsonQuote (formatIso8601 (wa_ts event))), (''in_if'', jsonQuote (wa_in_if event)),
      (''src_ip'', jsonQuote (wa_src_ip event)), (''dst_ip'', jsonQuote (wa_dst_ip event)),
      (''src_port'', jsonQuote (wa_src_port event)), (''dst_port'', jsonQuote (wa_dst_port event)),
      (''proto'', jsonQuote (wa_proto event)), (''length'', jsonQuote (wa_length event)), (''raw'', jsonQuote (wa_raw event))]"

definition trafficPointJson :: "TrafficHistoryPoint \<Rightarrow> string" where
  "trafficPointJson point = object_text
     [(''ts'', jsonQuote (formatIso8601 (hp_ts point))), (''rx_rate_bps'', show_double (hp_rx_rate_bps point)),
      (''tx_rate_bps'', show_double (hp_tx_rate_bps point)), (''samples'', show_nat (hp_samples point))]"

definition deviceTrafficTotalJson :: "DeviceTrafficTotal \<Rightarrow> string" where
  "deviceTrafficTotalJson t = object_text
     [(''mac'', jsonQuote (tt_mac t)), (''ip'', jsonQuote (tt_ip t)), (''hostname'', jsonQuote (tt_hostname t)),
      (''first_ts'', jsonQuote (formatIso8601 (tt_first_ts t))), (''last_ts'', jsonQuote (formatIso8601 (tt_last_ts t))),
      (''rx_bytes'', show_nat (unat (tt_rx_bytes t))), (''tx_bytes'', show_nat (unat (tt_tx_bytes t))),
      (''total_bytes'', show_nat (unat (tt_rx_bytes t + tt_tx_bytes t))), (''samples'', show_nat (tt_samples t))]"

section \<open>The server\<close>

record WebServer =
  wb_config :: Config
  wb_state :: StateStore
  wb_stats :: RuntimeStats
  wb_sqlite :: "SqliteStore option"
  wb_started_at :: time
  wb_version :: string

text \<open>What the clocks and SQLite answer while one request is served.\<close>

record query_run =
  qr_clk :: clock
  qr_steady :: time
  qr_ok :: bool
  qr_devices :: "device_row list \<Rightarrow> device_row list"
  qr_events :: "event_row list \<Rightarrow> event_row list"
  qr_attacks :: "attack_row list \<Rightarrow> attack_row list"
  qr_totals :: "DeviceTrafficTotal list \<Rightarrow> DeviceTrafficTotal list"

definition uptime_seconds :: "WebServer \<Rightarrow> query_run \<Rightarrow> int" where
  "uptime_seconds ws q = to_time_t (tdiff (qr_steady q) (wb_started_at ws))"

definition healthJson :: "WebServer \<Rightarrow> query_run \<Rightarrow> string" where
  "healthJson ws q = object_text
     [(''ok'', ''true''), (''uptime_seconds'', show_int (uptime_seconds ws q)), (''version'', jsonQuote (wb_version ws))]"

definition summaryJson :: "WebServer \<Rightarrow> query_run \<Rightarrow> string" where
  "summaryJson ws q =
     (let summ = summary (qr_clk q 0) (wb_state ws)
      in object_text
           [(''active_devices'', show_nat (sm_active_devices summ)), (''idle_devices'', show_nat (sm_idle_devices summ)),
            (''offline_devices'', show_nat (sm_offline_devices summ)), (''unknown_devices'', show_nat (sm_unknown_devices summ)),
            (''wan_attack_5m'', show_nat (sm_wan_attack_5m summ)), (''rx_rate_bps'', show_double (sm_rx_rate_bps summ)),
            (''tx_rate_bps'', show_double (sm_tx_rate_bps summ)), (''rate_source'', jsonQuote (sm_rate_source summ)),
            (''rate_interface'', jsonQuote (sm_rate_interface summ)),
            (''last_interface_ts'', jsonQuote (formatIso8601 (sm_last_interface_ts summ))),
            (''last_log_ts'', jsonQuote (formatIso8601 (sm_last_log_ts summ)))])"

definition sqlite_available :: "WebServer \<Rightarrow> bool" where
  "sqlite_available ws = (case wb_sqlite ws of None \<Rightarrow> False | Some st \<Rightarrow> sq_enabled st)"

definition integrationsJson :: "WebServer \<Rightarrow> query_run \<Rightarrow> string" where
  "integrationsJson ws q =
     (let config = wb_config ws;
          summ = summary (qr_clk q 0) (wb_state ws);
          runtime = snapshot (wb_stats ws);
          sqlite_enabled = (lower (storage_mode config) = ''sqlite'')
      in object_text
           [(''version'', jsonQuote (wb_version ws)), (''uptime_seconds'', show_int (uptime_seconds ws q)),
            (''storage'', object_text
              [(''mode'', jsonQuote (storage_mode config)), (''sqlite_enabled'', bool_text sqlite_enabled),
               (''sqlite_available'', bool_text (sqlite_available ws)), (''sqlite_path'', jsonQuote (sqlite_path config)),
               (''retention_days'', show_int (sqlite_retention_days config)), (''max_db_mb'', show_int (sqlite_max_db_mb config)),
               (''max_events'', show_nat (unat (sqlite_max_events config))),
               (''max_traffic_points_per_device'', show_nat (unat (sqlite_max_traffic_points_per_device config))),
               (''vacuum_on_start'', bool_text (sqlite_vacuum_on_start config))]),
            (''prometheus'', object_text
              [(''enabled'', bool_text (prometheus_enabled config)), (''path'', jsonQuote (prometheus_path config)),
               (''include_device_labels'', bool_text (prometheus_include_device_labels config)),
               (''device_label_mode'', jsonQuote (prometheus_device_label_mode config))]),
            (''grafana'', object_text
              [(''dashboard_url'', jsonQuote ''/grafana/dashboard.json''),
               (''dashboard_file'', jsonQuote ''deployments/grafana/openwrt-netmon-lite-dashboard.json''),
               (''datasource'', jsonQuote ''Prometheus'')]),
            (''data_sources'', object_text
              [(''default'', jsonQuote ''live''), (''sqlite_query_enabled'', bool_text (sqlite_available ws)),
               (''realtime_source'', jsonQuote ''memory'')]),
            (''runtime'', object_text
              [(''syslog_messages_total'', show_nat (unat (sn_syslog_messages_total runtime))),
               (''parse_errors_total'', show_nat (unat (sn_parse_errors_total runtime))),
               (''wan_attacks_total'', show_nat (unat (sn_wan_attacks_total runtime))),
               (''syslog_messages_by_type'', statsByTypeJson (sn_syslog_messages_by_type runtime)),
               (''event_buffer_size'', show_nat (eventBufferSize (wb_state ws))),
               (''wan_attack_buffer_size'', show_nat (wanAttackBufferSize (wb_state ws))),
               (''active_devices'', show_nat (sm_active_devices summ)), (''idle_devices'', show_nat (sm_idle_devices summ)),
               (''offline_devices'', show_nat (sm_offline_devices summ)), (''unknown_devices'', show_nat (sm_unknown_devices summ))])])"

definition useSqliteSource :: "WebServer \<Rightarrow> Request \<Rightarrow> SqliteStore option" where
  "useSqliteSource ws request =
     (if lower (queryParam request ''source'') = ''sqlite'' \<and> sqlite_available ws then wb_sqlite ws else None)"

definition sourceName :: "WebServer \<Rightarrow> Request \<Rightarrow> string" where
  "sourceName ws request = (if useSqliteSource ws request \<noteq> None then ''sqlite'' else ''live'')"

definition items_text :: "string \<Rightarrow> string list \<Rightarrow> string" where
  "items_text src items = object_text [(''source'', jsonQuote src), (''items'', array_text items)]"

definition device_list :: "WebServer \<Rightarrow> query_run \<Rightarrow> Request \<Rightarrow> u64 \<Rightarrow> DeviceState list" where
  "device_list ws q request limit =
     (case useSqliteSource ws request of
        Some st \<Rightarrow> sqlite_devices (qr_devices q) (qr_ok q) limit st
      | None \<Rightarrow> let ds = devices (qr_clk q 0) (wb_state ws)
                 in if 0 < limit \<and> unat limit < length ds then take (unat limit) ds else ds)"

definition devicesJson :: "WebServer \<Rightarrow> query_run \<Rightarrow> Request \<Rightarrow> u64 \<Rightarrow> string" where
  "devicesJson ws q request limit = items_text (sourceName ws request) (map deviceJson (device_list ws q request limit))"

definition event_list :: "WebServer \<Rightarrow> query_run \<Rightarrow> Request \<Rightarrow> u64 \<Rightarrow> Event list" where
  "event_list ws q request limit =
     (case useSqliteSource ws request of
        Some st \<Rightarrow> sqlite_recentEvents (qr_events q) (qr_ok q) limit st
      | None \<Rightarrow> rev (recentEvents (wb_state ws) (unat limit)))"

definition eventsJson :: "WebServer \<Rightarrow> query_run \<Rightarrow> Request \<Rightarrow> u64 \<Rightarrow> string" where
  "eventsJson ws q request limit = items_text (sourceName ws request) (map eventJson (event_list ws q request limit))"

definition attack_list :: "WebServer \<Rightarrow> query_run \<Rightarrow> Request \<Rightarrow> u64 \<Rightarrow> WANAttackEvent list" where
  "attack_list ws q request limit =
     (case useSqliteSource ws request of
        Some st \<Rightarrow> sqlite_recentWANAttacks (qr_attacks q) (qr_ok q) limit st
      | None \<Rightarrow> rev (recentWANAttacks (wb_state ws) (unat limit)))"

definition wanAttacksJson :: "WebServer \<Rightarrow> query_run \<Rightarrow> Request \<Rightarrow> u64 \<Rightarrow> string" where
  "wanAttacksJson ws q request limit =
     items_text (sourceName ws request) (map wanAttackJson (attack_list ws q request limit))"

definition history_list :: "WebServer \<Rightarrow> query_run \<Rightarrow> Request \<Rightarrow> u64 \<Rightarrow> TrafficHistoryPoint list" where
  "history_list ws q request limit =
     (case useSqliteSource ws request of Some st \<Rightarrow> sqlite_trafficHistory (qr_ok q) limit st | None \<Rightarrow> [])"

definition trafficHistoryJson :: "WebServer \<Rightarrow> query_run \<Rightarrow> Request \<Rightarrow> u64 \<Rightarrow> string" where
  "trafficHistoryJson ws q request limit =
     items_text (sourceName ws request) (map trafficPointJson (history_list ws q request limit))"

definition totals_list :: "WebServer \<Rightarrow> query_run \<Rightarrow> u64 \<Rightarrow> DeviceTrafficTotal list" where
  "totals_list ws q limit =
     (case wb_sqlite ws of
        Some st \<Rightarrow> sqlite_deviceTrafficTotals (qr_totals q) (qr_ok q) (qr_clk q 0) 24 limit st
      | None \<Rightarrow> [])"

definition deviceTraffic24hJson :: "WebServer \<Rightarrow> query_run \<Rightarrow> u64 \<Rightarrow> string" where
  "deviceTraffic24hJson ws q limit = object_text
     [(''source'', jsonQuote (if sqlite_available ws then ''sqlite'' else ''unavailable'')), (''window_hours'', ''24''),
      (''items'', array_text (map deviceTrafficTotalJson (if sqlite_available ws then totals_list ws q limit else [])))]"

section \<open>Routes\<close>

definition limit_param :: "Request \<Rightarrow> u64 \<Rightarrow> u64 \<Rightarrow> u64" where
  "limit_param request fallback cap = min (parseUint64 (queryParam request ''limit'') fallback) cap"

definition routeHttp :: "WebServer \<Rightarrow> (string \<Rightarrow> string option) \<Rightarrow> query_run \<Rightarrow> Request \<Rightarrow> string" where
  "routeHttp ws read_file q request =
     (let config = wb_config ws; path = rq_path request
      in if rq_method request \<noteq> ''GET''
         then sendResponse 405 ''Method Not Allowed'' ''application/json'' (error_body ''method_not_allowed'')
         else if prefix ''/api/'' path \<and> \<not> authorized config request then sendUnauthorized
         else if path = ''/api/health'' then sendJson (healthJson ws q)
         else if path = ''/api/summary'' then sendJson (summaryJson ws q)
         else if path = ''/api/integrations'' then sendJson (integrationsJson ws q)
         else if path = ''/api/devices'' then sendJson (devicesJson ws q request (limit_param request 1000 5000))
         else if path = ''/api/events'' then sendJson (eventsJson ws q request (limit_param request 100 1000))
         else if path = ''/api/wan-attacks'' then sendJson (wanAttacksJson ws q request (limit_param request 100 1000))
         else if path = ''/api/traffic-history'' then sendJson (trafficHistoryJson ws q request (limit_param request 180 720))
         else if path = ''/api/device-traffic-24h'' then sendJson (deviceTraffic24hJson ws q (limit_param request 50 500))
         else if path = prometheus_path config
         then if \<not> prometheus_enabled config then sendNotFound
              else if \<not> authorized config request then sendUnauthorized
              else sendPrometheus (renderPrometheusMetrics config (wb_state ws) (wb_stats ws) (wb_started_at ws) (qr_steady q)
                     (qr_clk q 0) (qr_clk q 1))
         else if path = ''/grafana/dashboard.json'' \<or> path = ''/grafana/openwrt-netmon-lite-dashboard.json''
         then let body = grafanaDashboardJson read_file
              in if body = [] then sendNotFound else sendResponse 200 ''OK'' ''application/json; charset=utf-8'' body
         else if path = ''/'' \<or> path = ''/index.html'' \<or> path = ''/app.js'' \<or> path = ''/style.css''
         then let (body, content_type) = readStaticFile config read_file (if path = ''/'' then ''/index.html'' else path)
              in if body = [] then sendNotFound else sendResponse 200 ''OK'' content_type body
         else sendNotFound)"

section \<open>Sending\<close>

text \<open>
  The results of \<^verbatim>\<open>send\<close>: so many bytes, at most those offered, or a failure, with or without \<^verbatim>\<open>EINTR\<close>. The
  result of the loop is what was sent and whether it was all; \<open>None\<close> when it still waits.
\<close>

datatype send_result = Sent nat | Interrupted | SendFailed

fun sendAll :: "string \<Rightarrow> send_result list \<Rightarrow> string \<times> bool option" where
  "sendAll [] rs = ([], Some True)"
| "sendAll data [] = ([], None)"
| "sendAll data (Sent n # rs) =
     (if n = 0 then ([], Some False) else apfst ((@) (take n data)) (sendAll (drop n data) rs))"
| "sendAll data (Interrupted # rs) = sendAll data rs"
| "sendAll data (SendFailed # rs) = ([], Some False)"

section \<open>Clients\<close>

definition switching_protocols :: "string \<Rightarrow> string" where
  "switching_protocols key =
     ''HTTP/1.1 101 Switching Protocols'' @ crlf @ ''Upgrade: websocket'' @ crlf @ ''Connection: Upgrade'' @ crlf @
     ''Sec-WebSocket-Accept: '' @ websocketAcceptKey key @ crlf @ crlf"

text \<open>
  What becomes of a connection: closed without an answer, answered and closed, or turned into a WebSocket,
  which goes on to \<open>ws_open\<close> below.
\<close>

datatype client_result = Dropped | Answered string | Upgraded string

definition handshake :: "Config \<Rightarrow> Request \<Rightarrow> client_result" where
  "handshake config request =
     (if \<not> authorized config request then Answered sendUnauthorized
      else let upgrade = lower (headerValue (rq_headers request) ''upgrade'');
               key = headerValue (rq_headers request) ''sec-websocket-key''
           in if upgrade \<noteq> ''websocket'' \<or> key = []
              then Answered (sendResponse 400 ''Bad Request'' ''application/json'' (error_body ''websocket_required''))
              else Upgraded (switching_protocols key))"

definition handleClient :: "WebServer \<Rightarrow> (string \<Rightarrow> string option) \<Rightarrow> query_run \<Rightarrow> string list \<Rightarrow> client_result" where
  "handleClient ws read_file q chunks =
     (case receive_request [] chunks of
        None \<Rightarrow> Dropped
      | Some raw \<Rightarrow>
          (case parseRequest raw of
             None \<Rightarrow> Answered (sendResponse 400 ''Bad Request'' ''application/json'' (error_body ''bad_request''))
           | Some request \<Rightarrow>
               if rq_path request = ''/ws'' then handshake (wb_config ws) request
               else Answered (routeHttp ws read_file q request)))"

section \<open>WebSocket clients\<close>

text \<open>The registry, in ascending order as in \<^verbatim>\<open>std::set\<close>, and what was done with sockets so far.\<close>

datatype fd_event = Frame int string | Closed int

record Sockets =
  so_clients :: "int list"
  so_events :: "fd_event list"

definition addWebSocketClient :: "int \<Rightarrow> Sockets \<Rightarrow> Sockets" where
  "addWebSocketClient fd s = s\<lparr>so_clients := insort_insert fd (so_clients s)\<rparr>"

definition removeWebSocketClient :: "int \<Rightarrow> Sockets \<Rightarrow> Sockets" where
  "removeWebSocketClient fd s = s\<lparr>so_clients := remove1 fd (so_clients s)\<rparr>"

definition fd_log :: "fd_event list \<Rightarrow> Sockets \<Rightarrow> Sockets" where
  "fd_log es s = s\<lparr>so_events := so_events s @ es\<rparr>"

text \<open>The part of \<^verbatim>\<open>handleWebSocket\<close> after a handshake that was sent, and its end when the receiving loop is left.\<close>

definition ws_open :: "int \<Rightarrow> Sockets \<Rightarrow> Sockets" where
  "ws_open fd s =
     fd_log [Frame fd (ws_frame (object_text [(''type'', jsonQuote ''connected''), (''payload'', object_text [])]))]
       (addWebSocketClient fd s)"

datatype ws_recv = RecvData | RecvClosed | RecvRetry | RecvFailed

text \<open>The receiving loop over the values of \<^verbatim>\<open>running_\<close> and of \<^verbatim>\<open>recv\<close>: whether it has ended.\<close>

fun ws_receive :: "(bool \<times> ws_recv) list \<Rightarrow> bool" where
  "ws_receive [] = False"
| "ws_receive ((running, r) # rs) =
     (if \<not> running then True
      else case r of RecvClosed \<Rightarrow> True | RecvFailed \<Rightarrow> True | RecvRetry \<Rightarrow> ws_receive rs | RecvData \<Rightarrow> ws_receive rs)"

definition ws_end :: "int \<Rightarrow> Sockets \<Rightarrow> Sockets" where
  "ws_end fd s = fd_log [Closed fd] (removeWebSocketClient fd s)"

definition broadcast :: "(int \<Rightarrow> bool) \<Rightarrow> string \<Rightarrow> Sockets \<Rightarrow> Sockets" where
  "broadcast send_ok message s =
     (let failed = filter (\<lambda>fd. \<not> send_ok fd) (so_clients s);
          s1 = fd_log (map (\<lambda>fd. Frame fd (ws_frame message)) (so_clients s)) s
      in fold (\<lambda>fd s. removeWebSocketClient fd (fd_log [Closed fd] s)) failed s1)"

definition stop_clients :: "Sockets \<Rightarrow> Sockets" where
  "stop_clients s = (fd_log (map Closed (so_clients s)) s)\<lparr>so_clients := []\<rparr>"

end
