(* ===== verification/Prometheus_Properties.thy ===== *)
theory Prometheus_Properties
  imports Prometheus_Exporter
begin

text \<open>
  A reader for the exposition format, what the metrics page says when it is read, and what the device labels reveal.
\<close>

section \<open>Reading the page\<close>

text \<open>The lines of the format, with the labels as they are meant, and the text of such a line.\<close>

datatype metric = Comment string | Sample string "(string \<times> string) list" string

fun metric_line :: "metric \<Rightarrow> string" where
  "metric_line (Comment c) = ''# '' @ c"
| "metric_line (Sample name ls val) = name @ labels_text (map (apsnd labelEscape) ls) @ '' '' @ val"

fun label_dec :: "string \<Rightarrow> (char \<times> string) option" where
  "label_dec [] = None"
| "label_dec (c # s) =
     (if c \<noteq> backslash then Some (c, s)
      else case s of
             [] \<Rightarrow> None
           | e # t \<Rightarrow> if e = backslash \<or> e = dquote then Some (e, t) else if e = CHR ''n'' then Some (CHR 0x0A, t) else None)"

interpretation label: escaping label_escape_char label_dec dquote
  by unfold_locales (auto simp: label_escape_char_def)

text \<open>The labels up to the closing brace; the fuel bounds their number.\<close>

fun read_labels :: "nat \<Rightarrow> string \<Rightarrow> ((string \<times> string) list \<times> string) option" where
  "read_labels 0 s = None"
| "read_labels (Suc n) s =
     (let key = takeWhile (\<lambda>c. c \<noteq> CHR ''='') s; rest = dropWhile (\<lambda>c. c \<noteq> CHR ''='') s
      in if \<not> prefix [CHR ''='', dquote] rest then None
         else case read_until (length rest) label_dec dquote (drop 2 rest) of
                None \<Rightarrow> None
              | Some (val, t) \<Rightarrow>
                  if prefix '','' t then map_option (apfst (Cons (key, val))) (read_labels n (drop 1 t))
                  else if prefix ''}'' t then Some ([(key, val)], drop 1 t) else None)"

definition read_metric :: "string \<Rightarrow> metric option" where
  "read_metric line =
     (if prefix ''# '' line then Some (Comment (drop 2 line))
      else let name = takeWhile (\<lambda>c. c \<noteq> CHR '' '' \<and> c \<noteq> CHR ''{'') line;
               rest = dropWhile (\<lambda>c. c \<noteq> CHR '' '' \<and> c \<noteq> CHR ''{'') line
           in case rest of
                [] \<Rightarrow> None
              | c # t \<Rightarrow>
                  if c = CHR '' '' then Some (Sample name [] t)
                  else case read_labels (length t) t of
                         Some (ls, u) \<Rightarrow> if prefix '' '' u then Some (Sample name ls (drop 1 u)) else None
                       | None \<Rightarrow> None)"

fun metric_ok :: "metric \<Rightarrow> bool" where
  "metric_ok (Comment c) = (CHR 0x0A \<notin> set c)"
| "metric_ok (Sample name ls val) =
     (name \<noteq> [] \<and> hd name \<noteq> CHR ''#'' \<and> CHR '' '' \<notin> set name \<and> CHR ''{'' \<notin> set name \<and> CHR 0x0A \<notin> set name \<and>
      CHR 0x0A \<notin> set val \<and> list_all (\<lambda>(k, v). CHR ''='' \<notin> set k \<and> CHR 0x0A \<notin> set k) ls)"

lemma take_drop_while_stop:
  "(\<And>x. x \<in> set xs \<Longrightarrow> P x) \<Longrightarrow> \<not> P y \<Longrightarrow> takeWhile P (xs @ y # ys) = xs \<and> dropWhile P (xs @ y # ys) = y # ys"
  by (simp add: takeWhile_append2 dropWhile_append2)

lemma length_labelEscape: "length v \<le> length (labelEscape v)"
proof (induction v)
  case (Cons c v)
  have "label_escape_char c \<noteq> []" by (rule label.enc_nonempty)
  then have "1 \<le> length (label_escape_char c)" by (cases "label_escape_char c") simp_all
  with Cons show ?case by (simp add: labelEscape_def)
qed (simp add: labelEscape_def)

lemma read_label_value:
  "length (labelEscape v) + 2 \<le> n \<Longrightarrow> read_until n label_dec dquote (labelEscape v @ dquote # rest) = Some (v, rest)"
  unfolding labelEscape_def using length_labelEscape [of v] by (intro label.read_until_encoded) (simp add: labelEscape_def)

lemma read_labels_text:
  assumes "ls \<noteq> []" "list_all (\<lambda>(k, v). CHR ''='' \<notin> set k) ls" "length ls \<le> n"
  shows "read_labels n (separated (map label_text (map (apsnd labelEscape) ls)) @ ''}'' @ rest) = Some (ls, rest)"
  using assms
proof (induction ls arbitrary: n)
  case (Cons l ls)
  obtain k v where l: "l = (k, v)" by (cases l)
  obtain m where n: "n = Suc m" using Cons.prems(3) by (cases n) auto
  define tail where "tail = (if ls = [] then ''}'' @ rest
    else CHR '','' # separated (map label_text (map (apsnd labelEscape) ls)) @ ''}'' @ rest)"
  have s: "separated (map label_text (map (apsnd labelEscape) (l # ls))) @ ''}'' @ rest
      = k @ CHR ''='' # dquote # labelEscape v @ dquote # tail"
    by (cases ls) (simp_all add: l label_text_def tail_def)
  have k: "takeWhile (\<lambda>c. c \<noteq> CHR ''='') (k @ CHR ''='' # t) = k" "dropWhile (\<lambda>c. c \<noteq> CHR ''='') (k @ CHR ''='' # t) = CHR ''='' # t" for t
  proof -
    have "x \<noteq> CHR ''=''" if "x \<in> set k" for x using that Cons.prems(2) by (auto simp: l)
    from take_drop_while_stop [of k "\<lambda>c. c \<noteq> CHR ''=''" "CHR ''=''" t, OF this]
    show "takeWhile (\<lambda>c. c \<noteq> CHR ''='') (k @ CHR ''='' # t) = k"
      "dropWhile (\<lambda>c. c \<noteq> CHR ''='') (k @ CHR ''='' # t) = CHR ''='' # t" by simp_all
  qed
  have ru: "read_until (length (CHR ''='' # dquote # labelEscape v @ dquote # tail)) label_dec dquote (labelEscape v @ dquote # tail) = Some (v, tail)"
    by (rule read_label_value) simp
  have "read_labels n (k @ CHR ''='' # dquote # labelEscape v @ dquote # tail) =
      (if prefix '','' tail then map_option (apfst (Cons (k, v))) (read_labels m (drop 1 tail))
       else if prefix ''}'' tail then Some ([(k, v)], drop 1 tail) else None)"
    unfolding n read_labels.simps Let_def k using ru by (simp del: read_until.simps)
  moreover have "ls \<noteq> [] \<Longrightarrow> read_labels m (separated (map label_text (map (apsnd labelEscape) ls)) @ ''}'' @ rest) = Some (ls, rest)"
    using Cons n by simp
  ultimately show ?case unfolding s by (cases "ls = []") (simp_all add: tail_def l)
qed simp

lemma read_metric_line: "metric_ok m \<Longrightarrow> read_metric (metric_line m) = Some m"
proof (cases m)
  case (Sample name ls val)
  assume ok: "metric_ok m"
  have hash: "\<not> prefix ''# '' (name @ t)" for t using ok by (cases name) (auto simp: Sample)
  have cut: "takeWhile (\<lambda>c. c \<noteq> CHR '' '' \<and> c \<noteq> CHR ''{'') (name @ y # t) = name \<and>
      dropWhile (\<lambda>c. c \<noteq> CHR '' '' \<and> c \<noteq> CHR ''{'') (name @ y # t) = y # t" if "y = CHR '' '' \<or> y = CHR ''{''" for y t
    using ok that by (intro take_drop_while_stop) (auto simp: Sample)
  have lab: "read_labels n (separated (map label_text (map (apsnd labelEscape) ls)) @ ''}'' @ '' '' @ val) = Some (ls, '' '' @ val)"
    if "ls \<noteq> []" "length ls \<le> n" for n
    using that ok by (intro read_labels_text) (auto simp: Sample list_all_iff)
  have len: "length ls \<le> length (separated (map label_text (map (apsnd labelEscape) ls)) @ x)" for x
    by (induction ls rule: induct_list012) (auto simp: label_text_def)
  show ?thesis
  proof (cases "ls = []")
    case True
    then show ?thesis
      using hash cut [of "CHR '' ''" val] by (simp add: Sample labels_text_def read_metric_def)
  next
    case False
    define t where "t = separated (map label_text (map (apsnd labelEscape) ls)) @ ''}'' @ '' '' @ val"
    have line: "metric_line m = name @ CHR ''{'' # t" using False by (simp add: Sample labels_text_def t_def)
    have "read_labels (length t) t = Some (ls, '' '' @ val)" unfolding t_def by (rule lab [OF False len])
    then show ?thesis
      using hash [of "CHR ''{'' # t"] cut [of "CHR ''{''" t] unfolding line by (simp add: read_metric_def Sample)
  qed
qed (simp add: read_metric_def)

lemma label_escape_no_newline: "CHR 0x0A \<notin> set (labelEscape v)"
  by (auto simp: labelEscape_def label_escape_char_def)

lemma separated_no_newline: "(\<And>x. x \<in> set xs \<Longrightarrow> CHR 0x0A \<notin> set x) \<Longrightarrow> CHR 0x0A \<notin> set (separated xs)"
  by (induction xs rule: separated.induct) auto

lemma metric_line_no_newline: "metric_ok m \<Longrightarrow> CHR 0x0A \<notin> set (metric_line m)"
proof (cases m)
  case (Sample name ls val)
  assume ok: "metric_ok m"
  have "CHR 0x0A \<notin> set (separated (map label_text (map (apsnd labelEscape) ls)))"
    using ok label_escape_no_newline by (intro separated_no_newline) (auto simp: Sample label_text_def list_all_iff)
  then show ?thesis using ok by (simp add: Sample labels_text_def)
qed simp

lemma getlines_lines:
  assumes "list_all (\<lambda>l. CHR 0x0A \<notin> set l) ls"
  shows "getlines (concat (map (\<lambda>l. l @ [CHR 0x0A]) ls)) = ls"
proof -
  have "concat (map (\<lambda>l. l @ [CHR 0x0A]) ls) = join_with (CHR 0x0A) (ls @ [[]])"
    by (induction ls rule: induct_list012) auto
  then have "split (concat (map (\<lambda>l. l @ [CHR 0x0A]) ls)) (CHR 0x0A) = ls @ [[]]"
    using assms by (simp only:) (rule split_join, auto simp: list_all_iff)
  then show ?thesis by (simp add: getlines_def)
qed

section \<open>The metrics on the page\<close>

definition described :: "string \<Rightarrow> string \<Rightarrow> string \<Rightarrow> metric list" where
  "described name help type = [Comment (''HELP '' @ name @ '' '' @ help), Comment (''TYPE '' @ name @ '' '' @ type)]"

definition device_metric :: "Config \<Rightarrow> string \<Rightarrow> (DeviceState \<Rightarrow> double) \<Rightarrow> DeviceState \<Rightarrow> metric" where
  "device_metric config name rate d =
     Sample name [(''device'', deviceLabel config d), (''status'', toString_status (dv_status d))] (show_fixed 3 (rate d))"

text \<open>What the page says, as a list of metrics with their labels as they are.\<close>

definition metrics :: "Config \<Rightarrow> StateStore \<Rightarrow> RuntimeStats \<Rightarrow> time \<Rightarrow> time \<Rightarrow> time \<Rightarrow> time \<Rightarrow> metric list" where
  "metrics config state stats started_at steady now now2 =
     (let summ = summary now state; runtime = snapshot stats
      in described ''openwrt_netmon_up'' ''Whether the netmon service is running.'' ''gauge'' @
         [Sample ''openwrt_netmon_up'' [] ''1''] @
         described ''openwrt_netmon_uptime_seconds'' ''Netmon service uptime in seconds.'' ''counter'' @
         [Sample ''openwrt_netmon_uptime_seconds'' [] (show_int (to_time_t (tdiff steady started_at)))] @
         described ''openwrt_netmon_syslog_messages_total'' ''Syslog messages received by parsed type.'' ''counter'' @
         map (\<lambda>(type, n). Sample ''openwrt_netmon_syslog_messages_total'' [(''type'', type)] (show_nat (unat n)))
           ((''all'', sn_syslog_messages_total runtime) # sn_syslog_messages_by_type runtime) @
         described ''openwrt_netmon_parse_errors_total'' ''Syslog messages that could not be parsed into a known event.'' ''counter'' @
         [Sample ''openwrt_netmon_parse_errors_total'' [] (show_nat (unat (sn_parse_errors_total runtime)))] @
         described ''openwrt_netmon_devices'' ''Number of devices by current status.'' ''gauge'' @
         map (\<lambda>(st, n). Sample ''openwrt_netmon_devices'' [(''status'', st)] (show_nat n))
           [(''online'', sm_active_devices summ), (''idle'', sm_idle_devices summ), (''offline'', sm_offline_devices summ),
            (''unknown'', sm_unknown_devices summ)] @
         described ''openwrt_netmon_rx_rate_bps'' ''Current aggregate receive rate in bits per second.'' ''gauge'' @
         [Sample ''openwrt_netmon_rx_rate_bps'' [] (show_fixed 3 (sm_rx_rate_bps summ))] @
         described ''openwrt_netmon_tx_rate_bps'' ''Current aggregate transmit rate in bits per second.'' ''gauge'' @
         [Sample ''openwrt_netmon_tx_rate_bps'' [] (show_fixed 3 (sm_tx_rate_bps summ))] @
         described ''openwrt_netmon_wan_attacks_total'' ''WAN attack or firewall drop events observed.'' ''counter'' @
         [Sample ''openwrt_netmon_wan_attacks_total'' [] (show_nat (unat (sn_wan_attacks_total runtime)))] @
         described ''openwrt_netmon_wan_attacks_5m'' ''WAN attack or firewall drop events in the last five minutes.'' ''gauge'' @
         [Sample ''openwrt_netmon_wan_attacks_5m'' [] (show_nat (sm_wan_attack_5m summ))] @
         described ''openwrt_netmon_event_buffer_size'' ''Current in-memory event buffer size.'' ''gauge'' @
         [Sample ''openwrt_netmon_event_buffer_size'' [] (show_nat (eventBufferSize state))] @
         (if prometheus_include_device_labels config
          then described ''openwrt_netmon_device_rx_rate_bps'' ''Current per-device receive rate in bits per second.'' ''gauge'' @
               map (device_metric config ''openwrt_netmon_device_rx_rate_bps'' dv_rx_rate_bps) (devices now2 state) @
               described ''openwrt_netmon_device_tx_rate_bps'' ''Current per-device transmit rate in bits per second.'' ''gauge'' @
               map (device_metric config ''openwrt_netmon_device_tx_rate_bps'' dv_tx_rate_bps) (devices now2 state)
          else []))"

definition page :: "metric list \<Rightarrow> string" where
  "page ms = concat (map (\<lambda>m. metric_line m @ [CHR 0x0A]) ms)"

lemma page_append: "page (xs @ ys) = page xs @ page ys"
  by (simp add: page_def)

lemma page_described: "page (described name help type) = appendHelpType name help type"
  by (simp add: page_def described_def appendHelpType_def)

lemma page_sample: "page [Sample name ls val] = sample_line name (map (apsnd labelEscape) ls) val"
  by (simp add: page_def sample_line_def)

lemma labelEscape_fixed:
  "labelEscape ''all'' = ''all''" "labelEscape ''online'' = ''online''" "labelEscape ''idle'' = ''idle''"
  "labelEscape ''offline'' = ''offline''" "labelEscape ''unknown'' = ''unknown''"
  by code_simp+

lemma page_types:
  "page (map (\<lambda>(type, n). Sample name [(k, type)] (f n)) ts) = concat (map (\<lambda>(type, n). sample_line name [(k, labelEscape type)] (f n)) ts)"
  by (induction ts) (auto simp: page_def sample_line_def)

lemma page_devices: "page (map (device_metric config name rate) ds) = concat (map (device_line config name rate) ds)"
  by (induction ds) (simp_all add: page_def device_metric_def device_line_def sample_line_def)

lemma page_Nil: "page [] = []"
  by (simp add: page_def)

lemma page_if: "page (if b then xs else ys) = (if b then page xs else page ys)"
  by simp

lemma render_page:
  "renderPrometheusMetrics config state stats started_at steady now now2 = page (metrics config state stats started_at steady now now2)"
  unfolding renderPrometheusMetrics_def metrics_def Let_def
  by (simp only: page_append page_described page_sample page_types page_devices page_Nil page_if)
    (simp only: list.map concat.simps apsnd_conv append.assoc append_Nil append_Nil2 prod.case labelEscape_fixed)

lemma described_ok: "CHR 0x0A \<notin> set (name @ help @ type) \<Longrightarrow> list_all metric_ok (described name help type)"
  by (simp add: described_def)

lemma digits_no_newline: "list_all number_char s \<Longrightarrow> CHR 0x0A \<notin> set s"
  by (auto simp: list_all_iff number_char_def isdigit_def)

lemma number_no_newline: "json_number s \<Longrightarrow> CHR 0x0A \<notin> set s"
  using json_number_chars digits_no_newline by blast

lemma show_fixed_no_newline: "CHR 0x0A \<notin> set (show_fixed p x)"
proof -
  have "CHR 0x0A \<notin> set (show_nat n)" for n by (rule number_no_newline [OF json_number_show_nat])
  then show ?thesis by (auto simp: show_fixed_def Let_def dest!: in_set_takeD in_set_dropD)
qed

lemmas no_newline = number_no_newline [OF json_number_show_nat] number_no_newline [OF json_number_show_int] show_fixed_no_newline

lemma device_metric_ok:
  "name \<noteq> [] \<Longrightarrow> hd name \<noteq> CHR ''#'' \<Longrightarrow> CHR '' '' \<notin> set name \<Longrightarrow> CHR ''{'' \<notin> set name \<Longrightarrow> CHR 0x0A \<notin> set name \<Longrightarrow>
   metric_ok (device_metric config name rate d)"
  by (simp add: device_metric_def no_newline)

lemma metrics_ok: "list_all metric_ok (metrics config state stats started_at steady now now2)"
  unfolding metrics_def Let_def
  by (simp add: described_def no_newline list.pred_map comp_def split_beta device_metric_ok) (simp add: list_all_iff)

text \<open>
  C16: The metrics page is well formed whatever the log lines contained: split into lines and read with the
  rules of the exposition format, it is exactly the list of metrics that the exporter means to publish, with
  every label value unescaped to the original text, so that no type or device name can add a line, a label or
  a metric of its own.
\<close>

theorem prometheus_read_back:
  "map read_metric (getlines (renderPrometheusMetrics config state stats started_at steady now now2)) =
   map Some (metrics config state stats started_at steady now now2)"
proof -
  let ?ms = "metrics config state stats started_at steady now now2"
  have "renderPrometheusMetrics config state stats started_at steady now now2
      = concat (map (\<lambda>l. l @ [CHR 0x0A]) (map metric_line ?ms))"
    unfolding render_page by (simp add: page_def comp_def)
  moreover have "list_all (\<lambda>l. CHR 0x0A \<notin> set l) (map metric_line ?ms)"
    using metrics_ok metric_line_no_newline by (fastforce simp: list_all_iff)
  ultimately have "getlines (renderPrometheusMetrics config state stats started_at steady now now2) = map metric_line ?ms"
    by (simp only: getlines_lines)
  then show ?thesis
    using metrics_ok read_metric_line by (fastforce simp: list_all_iff)
qed

section \<open>Device labels\<close>

lemma hex_digit_chars: "n < 16 \<Longrightarrow> hex_digit n \<in> set ''0123456789abcdef''"
proof -
  have "\<forall>n\<in>set [0..<16]. hex_digit n \<in> set ''0123456789abcdef''" by code_simp
  then show "n < 16 \<Longrightarrow> hex_digit n \<in> set ''0123456789abcdef''" by simp
qed

text \<open>
  Unless the configuration asks for raw MAC addresses, the label of a device is \<^verbatim>\<open>unknown\<close> or sixteen
  hexadecimal digits, and it depends on nothing but the MAC address, or the IP address of a device without
  one: no address or host name appears on the page.
\<close>

theorem device_label_hashed:
  assumes "prometheus_device_label_mode config \<noteq> ''raw_mac''"
  shows "(deviceLabel config d = ''unknown'' \<or>
            length (deviceLabel config d) = 16 \<and> set (deviceLabel config d) \<subseteq> set ''0123456789abcdef'') \<and>
         (dv_mac d = dv_mac d' \<and> (dv_mac d = [] \<longrightarrow> dv_ip d = dv_ip d') \<longrightarrow> deviceLabel config d = deviceLabel config d')"
proof -
  have "length (fnv1aHex s) = 16" for s by (simp add: fnv1aHex_def hex16_def)
  moreover have "set (fnv1aHex s) \<subseteq> set ''0123456789abcdef''" for s
    unfolding fnv1aHex_def hex16_def set_map by (rule image_subsetI) (rule hex_digit_chars, simp)
  ultimately show ?thesis using assms by (simp add: deviceLabel_def Let_def)
qed

theorem device_label_hashed_witness:
  "deviceLabel default_config \<lparr>dv_mac = ''aa'', dv_ip = ''1'', dv_hostname = [], dv_interface_name = [], dv_source = [],
     dv_neigh_state = [], dv_status = Online, dv_first_seen = 0, dv_last_seen = 0, dv_last_dhcp = 0, dv_last_traffic = 0, dv_last_rate = 0,
     dv_rx_bytes_total = 0, dv_tx_bytes_total = 0, dv_rx_rate_bps = 0, dv_tx_rate_bps = 0, dv_tags = []\<rparr> =
   deviceLabel default_config \<lparr>dv_mac = ''aa'', dv_ip = ''2'', dv_hostname = ''pc'', dv_interface_name = [], dv_source = [],
     dv_neigh_state = [], dv_status = Idle, dv_first_seen = 0, dv_last_seen = 0, dv_last_dhcp = 0, dv_last_traffic = 0, dv_last_rate = 0,
     dv_rx_bytes_total = 0, dv_tx_bytes_total = 0, dv_rx_rate_bps = 0, dv_tx_rate_bps = 0, dv_tags = []\<rparr>"
  by (rule device_label_hashed [THEN conjunct2, THEN mp]) (simp_all add: default_config_def)

text \<open>FNV-1a as its authors define it: the same step from the offset basis \<^verbatim>\<open>14695981039346656037\<close>.\<close>

definition fnv1a_reference :: "string \<Rightarrow> u64" where
  "fnv1a_reference s = foldl (\<lambda>h c. (h XOR of_nat (code c)) * 0x100000001b3) 0xcbf29ce484222325 s"

lemma fnv_step_inj: "fnv_step a c = fnv_step b c \<longleftrightarrow> a = b"
proof
  assume "fnv_step a c = fnv_step b c"
  then have "(a XOR of_nat (code c)) * 1099511628211 * 14886173955864302971 = (b XOR of_nat (code c)) * 1099511628211 * 14886173955864302971"
    by (simp add: fnv_step_def)
  then have "(a XOR of_nat (code c)) * (1099511628211 * 14886173955864302971) = (b XOR of_nat (code c)) * (1099511628211 * 14886173955864302971)"
    by (simp only: mult.assoc)
  moreover have "(1099511628211 * 14886173955864302971 :: u64) = 1" by simp
  ultimately have "a XOR of_nat (code c) = b XOR of_nat (code c)" by (simp only: mult_1_right)
  then have "(a XOR of_nat (code c)) XOR of_nat (code c) = (b XOR of_nat (code c)) XOR of_nat (code c)" by simp
  then show "a = b" by (simp add: xor.assoc)
qed simp

lemma fnv_fold_inj: "foldl fnv_step a s = foldl fnv_step b s \<longleftrightarrow> a = b"
  by (induction s arbitrary: a b) (simp_all add: fnv_step_inj)

text \<open>
  The hash behind the labels is not the one its name promises: its start value is the offset basis of
  FNV-1a without the last digit, and since every step is injective its value differs from the FNV-1a hash on
  every input.
\<close>

theorem fnv1a_never_standard: "foldl fnv_step 1469598103934665603 s \<noteq> fnv1a_reference s"
proof -
  have "fnv1a_reference s = foldl fnv_step 14695981039346656037 s"
    by (simp add: fnv1a_reference_def fnv_step_def [abs_def])
  then show ?thesis by (simp add: fnv_fold_inj)
qed

end
