(* ===== verification/Web_Properties.thy ===== *)
theory Web_Properties
  imports Web_Server Prometheus_Properties Sqlite_Queries
begin

text \<open>
  What the HTTP interface guarantees: requests without the token learn nothing, only the files of the dashboard are
  read, and every document of the interface is the JSON text of a specified value.
\<close>

section \<open>Authorization\<close>

text \<open>
  C5: Who is not authorized learns nothing: two servers with the same configuration give the same answer to
  every request without the token, whatever their devices, events, statistics and databases are, whenever they
  were started and whatever the clocks say; the answer depends on the configuration, the files and the
  request only. The WebSocket handshake is refused too.
\<close>

theorem unauthorized_noninterference:
  assumes "wb_config ws = wb_config ws'" "\<not> authorized (wb_config ws) request"
  shows "routeHttp ws read_file q request = routeHttp ws' read_file q' request \<and>
         handshake (wb_config ws) request = Answered sendUnauthorized"
proof
  show "handshake (wb_config ws) request = Answered sendUnauthorized"
    using assms(2) by (simp add: handshake_def)
  have "authorized (wb_config ws') request = False" using assms by simp
  then show "routeHttp ws read_file q request = routeHttp ws' read_file q' request"
    using assms(1) by (simp add: routeHttp_def Let_def)
qed

definition sample_request :: Request where
  "sample_request = \<lparr>rq_method = ''GET'', rq_target = ''/api/devices?token=no'', rq_path = ''/api/devices'', rq_query = ''token=no'', rq_headers = []\<rparr>"

definition sample_server :: WebServer where
  "sample_server = \<lparr>wb_config = default_config\<lparr>dashboard_token := ''secret''\<rparr>, wb_state = store_new default_config, wb_stats = stats_new,
     wb_sqlite = None, wb_started_at = 0, wb_version = ''0.1.0''\<rparr>"

definition sample_query :: query_run where
  "sample_query = \<lparr>qr_clk = \<lambda>_. 7, qr_steady = 9, qr_ok = True, qr_devices = \<lambda>x. x, qr_events = \<lambda>x. x, qr_attacks = \<lambda>x. x, qr_totals = \<lambda>x. x\<rparr>"

theorem unauthorized_noninterference_witness:
  "routeHttp sample_server (\<lambda>_. None) sample_query sample_request =
   routeHttp (sample_server\<lparr>wb_started_at := 5, wb_stats := recordParseError stats_new\<rparr>) (\<lambda>_. None)
     (sample_query\<lparr>qr_steady := 12\<rparr>) sample_request"
proof -
  have "\<not> authorized (wb_config sample_server) sample_request" by code_simp
  then show ?thesis
    using unauthorized_noninterference [of sample_server
        "sample_server\<lparr>wb_started_at := 5, wb_stats := recordParseError stats_new\<rparr>" sample_request]
    by simp
qed

section \<open>Files\<close>

definition served_files :: "Config \<Rightarrow> string list" where
  "served_files config =
     map (\<lambda>f. web_root config @ ''/'' @ f) [''index.html'', ''app.js'', ''style.css''] @ dashboard_candidates"

lemma first_file_cong:
  "(\<And>p. p \<in> set ps \<Longrightarrow> f p = g p) \<Longrightarrow>
   (case find (\<lambda>p. f p \<noteq> None) ps of None \<Rightarrow> [] | Some p \<Rightarrow> the (f p)) = (case find (\<lambda>p. g p \<noteq> None) ps of None \<Rightarrow> [] | Some p \<Rightarrow> the (g p))"
  by (induction ps) auto

text \<open>
  C29: The server never reads a file other than the three of the dashboard under the web root and the Grafana
  dashboard: if two file systems agree on these, no request, whatever its path, can tell them apart.
\<close>

theorem served_files_only:
  assumes "\<And>p. p \<in> set (served_files (wb_config ws)) \<Longrightarrow> read_file p = read_file' p"
  shows "handleClient ws read_file q chunks = handleClient ws read_file' q chunks"
proof -
  have "web_root (wb_config ws) @ ''/'' @ f \<in> set (served_files (wb_config ws))" if "f \<in> set [''index.html'', ''app.js'', ''style.css'']" for f
    unfolding served_files_def set_append set_map using that by (rule UnI1 [OF imageI])
  then have static: "readStaticFile (wb_config ws) read_file (CHR ''/'' # f) = readStaticFile (wb_config ws) read_file' (CHR ''/'' # f)"
    if "f \<in> set [''index.html'', ''app.js'', ''style.css'']" for f
    using that assms by (simp only: readStaticFile_def Let_def list.sel drop_Suc_Cons drop_0 One_nat_def list.distinct simp_thms if_False)
  have cand: "read_file p = read_file' p" if "p \<in> set dashboard_candidates" for p
    using that assms by (simp add: served_files_def)
  then have dash: "grafanaDashboardJson read_file = grafanaDashboardJson read_file'"
    unfolding grafanaDashboardJson_def by (rule first_file_cong)
  have "routeHttp ws read_file q r = routeHttp ws read_file' q r" for r
  proof -
    let ?p = "if rq_path r = ''/'' then ''/index.html'' else rq_path r"
    have "readStaticFile (wb_config ws) read_file ?p = readStaticFile (wb_config ws) read_file' ?p"
      if "rq_path r = ''/'' \<or> rq_path r = ''/index.html'' \<or> rq_path r = ''/app.js'' \<or> rq_path r = ''/style.css''"
      using that static [of "''index.html''"] static [of "''app.js''"] static [of "''style.css''"]
      by (elim disjE) simp_all
    then show ?thesis
      unfolding routeHttp_def Let_def dash by (intro if_cong refl) (simp only:)
  qed
  then show ?thesis by (simp add: handleClient_def split: option.splits)
qed

theorem served_files_only_witness:
  "handleClient sample_server (\<lambda>p. if p = ''/etc/passwd'' then Some ''root'' else None) sample_query
     [''GET /../../etc/passwd HTTP/1.1'' @ crlf @ crlf] =
   handleClient sample_server (\<lambda>_. None) sample_query [''GET /../../etc/passwd HTTP/1.1'' @ crlf @ crlf]"
  by (rule served_files_only)
    (auto simp: served_files_def sample_server_def default_config_def dashboard_candidates_def)

section \<open>The documents of the API\<close>

text \<open>The JSON values that the documents stand for.\<close>

abbreviation JNat :: "nat \<Rightarrow> json" where
  "JNat n \<equiv> JNumber (show_nat n)"

abbreviation JTime :: "time \<Rightarrow> json" where
  "JTime t \<equiv> JString (formatIso8601 t)"

abbreviation JDouble :: "double \<Rightarrow> json" where
  "JDouble x \<equiv> JNumber (show_double x)"

definition device_value :: "DeviceState \<Rightarrow> json" where
  "device_value d = JObject
     [(''mac'', JString (dv_mac d)), (''ip'', JString (dv_ip d)), (''hostname'', JString (dv_hostname d)),
      (''interface_name'', JString (dv_interface_name d)), (''source'', JString (dv_source d)),
      (''neigh_state'', JString (dv_neigh_state d)), (''status'', JString (toString_status (dv_status d))),
      (''first_seen'', JTime (dv_first_seen d)), (''last_seen'', JTime (dv_last_seen d)), (''last_dhcp'', JTime (dv_last_dhcp d)),
      (''last_traffic'', JTime (dv_last_traffic d)), (''last_rate'', JTime (dv_last_rate d)),
      (''rx_bytes_total'', JNat (unat (dv_rx_bytes_total d))), (''tx_bytes_total'', JNat (unat (dv_tx_bytes_total d))),
      (''rx_rate_bps'', JDouble (dv_rx_rate_bps d)), (''tx_rate_bps'', JDouble (dv_tx_rate_bps d)),
      (''tags'', JArray (map JString (dv_tags d)))]"

definition event_value :: "Event \<Rightarrow> json" where
  "event_value e = JObject
     [(''id'', JString (ev_id e)), (''ts'', JTime (ev_ts e)), (''type'', JString (ev_type e)),
      (''severity'', JString (toString_severity (ev_severity e))), (''source'', JString (ev_source e)),
      (''message'', JString (ev_message e)), (''fields'', fields_json_value (ev_fields e))]"

definition attack_value :: "WANAttackEvent \<Rightarrow> json" where
  "attack_value a = JObject
     [(''ts'', JTime (wa_ts a)), (''in_if'', JString (wa_in_if a)), (''src_ip'', JString (wa_src_ip a)),
      (''dst_ip'', JString (wa_dst_ip a)), (''src_port'', JString (wa_src_port a)), (''dst_port'', JString (wa_dst_port a)),
      (''proto'', JString (wa_proto a)), (''length'', JString (wa_length a)), (''raw'', JString (wa_raw a))]"

definition point_value :: "TrafficHistoryPoint \<Rightarrow> json" where
  "point_value p = JObject
     [(''ts'', JTime (hp_ts p)), (''rx_rate_bps'', JDouble (hp_rx_rate_bps p)), (''tx_rate_bps'', JDouble (hp_tx_rate_bps p)),
      (''samples'', JNat (hp_samples p))]"

definition total_value :: "DeviceTrafficTotal \<Rightarrow> json" where
  "total_value t = JObject
     [(''mac'', JString (tt_mac t)), (''ip'', JString (tt_ip t)), (''hostname'', JString (tt_hostname t)),
      (''first_ts'', JTime (tt_first_ts t)), (''last_ts'', JTime (tt_last_ts t)), (''rx_bytes'', JNat (unat (tt_rx_bytes t))),
      (''tx_bytes'', JNat (unat (tt_tx_bytes t))), (''total_bytes'', JNat (unat (tt_rx_bytes t + tt_tx_bytes t))),
      (''samples'', JNat (tt_samples t))]"

definition health_value :: "WebServer \<Rightarrow> query_run \<Rightarrow> json" where
  "health_value ws q = JObject
     [(''ok'', JBool True), (''uptime_seconds'', JNumber (show_int (uptime_seconds ws q))), (''version'', JString (wb_version ws))]"

definition summary_value :: "Summary \<Rightarrow> json" where
  "summary_value s = JObject
     [(''active_devices'', JNat (sm_active_devices s)), (''idle_devices'', JNat (sm_idle_devices s)),
      (''offline_devices'', JNat (sm_offline_devices s)), (''unknown_devices'', JNat (sm_unknown_devices s)),
      (''wan_attack_5m'', JNat (sm_wan_attack_5m s)), (''rx_rate_bps'', JDouble (sm_rx_rate_bps s)),
      (''tx_rate_bps'', JDouble (sm_tx_rate_bps s)), (''rate_source'', JString (sm_rate_source s)),
      (''rate_interface'', JString (sm_rate_interface s)), (''last_interface_ts'', JTime (sm_last_interface_ts s)),
      (''last_log_ts'', JTime (sm_last_log_ts s))]"

definition items_value :: "string \<Rightarrow> json list \<Rightarrow> json" where
  "items_value src items = JObject [(''source'', JString src), (''items'', JArray items)]"

definition totals_value :: "WebServer \<Rightarrow> query_run \<Rightarrow> u64 \<Rightarrow> json" where
  "totals_value ws q limit = JObject
     [(''source'', JString (if sqlite_available ws then ''sqlite'' else ''unavailable'')), (''window_hours'', JNat 24),
      (''items'', JArray (map total_value (if sqlite_available ws then totals_list ws q limit else [])))]"

definition integrations_value :: "WebServer \<Rightarrow> query_run \<Rightarrow> json" where
  "integrations_value ws q =
     (let config = wb_config ws;
          summ = summary (qr_clk q 0) (wb_state ws);
          runtime = snapshot (wb_stats ws)
      in JObject
           [(''version'', JString (wb_version ws)), (''uptime_seconds'', JNumber (show_int (uptime_seconds ws q))),
            (''storage'', JObject
              [(''mode'', JString (storage_mode config)), (''sqlite_enabled'', JBool (lower (storage_mode config) = ''sqlite'')),
               (''sqlite_available'', JBool (sqlite_available ws)), (''sqlite_path'', JString (sqlite_path config)),
               (''retention_days'', JNumber (show_int (sqlite_retention_days config))),
               (''max_db_mb'', JNumber (show_int (sqlite_max_db_mb config))),
               (''max_events'', JNat (unat (sqlite_max_events config))),
               (''max_traffic_points_per_device'', JNat (unat (sqlite_max_traffic_points_per_device config))),
               (''vacuum_on_start'', JBool (sqlite_vacuum_on_start config))]),
            (''prometheus'', JObject
              [(''enabled'', JBool (prometheus_enabled config)), (''path'', JString (prometheus_path config)),
               (''include_device_labels'', JBool (prometheus_include_device_labels config)),
               (''device_label_mode'', JString (prometheus_device_label_mode config))]),
            (''grafana'', JObject
              [(''dashboard_url'', JString ''/grafana/dashboard.json''),
               (''dashboard_file'', JString ''deployments/grafana/openwrt-netmon-lite-dashboard.json''),
               (''datasource'', JString ''Prometheus'')]),
            (''data_sources'', JObject
              [(''default'', JString ''live''), (''sqlite_query_enabled'', JBool (sqlite_available ws)),
               (''realtime_source'', JString ''memory'')]),
            (''runtime'', JObject
              [(''syslog_messages_total'', JNat (unat (sn_syslog_messages_total runtime))),
               (''parse_errors_total'', JNat (unat (sn_parse_errors_total runtime))),
               (''wan_attacks_total'', JNat (unat (sn_wan_attacks_total runtime))),
               (''syslog_messages_by_type'', JObject (map (\<lambda>(key, n). (key, JNat (unat n))) (sn_syslog_messages_by_type runtime))),
               (''event_buffer_size'', JNat (eventBufferSize (wb_state ws))),
               (''wan_attack_buffer_size'', JNat (wanAttackBufferSize (wb_state ws))),
               (''active_devices'', JNat (sm_active_devices summ)), (''idle_devices'', JNat (sm_idle_devices summ)),
               (''offline_devices'', JNat (sm_offline_devices summ)), (''unknown_devices'', JNat (sm_unknown_devices summ))])])"

lemmas value_defs = device_value_def event_value_def attack_value_def point_value_def total_value_def

lemma item_texts:
  "deviceJson d = json_text (device_value d)" "eventJson e = json_text (event_value e)"
  "wanAttackJson a = json_text (attack_value a)" "trafficPointJson p = json_text (point_value p)"
  "deviceTrafficTotalJson t = json_text (total_value t)"
  by (simp_all add: value_defs deviceJson_def eventJson_def wanAttackJson_def trafficPointJson_def deviceTrafficTotalJson_def
      tagsJson_def jsonFields_def fields_json_value_def comp_def)

lemma numbers_ok [simp]: "json_number (show_nat n)" "json_number (show_int i)" "json_number (show_double x)"
  by (simp_all add: json_number_show_nat json_number_show_int json_number_show_double)

lemma items_ok:
  "json_ok (device_value d)" "json_ok (event_value e)" "json_ok (attack_value a)" "json_ok (point_value p)" "json_ok (total_value t)"
  by (simp_all add: value_defs fields_json_value_ok list_all_iff del: fields_json_value_def)

lemma items_text_value:
  assumes "\<And>x. f x = json_text (g x)"
  shows "items_text src (map f xs) = json_text (items_value src (map g xs))"
proof -
  have "f = json_text \<circ> g" using assms by auto
  then show ?thesis by (simp add: items_text_def items_value_def)
qed

lemma document_texts:
  "healthJson ws q = json_text (health_value ws q)"
  "summaryJson ws q = json_text (summary_value (summary (qr_clk q 0) (wb_state ws)))"
  "devicesJson ws q r l = json_text (items_value (sourceName ws r) (map device_value (device_list ws q r l)))"
  "eventsJson ws q r l = json_text (items_value (sourceName ws r) (map event_value (event_list ws q r l)))"
  "wanAttacksJson ws q r l = json_text (items_value (sourceName ws r) (map attack_value (attack_list ws q r l)))"
  "trafficHistoryJson ws q r l = json_text (items_value (sourceName ws r) (map point_value (history_list ws q r l)))"
proof -
  show "healthJson ws q = json_text (health_value ws q)" by (simp add: healthJson_def health_value_def bool_text_def)
  show "summaryJson ws q = json_text (summary_value (summary (qr_clk q 0) (wb_state ws)))"
    by (simp add: summaryJson_def summary_value_def Let_def)
qed (simp_all add: devicesJson_def eventsJson_def wanAttacksJson_def trafficHistoryJson_def items_text_value item_texts)

lemma totals_text: "deviceTraffic24hJson ws q l = json_text (totals_value ws q l)"
proof -
  have "show_nat 24 = ''24''" by code_simp
  moreover have "map deviceTrafficTotalJson ts = map json_text (map total_value ts)" for ts by (simp add: item_texts)
  ultimately show ?thesis by (simp add: deviceTraffic24hJson_def totals_value_def del: map_map)
qed

lemma stats_text: "statsByTypeJson ts = json_text (JObject (map (\<lambda>(key, n). (key, JNat (unat n))) ts))"
proof -
  have "map (\<lambda>(key, n). (key, show_nat (unat n))) ts
      = map (\<lambda>(k, v). (k, json_text v)) (map (\<lambda>(key, n). (key, JNat (unat n))) ts)" by (induction ts) auto
  then show ?thesis by (simp add: statsByTypeJson_def del: map_map)
qed

lemma integrations_text: "integrationsJson ws q = json_text (integrations_value ws q)"
  by (simp add: integrationsJson_def integrations_value_def Let_def stats_text)

lemma documents_ok:
  "json_ok (health_value ws q)" "json_ok (summary_value s)" "json_ok (totals_value ws q l)" "json_ok (integrations_value ws q)"
  by (simp_all add: health_value_def summary_value_def totals_value_def integrations_value_def Let_def items_ok list_all_iff split_beta)

lemma items_value_ok: "list_all json_ok items \<Longrightarrow> json_ok (items_value src items)"
  by (simp add: items_value_def)

text \<open>
  The document of a path of the interface, as a JSON value, or none for a path that is not part of it.
\<close>

definition api_document :: "WebServer \<Rightarrow> query_run \<Rightarrow> Request \<Rightarrow> json option" where
  "api_document ws q r =
     (let path = rq_path r; items = \<lambda>xs. Some (items_value (sourceName ws r) xs)
      in if path = ''/api/health'' then Some (health_value ws q)
         else if path = ''/api/summary'' then Some (summary_value (summary (qr_clk q 0) (wb_state ws)))
         else if path = ''/api/integrations'' then Some (integrations_value ws q)
         else if path = ''/api/devices'' then items (map device_value (device_list ws q r (limit_param r 1000 5000)))
         else if path = ''/api/events'' then items (map event_value (event_list ws q r (limit_param r 100 1000)))
         else if path = ''/api/wan-attacks'' then items (map attack_value (attack_list ws q r (limit_param r 100 1000)))
         else if path = ''/api/traffic-history'' then items (map point_value (history_list ws q r (limit_param r 180 720)))
         else if path = ''/api/device-traffic-24h'' then Some (totals_value ws q (limit_param r 50 500))
         else None)"

text \<open>
  C4: The interface implements its specification: every authorized GET request for a path under \<^verbatim>\<open>/api/\<close> other
  than the metrics page is answered with exactly the specified document, or with 404 when there is none, and
  the text of a document is valid JSON that reads back as that document, whatever the device names, log
  lines and numbers in it are.
\<close>

theorem api_documents:
  assumes "rq_method r = ''GET''" "prefix ''/api/'' (rq_path r)" "authorized (wb_config ws) r"
    and "rq_path r \<noteq> prometheus_path (wb_config ws)"
  shows "case api_document ws q r of
           None \<Rightarrow> routeHttp ws read_file q r = sendNotFound
         | Some j \<Rightarrow> routeHttp ws read_file q r = sendJson (json_text j) \<and> read_document (json_text j) = Some j"
proof -
  have other: "rq_path r \<notin> {''/grafana/dashboard.json'', ''/grafana/openwrt-netmon-lite-dashboard.json'', ''/'', ''/index.html'',
      ''/app.js'', ''/style.css''}" using assms(2) by auto
  have "routeHttp ws read_file q r = (case api_document ws q r of None \<Rightarrow> sendNotFound | Some j \<Rightarrow> sendJson (json_text j))"
    using assms(1,3,4) other
    by (simp add: routeHttp_def api_document_def Let_def document_texts totals_text integrations_text)
  moreover have "json_ok j" if "api_document ws q r = Some j" for j
    using that unfolding api_document_def Let_def
    by (simp split: if_splits) (auto simp: documents_ok list_all_iff items_ok intro!: items_value_ok)
  ultimately show ?thesis by (simp add: read_document_text split: option.splits)
qed

theorem api_documents_witness:
  "read_document (json_text (health_value sample_server sample_query)) = Some (health_value sample_server sample_query)"
proof -
  let ?r = "sample_request\<lparr>rq_path := ''/api/health'', rq_query := ''token=secret''\<rparr>"
  have "rq_method ?r = ''GET''" "prefix ''/api/'' (rq_path ?r)" "authorized (wb_config sample_server) ?r"
    "rq_path ?r \<noteq> prometheus_path (wb_config sample_server)"
    by code_simp+
  from api_documents [OF this, where q = sample_query] show ?thesis by (simp add: api_document_def)
qed

end
