(* ===== verification/Web_Protocol.thy ===== *)
theory Web_Protocol
  imports Web_Properties
begin

text \<open>
  The protocol level of the web server: requests survive any cutting by the network, answers are framed, sending is
  complete, and what happens to the token of the dashboard and to WebSocket clients.
\<close>

section \<open>Requests\<close>

definition header_line :: "string \<times> string \<Rightarrow> string" where
  "header_line h = fst h @ '': '' @ snd h @ [CHR 0x0D]"

definition request_lines :: "string \<Rightarrow> string \<Rightarrow> (string \<times> string) list \<Rightarrow> string list" where
  "request_lines meth target hs = (meth @ '' '' @ target @ '' HTTP/1.1'' @ [CHR 0x0D]) # map header_line hs @ [[CHR 0x0D]]"

text \<open>The text of a request as a client sends it.\<close>

definition render_request :: "string \<Rightarrow> string \<Rightarrow> (string \<times> string) list \<Rightarrow> string" where
  "render_request meth target hs = concat (map (\<lambda>l. l @ [CHR 0x0A]) (request_lines meth target hs))"

definition word_ok :: "string \<Rightarrow> bool" where
  "word_ok w \<longleftrightarrow> w \<noteq> [] \<and> list_all (\<lambda>c. \<not> isspace c) w"

definition header_ok :: "string \<times> string \<Rightarrow> bool" where
  "header_ok h \<longleftrightarrow> word_ok (fst h) \<and> CHR '':'' \<notin> set (fst h) \<and> trim (snd h) = snd h \<and> CHR 0x0A \<notin> set (snd h)"

definition request_of :: "string \<Rightarrow> string \<Rightarrow> string \<Rightarrow> (string \<times> string) list \<Rightarrow> Request" where
  "request_of meth path query hs =
     \<lparr>rq_method = meth, rq_target = path @ (if query = [] then [] else CHR ''?'' # query), rq_path = path, rq_query = query,
      rq_headers = fold (\<lambda>(k, v). dput (lower k) v) hs []\<rparr>"

lemma isspace_simps [simp]: "isspace (CHR 0x0D)" "isspace (CHR 0x0A)" "\<not> isspace (CHR ''H'')"
  by code_simp+

lemma split_at: "split (x @ d # y) d = split x d @ split y d"
proof (induction x d rule: split.induct)
  case (1 x d)
  show ?case
  proof (cases "find_char d x")
    case None
    then show ?thesis by (simp add: find_char_None split_append split_free)
  next
    case (Some i)
    note x = find_char_Some [OF Some]
    have "x @ d # y = take i x @ d # (drop (Suc i) x @ d # y)" using x by (metis append.assoc append_Cons)
    moreover have "split (take i x @ d # (drop (Suc i) x @ d # y)) d = take i x # split (drop (Suc i) x @ d # y) d"
      using x by (intro split_append) blast
    ultimately have "split (x @ d # y) d = take i x # split (drop (Suc i) x @ d # y) d" by (simp only:)
    also have "\<dots> = take i x # split (drop (Suc i) x) d @ split y d" using 1 [OF Some] by simp
    also have "\<dots> = split x d @ split y d" using Some by (simp add: split.simps [of x d])
    finally show ?thesis .
  qed
qed

lemma split_lines:
  "list_all (\<lambda>l. d \<notin> set l) ls \<Longrightarrow> split (concat (map (\<lambda>l. l @ [d]) ls) @ rest) d = ls @ split rest d"
  by (induction ls) (simp_all add: split_append)

lemma getlines_prefix:
  assumes "list_all (\<lambda>l. CHR 0x0A \<notin> set l) ls"
  shows "\<exists>rest_lines. getlines (concat (map (\<lambda>l. l @ [CHR 0x0A]) ls) @ rest) = ls @ rest_lines"
  using split_lines [OF assms, of rest] by (auto simp: getlines_def Let_def butlast_append)

lemma word_no_newline: "word_ok w \<Longrightarrow> CHR 0x0A \<notin> set w \<and> CHR 0x0D \<notin> set w"
  by (auto simp: word_ok_def list_all_iff)

lemma request_lines_ok:
  assumes "word_ok meth" "word_ok target" "list_all header_ok hs"
  shows "list_all (\<lambda>l. CHR 0x0A \<notin> set l) (request_lines meth target hs)"
  using assms word_no_newline by (auto simp: request_lines_def header_line_def header_ok_def list_all_iff)

lemma strip_cr_snoc [simp]: "strip_cr (l @ [CHR 0x0D]) = l"
  by (simp add: strip_cr_def)

lemma trim_space: "trim (CHR '' '' # v) = trim v"
  by (simp add: trim_def)

lemma trim_word: "word_ok w \<Longrightarrow> trim w = w"
proof -
  assume w: "word_ok w"
  then have "\<not> isspace (hd w)" "\<not> isspace (hd (rev w))" by (auto simp: word_ok_def list_all_iff hd_rev)
  then have "dropWhile isspace w = w" "dropWhile isspace (rev w) = rev w" by (simp_all add: dropWhile_eq_self_iff)
  then show ?thesis by (simp add: trim_def)
qed

lemma parse_headers_lines:
  "list_all header_ok hs \<Longrightarrow> parse_headers (map header_line hs @ [CHR 0x0D] # rest_lines) acc = fold (\<lambda>(k, v). dput (lower k) v) hs acc"
proof (induction hs arbitrary: acc)
  case Nil
  then show ?case by (simp add: strip_cr_def)
next
  case (Cons h hs)
  obtain k v where h: "h = (k, v)" by (cases h)
  have ok: "word_ok k" "CHR '':'' \<notin> set k" "trim v = v" using Cons.prems by (auto simp: h header_ok_def)
  have "strip_cr (header_line h) = k @ CHR '':'' # CHR '' '' # v"
    using strip_cr_snoc [of "k @ CHR '':'' # CHR '' '' # v"] by (simp add: h header_line_def)
  moreover have "find_char (CHR '':'') (k @ CHR '':'' # CHR '' '' # v) = Some (length k)"
    using ok(2) by (rule find_char_append)
  ultimately show ?case
    using Cons ok by (simp add: h trim_space trim_word)
qed

lemma read_word_ok:
  assumes "word_ok w" "rest = [] \<or> isspace (hd rest)"
  shows "read_word (w @ rest) = (w, rest)" "read_word (CHR '' '' # w @ rest) = (w, rest)"
proof -
  have "dropWhile isspace (w @ rest) = w @ rest" using assms(1) by (cases w) (auto simp: word_ok_def)
  moreover have "takeWhile (\<lambda>c. \<not> isspace c) (w @ rest) = w" "dropWhile (\<lambda>c. \<not> isspace c) (w @ rest) = rest"
    using assms by (cases rest; auto simp: word_ok_def list_all_iff takeWhile_append dropWhile_append)+
  ultimately show "read_word (w @ rest) = (w, rest)" "read_word (CHR '' '' # w @ rest) = (w, rest)"
    by (simp_all add: read_word_def)
qed

lemma parseRequest_render:
  assumes "word_ok meth" "word_ok target" "list_all header_ok hs"
    and target: "target = path @ (if query = [] then [] else CHR ''?'' # query)" "CHR ''?'' \<notin> set path"
  shows "parseRequest (render_request meth target hs @ body) = Some (request_of meth path query hs)"
proof -
  obtain rest_lines where "getlines (render_request meth target hs @ body) = request_lines meth target hs @ rest_lines"
    using getlines_prefix [OF request_lines_ok [OF assms(1-3)]] unfolding render_request_def by blast
  then have lines: "getlines (render_request meth target hs @ body) =
      ((meth @ CHR '' '' # target @ '' HTTP/1.1'') @ [CHR 0x0D]) # map header_line hs @ [CHR 0x0D] # rest_lines"
    by (simp add: request_lines_def)
  have w: "read_word (meth @ CHR '' '' # target @ '' HTTP/1.1'') = (meth, CHR '' '' # target @ '' HTTP/1.1'')"
    "read_word (CHR '' '' # target @ '' HTTP/1.1'') = (target, '' HTTP/1.1'')"
    using read_word_ok [OF assms(1)] read_word_ok [OF assms(2)] by simp_all
  have ne: "meth \<noteq> []" "target \<noteq> []" using assms(1,2) by (simp_all add: word_ok_def)
  have "parseRequest (render_request meth target hs @ body) =
      Some \<lparr>rq_method = meth, rq_target = target,
            rq_path = (case find_char (CHR ''?'') target of None \<Rightarrow> target | Some pos \<Rightarrow> take pos target),
            rq_query = (case find_char (CHR ''?'') target of None \<Rightarrow> [] | Some pos \<Rightarrow> drop (Suc pos) target),
            rq_headers = fold (\<lambda>(k, v). dput (lower k) v) hs []\<rparr>"
    unfolding parseRequest_def lines list.case strip_cr_snoc w prod.case Let_def parse_headers_lines [OF assms(3)]
    using ne by simp
  moreover have "find_char (CHR ''?'') target = (if query = [] then None else Some (length path))"
    using target by (simp add: find_char_None find_char_append)
  ultimately show ?thesis by (simp add: request_of_def target(1))
qed

text \<open>The blank line that ends a request does not come earlier.\<close>

lemma no_early_blank:
  assumes "word_ok meth" "word_ok target" "list_all header_ok hs" "strict_prefix p (render_request meth target hs)"
  shows "\<not> sublist (crlf @ crlf) p"
proof
  assume "sublist (crlf @ crlf) p"
  then obtain a b where p: "p = a @ (crlf @ crlf) @ b" by (auto simp: sublist_def)
  from assms(4) obtain c where c: "render_request meth target hs = p @ c" "c \<noteq> []" by (auto simp: strict_prefix_def prefix_def)
  define front where "front = (meth @ '' '' @ target @ '' HTTP/1.1'' @ [CHR 0x0D]) # map header_line hs"
  have eq: "p @ c = (a @ [CHR 0x0D]) @ CHR 0x0A # [CHR 0x0D] @ CHR 0x0A # (b @ c)" by (simp add: p crlf_def)
  have "split [CHR 0x0D] (CHR 0x0A) = [[CHR 0x0D]]" by (rule split_free) simp
  then have "split (p @ c) (CHR 0x0A) = split (a @ [CHR 0x0D]) (CHR 0x0A) @ [CHR 0x0D] # split (b @ c) (CHR 0x0A)"
    unfolding eq split_at by simp
  moreover have "split (p @ c) (CHR 0x0A) = request_lines meth target hs @ [[]]"
    using split_lines [OF request_lines_ok [OF assms(1-3)], of "[]"] unfolding c(1) [symmetric] render_request_def by simp
  ultimately have l: "split (a @ [CHR 0x0D]) (CHR 0x0A) @ [CHR 0x0D] # split (b @ c) (CHR 0x0A) = front @ [[CHR 0x0D], []]"
    by (simp add: request_lines_def front_def)
  have "[CHR 0x0D] \<notin> set front" by (auto simp: front_def header_line_def)
  with l have "split (b @ c) (CHR 0x0A) = [[]] \<or> split (b @ c) (CHR 0x0A) = []"
    by (auto simp: append_eq_append_conv2 Cons_eq_append_conv append_eq_Cons_conv)
  then have "b @ c = []" using join_split [of "CHR 0x0A" "b @ c"] by auto
  with c(2) show False by simp
qed

lemma receive_stop:
  "sublist (crlf @ crlf) raw \<or> 16384 \<le> length raw \<Longrightarrow> receive_request raw chunks = Some raw"
  by (subst receive_request.simps) (auto simp: contains_str_iff [unfolded contains_str_def, symmetric])

lemma receive_continue:
  "\<not> (sublist (crlf @ crlf) raw \<or> 16384 \<le> length raw) \<Longrightarrow> chunk \<noteq> [] \<Longrightarrow>
   receive_request raw (chunk # chunks) = receive_request (raw @ chunk) chunks"
  by (subst receive_request.simps) (simp add: contains_str_iff [unfolded contains_str_def, symmetric])

lemma receive_total:
  assumes "list_all (\<lambda>c. c \<noteq> [] \<and> length c \<le> 1024) chunks" "length raw < 17408"
    and "sublist (crlf @ crlf) (raw @ concat chunks) \<or> 16384 \<le> length (raw @ concat chunks)"
  shows "\<exists>out. receive_request raw chunks = Some out \<and> prefix out (raw @ concat chunks) \<and> length out < 17408 \<and>
     (sublist (crlf @ crlf) out \<or> 16384 \<le> length out)"
  using assms
proof (induction chunks arbitrary: raw)
  case Nil
  then show ?case by (simp add: receive_stop)
next
  case (Cons chunk chunks)
  show ?case
  proof (cases "sublist (crlf @ crlf) raw \<or> 16384 \<le> length raw")
    case True
    then show ?thesis using Cons.prems(2) by (simp add: receive_stop)
  next
    case False
    then have "receive_request raw (chunk # chunks) = receive_request (raw @ chunk) chunks"
      using Cons.prems(1) by (intro receive_continue) auto
    moreover have "length (raw @ chunk) < 17408" using False Cons.prems(1) by simp
    ultimately show ?thesis using Cons.IH [of "raw @ chunk"] Cons.prems by simp
  qed
qed

text \<open>
  C14: Reading a request ends: a client that goes on sending is read until the blank line or until 16384 bytes
  at the latest, and with reads of at most 1024 bytes the server never holds more than 17407 bytes of one
  request.
\<close>

theorem receive_request_ends:
  assumes "list_all (\<lambda>c. c \<noteq> [] \<and> length c \<le> 1024) chunks"
    and "sublist (crlf @ crlf) (concat chunks) \<or> 16384 \<le> length (concat chunks)"
  shows "\<exists>raw. receive_request [] chunks = Some raw \<and> prefix raw (concat chunks) \<and> length raw \<le> 17407"
  using receive_total [OF assms(1), of "[]"] assms(2) by fastforce

theorem receive_request_ends_witness:
  "\<exists>raw. receive_request [] [''GET / HTTP/1.1'' @ crlf, crlf] = Some raw \<and> prefix raw (''GET / HTTP/1.1'' @ crlf @ crlf) \<and> length raw \<le> 17407"
proof -
  have "sublist (crlf @ crlf) (''GET / HTTP/1.1'' @ crlf @ crlf)"
    unfolding sublist_def by (intro exI [of _ "''GET / HTTP/1.1''"] exI [of _ "[]"]) simp
  then show ?thesis
    using receive_request_ends [of "[''GET / HTTP/1.1'' @ crlf, crlf]"] by (simp add: crlf_def)
qed

lemma render_request_end:
  "render_request meth target hs =
     (if hs = [] then meth @ '' '' @ target @ '' HTTP/1.1''
      else concat (map (\<lambda>l. l @ [CHR 0x0A]) ((meth @ '' '' @ target @ '' HTTP/1.1'' @ [CHR 0x0D]) # map header_line (butlast hs))) @
           fst (last hs) @ '': '' @ snd (last hs)) @ crlf @ crlf"
proof (cases hs rule: rev_cases)
  case (snoc hs' h)
  then show ?thesis by (simp add: render_request_def request_lines_def header_line_def crlf_def)
qed (simp add: render_request_def request_lines_def crlf_def)

text \<open>
  C13: A request is understood however the network cuts it: if what arrives is the text of a well-formed
  request of at most 16384 bytes, in any pieces and followed by anything, the server parses exactly its
  method, path, query and headers.
\<close>

theorem request_read_back:
  assumes "word_ok meth" "word_ok target" "list_all header_ok hs"
    and "target = path @ (if query = [] then [] else CHR ''?'' # query)" "CHR ''?'' \<notin> set path"
    and "list_all (\<lambda>c. c \<noteq> [] \<and> length c \<le> 1024) chunks" "concat chunks = render_request meth target hs @ body"
    and "length (render_request meth target hs) \<le> 16384"
  shows "\<exists>raw. receive_request [] chunks = Some raw \<and> parseRequest raw = Some (request_of meth path query hs)"
proof -
  let ?r = "render_request meth target hs"
  have "sublist (crlf @ crlf) (concat chunks)"
    unfolding assms(7) render_request_end sublist_def
    by (rule exI, rule exI [of _ body], simp only: append.assoc)
  then obtain out where out: "receive_request [] chunks = Some out" "prefix out (?r @ body)"
    "sublist (crlf @ crlf) out \<or> 16384 \<le> length out"
    using receive_total [OF assms(6), of "[]"] assms(7) by auto
  have "prefix ?r out"
  proof (rule ccontr)
    assume n: "\<not> prefix ?r out"
    have "prefix ?r (?r @ body)" by simp
    with out(2) n have sp: "strict_prefix out ?r" using prefix_same_cases strict_prefix_def by blast
    have "length out < 16384" using prefix_length_less [OF sp] assms(8) by linarith
    then show False using no_early_blank [OF assms(1-3) sp] out(3) by simp
  qed
  then obtain body' where "out = ?r @ body'" by (auto simp: prefix_def)
  then show ?thesis using parseRequest_render [OF assms(1-5)] out(1) by blast
qed

theorem request_read_back_witness:
  "\<exists>raw. receive_request [] [''GET /api/devices?limit=5 HT'', ''TP/1.1'' @ crlf @ ''Host: router'' @ crlf @ crlf @ ''x''] = Some raw \<and>
     parseRequest raw = Some (request_of ''GET'' ''/api/devices'' ''limit=5'' [(''Host'', ''router'')])"
proof (rule request_read_back)
  show "word_ok ''GET''" "word_ok ''/api/devices?limit=5''" "list_all header_ok [(''Host'', ''router'')]" by code_simp+
  show "concat [''GET /api/devices?limit=5 HT'', ''TP/1.1'' @ crlf @ ''Host: router'' @ crlf @ crlf @ ''x'']
      = render_request ''GET'' ''/api/devices?limit=5'' [(''Host'', ''router'')] @ ''x''" by code_simp
  show "list_all (\<lambda>c. c \<noteq> [] \<and> length c \<le> 1024) [''GET /api/devices?limit=5 HT'', ''TP/1.1'' @ crlf @ ''Host: router'' @ crlf @ crlf @ ''x'']"
    "length (render_request ''GET'' ''/api/devices?limit=5'' [(''Host'', ''router'')]) \<le> 16384"
    by code_simp+
qed simp_all

section \<open>Responses\<close>

text \<open>A client that reads the header lines up to the blank one, and then as many bytes as the length says.\<close>

fun read_head :: "nat \<Rightarrow> string \<Rightarrow> (string list \<times> string) option" where
  "read_head 0 s = None"
| "read_head (Suc n) s =
     (case find_char (CHR 0x0A) s of
        None \<Rightarrow> None
      | Some i \<Rightarrow>
          let line = strip_cr (take i s); rest = drop (Suc i) s
          in if line = [] then Some ([], rest) else map_option (apfst (Cons line)) (read_head n rest))"

definition read_response :: "string \<Rightarrow> (string \<times> string \<times> string \<times> string) option" where
  "read_response s =
     (case read_head (length s) s of
        Some (status_line # hs, rest) \<Rightarrow>
          let headers = parse_headers hs []; n = nat_of_digits (headerValue headers ''content-length'')
          in Some (status_line, headerValue headers ''content-type'', take n rest, drop n rest)
      | _ \<Rightarrow> None)"

definition plain_line :: "string \<Rightarrow> bool" where
  "plain_line l \<longleftrightarrow> l \<noteq> [] \<and> CHR 0x0A \<notin> set l \<and> CHR 0x0D \<notin> set l"

lemma find_line_end: "CHR 0x0A \<notin> set l \<Longrightarrow> find_char (CHR 0x0A) (l @ CHR 0x0D # CHR 0x0A # rest) = Some (Suc (length l))"
  using find_char_append [of "CHR 0x0A" "l @ [CHR 0x0D]" rest] by simp

lemma read_head_lines:
  "list_all plain_line ls \<Longrightarrow> length ls < n \<Longrightarrow> read_head n (concat (map (\<lambda>l. l @ crlf) ls) @ crlf @ rest) = Some (ls, rest)"
proof (induction ls arbitrary: n)
  case Nil
  then obtain m where "n = Suc m" by (cases n) auto
  then show ?case by (simp add: crlf_def strip_cr_def)
next
  case (Cons l ls)
  then obtain m where n: "n = Suc m" "length ls < m" by (cases n) auto
  have l: "l \<noteq> []" "CHR 0x0A \<notin> set l" using Cons.prems by (auto simp: plain_line_def)
  define tail where "tail = concat (map (\<lambda>l. l @ crlf) ls) @ crlf @ rest"
  have text_eq: "concat (map (\<lambda>l. l @ crlf) (l # ls)) @ crlf @ rest = l @ CHR 0x0D # CHR 0x0A # tail"
    by (simp add: tail_def crlf_def)
  have "read_head m tail = Some (ls, rest)" using Cons.IH [of m] Cons.prems n(2) by (simp add: tail_def)
  then show ?case
    unfolding text_eq n(1) by (simp add: find_line_end l Let_def)
qed

lemma show_nat_plain: "plain_line (show_nat n)"
  using show_nat_digits [of n] by (auto simp: plain_line_def list_all_iff isdigit_def)

definition response_headers :: "string \<Rightarrow> string \<Rightarrow> (string \<times> string) list" where
  "response_headers ct len =
     [(''Content-Type'', ct), (''Content-Length'', len), (''Connection'', ''close''), (''Cache-Control'', ''no-store''),
      (''X-Content-Type-Options'', ''nosniff'')]"

lemma sendResponse_lines:
  "sendResponse st reason ct body =
     concat (map (\<lambda>l. l @ crlf) ((''HTTP/1.1 '' @ show_nat st @ '' '' @ reason) #
       map (\<lambda>(k, v). k @ '': '' @ v) (response_headers ct (show_nat (length body))))) @ crlf @ body"
  by (simp add: sendResponse_def response_headers_def)

lemma parse_plain_header:
  assumes "word_ok k" "CHR '':'' \<notin> set k" "trim v = v" "k @ '': '' @ v = l" "CHR 0x0D \<notin> set l"
  shows "parse_headers (l # ls) acc = parse_headers ls (dput (lower k) v acc)"
proof -
  have ne: "l \<noteq> []" using assms(1,4) by (auto simp: word_ok_def)
  then have "last l \<noteq> CHR 0x0D" using assms(5) last_in_set by metis
  with ne have "l \<noteq> []" "strip_cr l = l" by (simp_all add: strip_cr_def)
  moreover have "find_char (CHR '':'') (k @ CHR '':'' # CHR '' '' # v) = Some (length k)"
    using assms(2) by (rule find_char_append)
  ultimately show ?thesis using assms by (simp add: trim_space trim_word flip: assms(4))
qed

lemma parse_plain_headers:
  assumes "list_all (\<lambda>(k, v). word_ok k \<and> CHR '':'' \<notin> set k \<and> trim v = v \<and> CHR 0x0D \<notin> set (k @ '': '' @ v)) hs"
  shows "parse_headers (map (\<lambda>(k, v). k @ '': '' @ v) hs) acc = fold (\<lambda>(k, v). dput (lower k) v) hs acc"
  using assms
proof (induction hs arbitrary: acc)
  case (Cons h hs)
  obtain k v where h: "h = (k, v)" by (cases h)
  have "parse_headers ((k @ '': '' @ v) # map (\<lambda>(k, v). k @ '': '' @ v) hs) acc
      = parse_headers (map (\<lambda>(k, v). k @ '': '' @ v) hs) (dput (lower k) v acc)"
    using Cons.prems by (intro parse_plain_header) (auto simp: h)
  with Cons show ?case by (simp add: h)
qed simp

definition value_ok :: "string \<Rightarrow> bool" where
  "value_ok v \<longleftrightarrow> trim v = v \<and> CHR 0x0A \<notin> set v \<and> CHR 0x0D \<notin> set v"

lemma sendResponse_read_back:
  assumes "value_ok reason" "value_ok ct"
  shows "read_response (sendResponse st reason ct body @ rest) = Some (''HTTP/1.1 '' @ show_nat st @ '' '' @ reason, ct, body, rest)"
proof -
  define hs where "hs = response_headers ct (show_nat (length body))"
  define line where "line = ''HTTP/1.1 '' @ show_nat st @ '' '' @ reason"
  define ls where "ls = line # map (\<lambda>(k, v). k @ '': '' @ v) hs"
  have digits: "trim (show_nat n) = show_nat n" "CHR 0x0D \<notin> set (show_nat n)" "CHR 0x0A \<notin> set (show_nat n)" for n
    using trim_digits [OF show_nat_digits] show_nat_plain [of n] by (auto simp: plain_line_def)
  have text_eq: "sendResponse st reason ct body @ rest = concat (map (\<lambda>l. l @ crlf) ls) @ crlf @ body @ rest"
    by (simp add: sendResponse_lines ls_def hs_def line_def)
  have ok: "list_all (\<lambda>(k, v). word_ok k \<and> CHR '':'' \<notin> set k \<and> trim v = v \<and> CHR 0x0D \<notin> set (k @ '': '' @ v)) hs"
  proof -
    have "word_ok ''Content-Type''" "word_ok ''Content-Length''" "word_ok ''Connection''" "word_ok ''Cache-Control''"
      "word_ok ''X-Content-Type-Options''" "trim ''close'' = ''close''" "trim ''no-store'' = ''no-store''" "trim ''nosniff'' = ''nosniff''"
      by code_simp+
    then show ?thesis using assms(2) digits by (simp add: hs_def response_headers_def value_ok_def)
  qed
  have "list_all plain_line ls"
    using assms digits by (simp add: ls_def line_def hs_def response_headers_def plain_line_def value_ok_def)
  moreover have "length ls < length (sendResponse st reason ct body @ rest)"
    by (simp add: ls_def hs_def response_headers_def sendResponse_def)
  ultimately have head: "read_head (length (sendResponse st reason ct body @ rest)) (sendResponse st reason ct body @ rest) = Some (ls, body @ rest)"
    using read_head_lines [of ls "length (sendResponse st reason ct body @ rest)" "body @ rest"] by (simp only: text_eq)
  have h: "parse_headers (map (\<lambda>(k, v). k @ '': '' @ v) hs) [] = fold (\<lambda>(k, v). dput (lower k) v) hs []"
    by (rule parse_plain_headers [OF ok])
  have low: "lower ''Content-Type'' = ''content-type''" "lower ''Content-Length'' = ''content-length''" "lower ''Connection'' = ''connection''"
    "lower ''Cache-Control'' = ''cache-control''" "lower ''X-Content-Type-Options'' = ''x-content-type-options''"
    "lower ''content-type'' = ''content-type''" "lower ''content-length'' = ''content-length''"
    by code_simp+
  then have "headerValue (fold (\<lambda>(k, v). dput (lower k) v) hs []) ''content-length'' = show_nat (length body)"
    "headerValue (fold (\<lambda>(k, v). dput (lower k) v) hs []) ''content-type'' = ct"
    by (simp_all add: headerValue_def hs_def response_headers_def)
  then show ?thesis
    unfolding read_response_def head ls_def option.case prod.case list.case h Let_def by (simp add: line_def)
qed

definition statuses :: "(nat \<times> string) list" where
  "statuses = [(200, ''OK''), (401, ''Unauthorized''), (404, ''Not Found''), (405, ''Method Not Allowed'')]"

definition content_types :: "string list" where
  "content_types =
     [''application/json; charset=utf-8'', ''application/json'', ''text/plain; version=0.0.4; charset=utf-8'', ''text/html; charset=utf-8'',
      ''text/css; charset=utf-8'', ''application/javascript; charset=utf-8'', ''image/svg+xml'', ''application/octet-stream'']"

definition well_shaped :: "string \<Rightarrow> bool" where
  "well_shaped out \<longleftrightarrow>
     (\<exists>st reason ct body. out = sendResponse st reason ct body \<and> (st, reason) \<in> set statuses \<and> ct \<in> set content_types)"

lemma well_shaped_response:
  "(st, reason) \<in> set statuses \<Longrightarrow> ct \<in> set content_types \<Longrightarrow> well_shaped (sendResponse st reason ct body)"
  unfolding well_shaped_def by blast

lemma well_shaped_simps:
  "well_shaped (sendJson b)" "well_shaped (sendPrometheus b)" "well_shaped sendNotFound" "well_shaped sendUnauthorized"
  "well_shaped (sendResponse 405 ''Method Not Allowed'' ''application/json'' b)"
  "well_shaped (sendResponse 200 ''OK'' ''application/json; charset=utf-8'' b)"
  unfolding sendJson_def sendPrometheus_def sendNotFound_def sendUnauthorized_def
  by (intro well_shaped_response; simp add: statuses_def content_types_def)+

lemma well_shaped_static:
  "well_shaped (case readStaticFile c f p of (body, ct) \<Rightarrow> if body = [] then sendNotFound else sendResponse 200 ''OK'' ct body)"
proof -
  have "fst (readStaticFile c f p) = [] \<or> snd (readStaticFile c f p) \<in> set content_types"
    by (simp add: readStaticFile_def contentTypeFor_def content_types_def Let_def)
  then show ?thesis
    by (auto simp: split_beta well_shaped_simps intro!: well_shaped_response) (simp add: statuses_def)
qed

lemma routeHttp_shape: "well_shaped (routeHttp ws read_file q r)"
  unfolding routeHttp_def Let_def by (simp only: well_shaped_simps well_shaped_static if_split simp_thms)

text \<open>
  C31: Every HTTP answer is framed correctly: a client that reads the header lines up to the blank one and
  then as many bytes as the stated length gets the status line, the content type and exactly the body, and
  is left with what follows; the status is 200, 401, 404 or 405.
\<close>

theorem routeHttp_framing:
  "\<exists>st reason ct body. routeHttp ws read_file q r = sendResponse st reason ct body \<and> (st, reason) \<in> set statuses \<and>
     read_response (routeHttp ws read_file q r @ rest) = Some (''HTTP/1.1 '' @ show_nat st @ '' '' @ reason, ct, body, rest)"
proof -
  obtain st reason ct body where out: "routeHttp ws read_file q r = sendResponse st reason ct body"
    "(st, reason) \<in> set statuses" "ct \<in> set content_types"
    using routeHttp_shape [of ws read_file q r] unfolding well_shaped_def by blast
  have "\<forall>(s, t)\<in>set statuses. value_ok t" "\<forall>t\<in>set content_types. value_ok t" by code_simp+
  with out(2,3) have "value_ok reason" "value_ok ct" by auto
  from sendResponse_read_back [OF this] out show ?thesis by metis
qed

section \<open>Sending\<close>

text \<open>
  Sending loses and repeats nothing: what has been sent is always an initial part of the data, all of it
  when the loop reports success; and when no call fails, as many calls that make progress as there are bytes
  are enough for success, whatever the interruptions in between.
\<close>

theorem sendAll_complete:
  "prefix (fst (sendAll data rs)) data \<and> (snd (sendAll data rs) = Some True \<longrightarrow> fst (sendAll data rs) = data) \<and>
   (list_all (\<lambda>r. r \<noteq> SendFailed \<and> r \<noteq> Sent 0) rs \<and> length data \<le> length (filter (\<lambda>r. r \<noteq> Interrupted) rs) \<longrightarrow>
      sendAll data rs = (data, Some True))"
proof (induction data rs rule: sendAll.induct)
  case (3 c cs n rs)
  define d where "d = c # cs"
  show ?case
  proof (cases "n = 0")
    case False
    with 3 have IH: "prefix (fst (sendAll (drop n d) rs)) (drop n d)"
      "snd (sendAll (drop n d) rs) = Some True \<longrightarrow> fst (sendAll (drop n d) rs) = drop n d"
      "list_all (\<lambda>r. r \<noteq> SendFailed \<and> r \<noteq> Sent 0) rs \<and> length (drop n d) \<le> length (filter (\<lambda>r. r \<noteq> Interrupted) rs) \<longrightarrow>
        sendAll (drop n d) rs = (drop n d, Some True)"
      by (simp_all add: d_def)
    have eq: "sendAll d (Sent n # rs) = apfst ((@) (take n d)) (sendAll (drop n d) rs)" using False by (simp add: d_def)
    have "prefix (take n d @ fst (sendAll (drop n d) rs)) d"
      using IH(1) by (metis append_take_drop_id same_prefix_prefix)
    moreover have "length (drop n d) \<le> length (filter (\<lambda>r. r \<noteq> Interrupted) rs)"
      if "length d \<le> length (filter (\<lambda>r. r \<noteq> Interrupted) (Sent n # rs))" using that False by simp
    ultimately show ?thesis
      using IH(2,3) unfolding d_def [symmetric] eq by (auto simp: apfst_def map_prod_def split_beta)
  qed simp
qed auto

theorem sendAll_complete_witness: "sendAll ''abc'' [Sent 2, Interrupted, Sent 1, Sent 1] = (''abc'', Some True)"
  using sendAll_complete [of "''abc''" "[Sent 2, Interrupted, Sent 1, Sent 1]"] by simp

section \<open>The token of the dashboard\<close>

text \<open>
  The dashboard script sends its token as \<^verbatim>\<open>encodeURIComponent(token)\<close>, which leaves letters, digits and nine
  marks and writes every other byte as a percent sign and two hexadecimal digits.
\<close>

definition uri_unreserved :: "char \<Rightarrow> bool" where
  "uri_unreserved c \<longleftrightarrow> c \<in> set ''ABCDEFGHIJKLMNOPQRSTUVWXYZabcdefghijklmnopqrstuvwxyz0123456789-_.!~*()'' \<or> c = CHR 0x27"

definition uri_hex :: "nat \<Rightarrow> char" where
  "uri_hex n = ''0123456789ABCDEF'' ! n"

definition encodeURIComponent :: "string \<Rightarrow> string" where
  "encodeURIComponent s =
     concat (map (\<lambda>c. if uri_unreserved c then [c] else [CHR ''%'', uri_hex (code c div 16), uri_hex (code c mod 16)]) s)"

definition socket_path :: "string \<Rightarrow> string" where
  "socket_path token = (if token = [] then ''/ws'' else ''/ws?token='' @ encodeURIComponent token)"

lemma encode_length: "length s \<le> length (encodeURIComponent s)"
  by (induction s) (auto simp: encodeURIComponent_def)

lemma encode_id_iff: "encodeURIComponent s = s \<longleftrightarrow> list_all uri_unreserved s"
proof (induction s)
  case (Cons c s)
  show ?case
  proof (cases "uri_unreserved c")
    case True
    then show ?thesis using Cons by (simp add: encodeURIComponent_def)
  next
    case False
    then have "length (encodeURIComponent (c # s)) = 3 + length (encodeURIComponent s)" by (simp add: encodeURIComponent_def)
    then have "length (c # s) < length (encodeURIComponent (c # s))" using encode_length [of s] by simp
    then show ?thesis using False by fastforce
  qed
qed (simp add: encodeURIComponent_def)

lemma uri_hex_chars: "n < 16 \<Longrightarrow> uri_hex n \<notin> {CHR ''&'', CHR ''=''}"
proof -
  have "\<forall>n\<in>set [0..<16]. uri_hex n \<notin> {CHR ''&'', CHR ''=''}" by code_simp
  then show "n < 16 \<Longrightarrow> uri_hex n \<notin> {CHR ''&'', CHR ''=''}" by simp
qed

lemma encode_no_amp: "CHR ''&'' \<notin> set (encodeURIComponent s)"
proof -
  have "\<not> uri_unreserved (CHR ''&'')" by code_simp
  moreover have "code c div 16 < 16" "code c mod 16 < 16" for c using code_less [of c] by linarith+
  then have "uri_hex (code c div 16) \<noteq> CHR ''&''" "uri_hex (code c mod 16) \<noteq> CHR ''&''" for c
    using uri_hex_chars by blast+
  ultimately show ?thesis
    by (auto simp: encodeURIComponent_def dest: sym)
qed

text \<open>
  C34: The dashboard gets in exactly when its token consists of characters that need no encoding: the server
  compares the value of the query parameter without decoding it, so that with any other token, although it
  is the right one, the request of the script is refused.
\<close>

theorem dashboard_token_accepted_iff:
  assumes "dashboard_token config = token" "token \<noteq> []"
  shows "authorized config (request_of ''GET'' path (''token='' @ encodeURIComponent token) []) \<longleftrightarrow> list_all uri_unreserved token"
proof -
  have "CHR ''&'' \<notin> set (''token='' @ encodeURIComponent token)" using encode_no_amp by simp
  then have "split (''token='' @ encodeURIComponent token) (CHR ''&'') = [''token='' @ encodeURIComponent token]" by (rule split_free)
  then have "queryParam (request_of ''GET'' path (''token='' @ encodeURIComponent token) []) ''token'' = encodeURIComponent token"
    by (simp add: queryParam_def request_of_def)
  moreover have "headerValue (rq_headers (request_of ''GET'' path q [])) k = []" for q k
    by (simp add: request_of_def headerValue_def)
  ultimately show ?thesis using assms encode_id_iff by (simp add: authorized_def)
qed

theorem dashboard_token_accepted_iff_witness:
  "\<not> authorized (default_config\<lparr>dashboard_token := ''a b''\<rparr>) (request_of ''GET'' ''/ws'' (''token='' @ encodeURIComponent ''a b'') [])"
proof -
  have "\<not> list_all uri_unreserved ''a b''" by code_simp
  then show ?thesis
    using dashboard_token_accepted_iff [of "default_config\<lparr>dashboard_token := ''a b''\<rparr>" "''a b''" "''/ws''"] by simp
qed

section \<open>WebSocket clients\<close>

lemma fold_close_clients:
  "distinct (so_clients s) \<Longrightarrow>
   so_clients (fold (\<lambda>fd s. removeWebSocketClient fd (fd_log [Closed fd] s)) fds s) = filter (\<lambda>fd. fd \<notin> set fds) (so_clients s)"
proof (induction fds arbitrary: s)
  case (Cons fd fds)
  let ?t = "removeWebSocketClient fd (fd_log [Closed fd] s)"
  have cl: "so_clients ?t = filter (\<lambda>x. x \<noteq> fd) (so_clients s)"
    using Cons.prems by (simp add: removeWebSocketClient_def fd_log_def distinct_remove1_removeAll removeAll_filter_not_eq eq_commute)
  then have "distinct (so_clients ?t)" using Cons.prems by simp
  from Cons.IH [OF this] show ?case by (simp add: cl conj_commute)
qed simp

lemma fold_close_events:
  "so_events (fold (\<lambda>fd s. removeWebSocketClient fd (fd_log [Closed fd] s)) fds s) = so_events s @ map Closed fds"
  by (induction fds arbitrary: s) (simp_all add: removeWebSocketClient_def fd_log_def)

lemma broadcast_eq:
  "distinct (so_clients s) \<Longrightarrow> so_clients (broadcast send_ok message s) = filter send_ok (so_clients s)"
  "so_events (broadcast send_ok message s) =
     so_events s @ map (\<lambda>fd. Frame fd (ws_frame message)) (so_clients s) @ map Closed (filter (\<lambda>fd. \<not> send_ok fd) (so_clients s))"
proof -
  have "filter (\<lambda>fd. fd \<notin> set (filter (\<lambda>fd. \<not> send_ok fd) (so_clients s))) (so_clients s) = filter send_ok (so_clients s)"
    by (rule filter_cong) auto
  then show "distinct (so_clients s) \<Longrightarrow> so_clients (broadcast send_ok message s) = filter send_ok (so_clients s)"
    unfolding broadcast_def Let_def by (subst fold_close_clients) (simp_all add: fd_log_def del: set_filter)
  show "so_events (broadcast send_ok message s) =
     so_events s @ map (\<lambda>fd. Frame fd (ws_frame message)) (so_clients s) @ map Closed (filter (\<lambda>fd. \<not> send_ok fd) (so_clients s))"
    unfolding broadcast_def Let_def by (subst fold_close_events) (simp add: fd_log_def)
qed

inductive socket_step :: "Sockets \<Rightarrow> Sockets \<Rightarrow> bool" where
  Open: "socket_step s (ws_open fd s)"
| End: "socket_step s (ws_end fd s)"
| Publish: "socket_step s (broadcast send_ok message s)"
| Stop: "socket_step s (stop_clients s)"

definition sockets_new :: Sockets where
  "sockets_new = \<lparr>so_clients = [], so_events = []\<rparr>"

definition sockets_ok :: "Sockets \<Rightarrow> bool" where
  "sockets_ok s \<longleftrightarrow> sorted (so_clients s) \<and> distinct (so_clients s)"

lemma socket_step_ok: "socket_step s t \<Longrightarrow> sockets_ok s \<Longrightarrow> sockets_ok t"
proof (induction rule: socket_step.induct)
  case (Publish s send_ok message)
  then show ?case by (simp add: sockets_ok_def broadcast_eq sorted_filter [of id, simplified])
qed (auto simp: sockets_ok_def ws_open_def ws_end_def stop_clients_def fd_log_def addWebSocketClient_def
    removeWebSocketClient_def sorted_insort_insert distinct_insort_insert sorted_remove1)

interpretation sockets: invariant_system "\<lambda>s. s = sockets_new" socket_step sockets_ok
  by unfold_locales (simp add: sockets_ok_def sockets_new_def, rule socket_step_ok)

text \<open>
  In every reachable state of the registry an update goes, as one frame, to every registered client
  exactly once, in ascending order; afterwards exactly the clients that could not be reached are closed
  and gone, and the others remain.
\<close>

theorem broadcast_reaches_all:
  assumes "reach (\<lambda>s. s = sockets_new) socket_step s"
  shows "so_events (broadcast send_ok message s) =
           so_events s @ map (\<lambda>fd. Frame fd (ws_frame message)) (so_clients s) @ map Closed (filter (\<lambda>fd. \<not> send_ok fd) (so_clients s)) \<and>
         so_clients (broadcast send_ok message s) = filter send_ok (so_clients s) \<and>
         sorted_wrt (<) (so_clients s)"
  using sockets.reach_inv [OF assms] by (simp add: sockets_ok_def broadcast_eq strict_sorted_iff)

theorem broadcast_reaches_all_witness:
  "so_clients (broadcast (\<lambda>fd. fd = 9) ''m'' (ws_open 9 (ws_open 12 sockets_new))) = [9]"
proof -
  have "reach (\<lambda>s. s = sockets_new) socket_step sockets_new" by (rule reach.init) simp
  then have "reach (\<lambda>s. s = sockets_new) socket_step (ws_open 12 sockets_new)" by (rule reach.step) (rule socket_step.Open)
  then have r: "reach (\<lambda>s. s = sockets_new) socket_step (ws_open 9 (ws_open 12 sockets_new))"
    by (rule reach.step) (rule socket_step.Open)
  have "so_clients (ws_open 9 (ws_open 12 sockets_new)) = [9, 12]" by code_simp
  with broadcast_reaches_all [OF r, of "\<lambda>fd. fd = 9" "''m''"] show ?thesis by simp
qed

text \<open>
  C35: A client whose connection broke is closed twice, once by the broadcast that fails and once by the thread
  that serves it; if the system has given the same descriptor to a new client in between, the second close
  hits that client: it has just been greeted, its socket is closed and it is no longer registered.
\<close>

theorem broken_client_closed_twice:
  fixes message :: string
  assumes "sockets_ok s" "fd \<in> set (so_clients s)" "\<not> send_ok fd"
  defines "s1 \<equiv> broadcast send_ok message s"
  shows "Closed fd \<in> set (drop (length (so_events s)) (so_events s1)) \<and> so_events (ws_end fd s1) = so_events s1 @ [Closed fd] \<and>
         (\<exists>greeting. so_events (ws_end fd (ws_open fd s1)) = so_events s1 @ [Frame fd greeting, Closed fd] \<and>
           fd \<in> set (so_clients (ws_open fd s1)) \<and> fd \<notin> set (so_clients (ws_end fd (ws_open fd s1))))"
proof -
  have s1: "sockets_ok s1" unfolding s1_def by (rule socket_step_ok [OF socket_step.Publish assms(1)])
  have "sockets_ok (ws_open fd s1)" by (rule socket_step_ok [OF socket_step.Open s1])
  then have "fd \<notin> set (so_clients (ws_end fd (ws_open fd s1)))"
    by (simp add: ws_end_def fd_log_def removeWebSocketClient_def sockets_ok_def)
  moreover have "Closed fd \<in> set (drop (length (so_events s)) (so_events s1))"
    using assms(1-3) by (simp add: s1_def broadcast_eq sockets_ok_def)
  ultimately show ?thesis
    by (simp add: ws_end_def ws_open_def fd_log_def removeWebSocketClient_def addWebSocketClient_def set_insort_insert)
qed

theorem broken_client_closed_twice_witness:
  "so_events (ws_end 9 (broadcast (\<lambda>_. False) ''m'' (ws_open 9 sockets_new))) =
   so_events (broadcast (\<lambda>_. False) ''m'' (ws_open 9 sockets_new)) @ [Closed 9]"
proof -
  have "sockets_ok (ws_open 9 sockets_new)" "9 \<in> set (so_clients (ws_open 9 sockets_new))" by code_simp+
  from broken_client_closed_twice [OF this, of "\<lambda>_. False" "''m''"] show ?thesis by simp
qed

end
