(* ===== verification/Shutdown.thy ===== *)
theory Shutdown
  imports Listener_Properties
begin

text \<open>
  The threads of the whole process and how they end: the loop of \<^verbatim>\<open>main\<close> (\<^verbatim>\<open>src/src/main.cpp\<close>), \<^verbatim>\<open>App::stop\<close>, the
  destructors and the cleanup thread (\<^verbatim>\<open>src/src/app.cpp\<close>), around the two servers of the theory of the listeners.
  A run is any sequence of steps of the threads and of the signal. \<^verbatim>\<open>App::wait\<close>, which no thread of the program
  calls, is a small system of its own.
\<close>

section \<open>The cleanup thread\<close>

datatype cleanup_pc = CleanLoop | CleanNap nat | CleanCheck | CleanRound | CleanDone

text \<open>One evaluation of a condition, or one round; a nap is a second of sleep.\<close>

fun cleanup_step :: "bool \<Rightarrow> cleanup_pc \<Rightarrow> cleanup_pc" where
  "cleanup_step running CleanLoop = (if running then CleanNap 0 else CleanDone)"
| "cleanup_step running (CleanNap i) = (if i < 60 \<and> running then CleanNap (Suc i) else CleanCheck)"
| "cleanup_step running CleanCheck = (if running then CleanRound else CleanDone)"
| "cleanup_step running CleanRound = CleanLoop"
| "cleanup_step running CleanDone = CleanDone"

section \<open>The process\<close>

datatype app_pc = AppIdle | CallSyslog | CallWeb | JoinCleanup | Notify

text \<open>
  \<^verbatim>\<open>main\<close> polls the flag of the signal handler, stops the application, and destroys it: \<^verbatim>\<open>App::~App\<close> stops it again,
  then its members are destroyed in the reverse order of their declaration, of which the web server and the
  syslog server stop themselves once more.
\<close>

datatype main_pc = Polling | Stopping | Destroying | DestroyWeb | DestroySyslog | Returned

record AppThreads =
  at_requested :: bool
  at_main :: main_pc
  at_running :: bool
  at_pc :: app_pc
  at_stops :: nat
  at_syslog :: SyslogServer
  at_web :: WebListener
  at_handlers :: nat
  at_cleanup :: cleanup_pc
  at_rounds :: nat

definition app_started :: "Config \<Rightarrow> AppThreads" where
  "app_started config =
     \<lparr>at_requested = False, at_main = Polling, at_running = True, at_pc = AppIdle, at_stops = 0,
      at_syslog = syslog_start config, at_web = web_start, at_handlers = 0, at_cleanup = CleanLoop, at_rounds = 0\<rparr>"

text \<open>One step of the two calls; each returns when it is idle again.\<close>

definition call_syslog :: "AppThreads \<Rightarrow> AppThreads" where
  "call_syslog t = t\<lparr>at_syslog := syslog_stop (sy_pc (at_syslog t)) (at_syslog t)\<rparr>"

definition call_web :: "AppThreads \<Rightarrow> AppThreads" where
  "call_web t = t\<lparr>at_web := web_stop (wl_pc (at_web t)) (at_web t)\<rparr>"

definition syslog_idle :: "AppThreads \<Rightarrow> bool" where
  "syslog_idle t \<longleftrightarrow> sy_pc (at_syslog t) = SyslogIdle"

definition web_idle :: "AppThreads \<Rightarrow> bool" where
  "web_idle t \<longleftrightarrow> wl_pc (at_web t) = WebIdle"

fun stop_step :: "app_pc \<Rightarrow> AppThreads \<Rightarrow> AppThreads" where
  "stop_step AppIdle t = t\<lparr>at_running := False, at_pc := CallSyslog\<rparr>"
| "stop_step CallSyslog t = (let t' = call_syslog t in if syslog_idle t' then t'\<lparr>at_pc := CallWeb\<rparr> else t')"
| "stop_step CallWeb t = (let t' = call_web t in if web_idle t' then t'\<lparr>at_pc := JoinCleanup\<rparr> else t')"
| "stop_step JoinCleanup t = (if at_cleanup t = CleanDone then t\<lparr>at_pc := Notify\<rparr> else t)"
| "stop_step Notify t = t\<lparr>at_pc := AppIdle, at_stops := Suc (at_stops t)\<rparr>"

fun main_step :: "main_pc \<Rightarrow> AppThreads \<Rightarrow> AppThreads" where
  "main_step Polling t = (if at_requested t then t\<lparr>at_main := Stopping\<rparr> else t)"
| "main_step Stopping t = (let t' = stop_step (at_pc t) t in if at_pc t' = AppIdle then t'\<lparr>at_main := Destroying\<rparr> else t')"
| "main_step Destroying t = (let t' = stop_step (at_pc t) t in if at_pc t' = AppIdle then t'\<lparr>at_main := DestroyWeb\<rparr> else t')"
| "main_step DestroyWeb t = (let t' = call_web t in if web_idle t' then t'\<lparr>at_main := DestroySyslog\<rparr> else t')"
| "main_step DestroySyslog t = (let t' = call_syslog t in if syslog_idle t' then t'\<lparr>at_main := Returned\<rparr> else t')"
| "main_step Returned t = t"

text \<open>
  The web server starts a detached thread for every accepted connection. \<open>EndConnections\<close> is the moment when all
  threads of TCP connections have ended.
\<close>

datatype app_action = Signal | MainStep | UdpStep answer | TcpStep answer | EndConnection nat | EndConnections
  | HttpStep answer | EndHandler | CleanupStep

definition accepts :: "answer \<Rightarrow> Listener \<Rightarrow> bool" where
  "accepts a ln \<longleftrightarrow> ln_pc ln = Receiving \<and> succeeds a (ln_fd ln) ln"

fun app_act :: "(string \<Rightarrow> 32 word option) \<Rightarrow> Config \<Rightarrow> app_action \<Rightarrow> AppThreads \<Rightarrow> AppThreads" where
  "app_act inet_pton config Signal t = t\<lparr>at_requested := True\<rparr>"
| "app_act inet_pton config MainStep t = main_step (at_main t) t"
| "app_act inet_pton config (UdpStep a) t = t\<lparr>at_syslog := syslog_act inet_pton config (RunUdp a) (at_syslog t)\<rparr>"
| "app_act inet_pton config (TcpStep a) t = t\<lparr>at_syslog := syslog_act inet_pton config (RunTcp a) (at_syslog t)\<rparr>"
| "app_act inet_pton config (EndConnection i) t = t\<lparr>at_syslog := syslog_act inet_pton config (EndClient i) (at_syslog t)\<rparr>"
| "app_act inet_pton config EndConnections t =
     t\<lparr>at_syslog := (at_syslog t)\<lparr>sy_clients := map (\<lambda>_. True) (sy_clients (at_syslog t))\<rparr>\<rparr>"
| "app_act inet_pton config (HttpStep a) t =
     t\<lparr>at_web := web_act inet_pton config (RunWeb a) (at_web t),
       at_handlers := (if accepts a (wl_listener (at_web t)) then Suc (at_handlers t) else at_handlers t)\<rparr>"
| "app_act inet_pton config EndHandler t = t\<lparr>at_handlers := at_handlers t - 1\<rparr>"
| "app_act inet_pton config CleanupStep t =
     t\<lparr>at_cleanup := cleanup_step (at_running t) (at_cleanup t),
       at_rounds := (if at_cleanup t = CleanRound then Suc (at_rounds t) else at_rounds t)\<rparr>"

definition app_run :: "(string \<Rightarrow> 32 word option) \<Rightarrow> Config \<Rightarrow> app_action list \<Rightarrow> AppThreads \<Rightarrow> AppThreads" where
  "app_run inet_pton config acts t = fold (app_act inet_pton config) acts t"

section \<open>Waiting\<close>

text \<open>
  \<^verbatim>\<open>App::wait\<close> evaluates the predicate, then blocks on the condition variable, and evaluates it again after each
  notification; a notification reaches only a thread that is blocked. \<^verbatim>\<open>App::stop\<close> clears the flag and notifies
  without taking the mutex.
\<close>

datatype wait_pc = WaitCheck | WaitEnter | WaitBlocked | WaitReturned

record Waiter =
  wt_running :: bool
  wt_notified :: bool
  wt_pc :: wait_pc

fun wait_step :: "wait_pc \<Rightarrow> Waiter \<Rightarrow> Waiter" where
  "wait_step WaitCheck w = w\<lparr>wt_pc := (if wt_running w then WaitEnter else WaitReturned)\<rparr>"
| "wait_step WaitEnter w = w\<lparr>wt_pc := WaitBlocked\<rparr>"
| "wait_step WaitBlocked w = w"
| "wait_step WaitReturned w = w"

definition notify_all :: "Waiter \<Rightarrow> Waiter" where
  "notify_all w = w\<lparr>wt_notified := True, wt_pc := (if wt_pc w = WaitBlocked then WaitCheck else wt_pc w)\<rparr>"

datatype wait_action = WaitStep | ClearRunning | NotifyAll

fun wait_act :: "wait_action \<Rightarrow> Waiter \<Rightarrow> Waiter" where
  "wait_act WaitStep w = wait_step (wt_pc w) w"
| "wait_act ClearRunning w = w\<lparr>wt_running := False\<rparr>"
| "wait_act NotifyAll w = (if wt_running w then w else notify_all w)"

definition wait_start :: Waiter where
  "wait_start = \<lparr>wt_running = True, wt_notified = False, wt_pc = WaitCheck\<rparr>"

definition wait_run :: "wait_action list \<Rightarrow> Waiter" where
  "wait_run acts = fold wait_act acts wait_start"

end
