(* ===== verification/Shutdown_Properties.thy ===== *)
theory Shutdown_Properties
  imports Shutdown "HOL-Library.Product_Lexorder"
begin

text \<open>
  The threads of the process under every interleaving: what has ended when \<^verbatim>\<open>main\<close> returns, that it returns after a
  signal, which threads may outlive it, and when \<^verbatim>\<open>App::wait\<close> misses the end.
\<close>

section \<open>What one step of a call does\<close>

lemma web_stop_frame [simp]: "ln_pc (wl_listener (web_stop pc s)) = ln_pc (wl_listener s)"
  by (cases pc) (simp_all add: split_beta)

lemma syslog_stop_result:
  assumes "sy_pc s = SyslogIdle \<or> \<not> sy_running s"
  shows "\<not> sy_running (syslog_stop (sy_pc s) s)"
    "sy_stops (syslog_stop (sy_pc s) s) = sy_stops s + (if sy_pc (syslog_stop (sy_pc s) s) = SyslogIdle then 1 else 0)"
  using assms by (cases "sy_pc s"; auto simp: split_beta split: option.split)+

lemma web_stop_result:
  assumes "wl_pc s = WebIdle \<or> \<not> wl_running s"
  shows "\<not> wl_running (web_stop (wl_pc s) s)"
    "wl_stops (web_stop (wl_pc s) s) = wl_stops s + (if wl_pc (web_stop (wl_pc s) s) = WebIdle then 1 else 0)"
  using assms by (cases "wl_pc s"; auto simp: split_beta split: option.split)+

lemma call_simps [simp]:
  "at_main (call_syslog t) = at_main t" "at_pc (call_syslog t) = at_pc t" "at_stops (call_syslog t) = at_stops t"
  "at_running (call_syslog t) = at_running t" "at_web (call_syslog t) = at_web t" "at_cleanup (call_syslog t) = at_cleanup t"
  "at_requested (call_syslog t) = at_requested t" "web_idle (call_syslog t) = web_idle t"
  "at_main (call_web t) = at_main t" "at_pc (call_web t) = at_pc t" "at_stops (call_web t) = at_stops t"
  "at_running (call_web t) = at_running t" "at_syslog (call_web t) = at_syslog t" "at_cleanup (call_web t) = at_cleanup t"
  "at_requested (call_web t) = at_requested t" "syslog_idle (call_web t) = syslog_idle t"
  by (simp_all add: call_syslog_def call_web_def syslog_idle_def web_idle_def)

section \<open>The invariant of the process\<close>

text \<open>How many calls of the three \<^verbatim>\<open>stop\<close> operations have returned, by the positions of \<^verbatim>\<open>main\<close> and \<^verbatim>\<open>App::stop\<close>.\<close>

fun app_calls :: "main_pc \<Rightarrow> nat" where
  "app_calls Polling = 0"
| "app_calls Stopping = 0"
| "app_calls Destroying = 1"
| "app_calls _ = 2"

definition syslog_calls :: "main_pc \<Rightarrow> app_pc \<Rightarrow> nat" where
  "syslog_calls m pc = app_calls m + (if pc \<in> {CallWeb, JoinCleanup, Notify} \<or> m = Returned then 1 else 0)"

definition web_calls :: "main_pc \<Rightarrow> app_pc \<Rightarrow> nat" where
  "web_calls m pc = app_calls m + (if pc \<in> {JoinCleanup, Notify} \<or> m \<in> {DestroySyslog, Returned} then 1 else 0)"

definition syslog_part :: "AppThreads \<Rightarrow> bool" where
  "syslog_part t \<longleftrightarrow> syslog_ok (at_syslog t) \<and> (syslog_idle t \<or> \<not> sy_running (at_syslog t)) \<and>
     (syslog_idle t \<or> at_pc t = CallSyslog \<or> at_main t = DestroySyslog) \<and>
     sy_stops (at_syslog t) = syslog_calls (at_main t) (at_pc t)"

definition web_part :: "AppThreads \<Rightarrow> bool" where
  "web_part t \<longleftrightarrow> web_ok (at_web t) \<and> (web_idle t \<or> \<not> wl_running (at_web t)) \<and>
     (web_idle t \<or> at_pc t = CallWeb \<or> at_main t = DestroyWeb) \<and>
     wl_stops (at_web t) = web_calls (at_main t) (at_pc t)"

definition app_part :: "AppThreads \<Rightarrow> bool" where
  "app_part t \<longleftrightarrow> (at_pc t \<noteq> AppIdle \<longrightarrow> at_main t = Stopping \<or> at_main t = Destroying) \<and>
     at_stops t = app_calls (at_main t) \<and> (at_running t \<longrightarrow> at_pc t = AppIdle \<and> at_stops t = 0) \<and>
     (at_pc t = Notify \<or> 0 < at_stops t \<longrightarrow> at_cleanup t = CleanDone)"

definition process_ok :: "AppThreads \<Rightarrow> bool" where
  "process_ok t \<longleftrightarrow> syslog_part t \<and> web_part t \<and> app_part t"

lemmas part_defs = syslog_part_def web_part_def app_part_def syslog_calls_def web_calls_def

lemma call_syslog_part:
  assumes "syslog_part t"
  shows "syslog_ok (at_syslog (call_syslog t))" "\<not> sy_running (at_syslog (call_syslog t))"
    "sy_stops (at_syslog (call_syslog t)) =
       syslog_calls (at_main t) (at_pc t) + (if syslog_idle (call_syslog t) then 1 else 0)"
  using assms syslog_stop_result [of "at_syslog t"] syslog_stop_ok [of "at_syslog t"]
  by (auto simp: syslog_part_def call_syslog_def syslog_idle_def)

lemma call_web_part:
  assumes "web_part t"
  shows "web_ok (at_web (call_web t))" "\<not> wl_running (at_web (call_web t))"
    "wl_stops (at_web (call_web t)) = web_calls (at_main t) (at_pc t) + (if web_idle (call_web t) then 1 else 0)"
  using assms web_stop_result [of "at_web t"] web_stop_ok [of "at_web t"]
  by (auto simp: web_part_def call_web_def web_idle_def)

lemma idle_simps [simp]:
  "syslog_idle (t\<lparr>at_main := m\<rparr>) = syslog_idle t" "web_idle (t\<lparr>at_main := m\<rparr>) = web_idle t"
  "syslog_idle (t\<lparr>at_pc := pc\<rparr>) = syslog_idle t" "web_idle (t\<lparr>at_pc := pc\<rparr>) = web_idle t"
  "syslog_idle (t\<lparr>at_stops := n\<rparr>) = syslog_idle t" "web_idle (t\<lparr>at_stops := n\<rparr>) = web_idle t"
  "syslog_idle (t\<lparr>at_running := b\<rparr>) = syslog_idle t" "web_idle (t\<lparr>at_running := b\<rparr>) = web_idle t"
  by (simp_all add: syslog_idle_def web_idle_def)

lemma stopping_ok:
  assumes ok: "process_ok t" and m: "at_main t = Stopping \<and> m = Destroying \<or> at_main t = Destroying \<and> m = DestroyWeb"
  shows "process_ok (let t' = stop_step (at_pc t) t in if at_pc t' = AppIdle then t'\<lparr>at_main := m\<rparr> else t')"
proof -
  note call = call_syslog_part [of t] call_web_part [of t]
  show ?thesis
    using ok m call by (cases "at_pc t") (auto simp: process_ok_def part_defs Let_def)
qed

lemma main_step_ok: "process_ok t \<Longrightarrow> process_ok (main_step (at_main t) t)"
proof (cases "at_main t")
  case Stopping
  moreover assume "process_ok t"
  ultimately show ?thesis using stopping_ok [of t Destroying] by simp
next
  case Destroying
  moreover assume "process_ok t"
  ultimately show ?thesis using stopping_ok [of t DestroyWeb] by simp
next
  case DestroyWeb
  moreover assume "process_ok t"
  ultimately show ?thesis using call_web_part [of t] by (auto simp: process_ok_def part_defs Let_def)
next
  case DestroySyslog
  moreover assume "process_ok t"
  ultimately show ?thesis using call_syslog_part [of t] by (auto simp: process_ok_def part_defs Let_def)
qed (auto simp: process_ok_def part_defs)

text \<open>Each part depends on its own fields only.\<close>

lemma part_frame [simp]:
  "web_part (t\<lparr>at_syslog := s\<rparr>) = web_part t" "app_part (t\<lparr>at_syslog := s\<rparr>) = app_part t"
  "syslog_part (t\<lparr>at_web := w\<rparr>) = syslog_part t" "app_part (t\<lparr>at_web := w\<rparr>) = app_part t"
  "syslog_part (t\<lparr>at_handlers := n\<rparr>) = syslog_part t" "web_part (t\<lparr>at_handlers := n\<rparr>) = web_part t"
  "app_part (t\<lparr>at_handlers := n\<rparr>) = app_part t"
  "syslog_part (t\<lparr>at_requested := b\<rparr>) = syslog_part t" "web_part (t\<lparr>at_requested := b\<rparr>) = web_part t"
  "app_part (t\<lparr>at_requested := b\<rparr>) = app_part t"
  "syslog_part (t\<lparr>at_rounds := n\<rparr>) = syslog_part t" "web_part (t\<lparr>at_rounds := n\<rparr>) = web_part t"
  "app_part (t\<lparr>at_rounds := n\<rparr>) = app_part t"
  "syslog_part (t\<lparr>at_cleanup := c\<rparr>) = syslog_part t" "web_part (t\<lparr>at_cleanup := c\<rparr>) = web_part t"
  by (simp_all add: syslog_part_def web_part_def app_part_def syslog_idle_def web_idle_def)

lemma syslog_part_step:
  assumes "syslog_part t" "syslog_ok s" "sy_pc s = sy_pc (at_syslog t)" "sy_running s = sy_running (at_syslog t)"
    "sy_stops s = sy_stops (at_syslog t)"
  shows "syslog_part (t\<lparr>at_syslog := s\<rparr>)"
  using assms by (simp add: syslog_part_def syslog_idle_def)

lemma web_part_step:
  assumes "web_part t" "web_ok w" "wl_pc w = wl_pc (at_web t)" "wl_running w = wl_running (at_web t)"
    "wl_stops w = wl_stops (at_web t)"
  shows "web_part (t\<lparr>at_web := w\<rparr>)"
  using assms by (simp add: web_part_def web_idle_def)

lemma app_part_cleanup: "app_part t \<Longrightarrow> app_part (t\<lparr>at_cleanup := cleanup_step b (at_cleanup t)\<rparr>)"
  by (auto simp: app_part_def)

lemma syslog_thread_ok:
  assumes "process_ok t" "syslog_ok s" "sy_pc s = sy_pc (at_syslog t)" "sy_running s = sy_running (at_syslog t)"
    "sy_stops s = sy_stops (at_syslog t)"
  shows "process_ok (t\<lparr>at_syslog := s\<rparr>)"
  using assms syslog_part_step [of t s] by (simp add: process_ok_def)

lemma process_ok_syslog: "process_ok t \<Longrightarrow> syslog_ok (at_syslog t)"
  by (simp add: process_ok_def syslog_part_def)

lemma process_ok_web: "process_ok t \<Longrightarrow> web_ok (at_web t)"
  by (simp add: process_ok_def web_part_def)

lemma app_act_ok:
  assumes "process_ok t"
  shows "process_ok (app_act inet_pton config act t)"
proof (cases act)
  case MainStep
  then show ?thesis using main_step_ok [OF assms] by simp
next
  case (UdpStep a)
  show ?thesis unfolding UdpStep app_act.simps
    by (rule syslog_thread_ok [OF assms], rule syslog_act_ok [OF process_ok_syslog [OF assms]]) simp_all
next
  case (TcpStep a)
  show ?thesis unfolding TcpStep app_act.simps
    by (rule syslog_thread_ok [OF assms], rule syslog_act_ok [OF process_ok_syslog [OF assms]]) simp_all
next
  case (EndConnection i)
  show ?thesis unfolding EndConnection app_act.simps
    by (rule syslog_thread_ok [OF assms], rule syslog_act_ok [OF process_ok_syslog [OF assms]]) simp_all
next
  case EndConnections
  show ?thesis unfolding EndConnections app_act.simps
    using process_ok_syslog [OF assms] by (intro syslog_thread_ok [OF assms]) (auto simp: syslog_ok_def)
next
  case (HttpStep a)
  show ?thesis unfolding HttpStep app_act.simps process_ok_def part_frame
    using assms web_act_ok [OF process_ok_web [OF assms], of inet_pton config "RunWeb a"]
    by (intro conjI web_part_step) (simp_all add: process_ok_def)
next
  case CleanupStep
  then show ?thesis using assms app_part_cleanup [of t] by (simp add: process_ok_def)
qed (use assms in \<open>simp_all add: process_ok_def\<close>)

lemma app_started_ok: "process_ok (app_started config)"
  by (simp add: process_ok_def part_defs app_started_def syslog_idle_def web_idle_def syslog_start_ok web_start_ok)
    (simp add: syslog_start_def web_start_def)

interpretation process: invariant_system "\<lambda>t. t = app_started config"
    "\<lambda>t u. \<exists>act. u = app_act inet_pton config act t" process_ok for inet_pton config
  by unfold_locales (auto simp: app_started_ok app_act_ok)


section \<open>The end of the process\<close>

fun web_rank :: "web_pc \<Rightarrow> nat" where
  "web_rank WebIdle = 5"
| "web_rank (CloseListen p) = close_rank p + 1"
| "web_rank JoinWeb = 1"

fun app_rank :: "app_pc \<Rightarrow> AppThreads \<Rightarrow> nat" where
  "app_rank AppIdle t = 18"
| "app_rank CallSyslog t = stop_rank (sy_pc (at_syslog t)) + 7"
| "app_rank CallWeb t = web_rank (wl_pc (at_web t)) + 2"
| "app_rank JoinCleanup t = 2"
| "app_rank Notify t = 1"

text \<open>How many steps \<^verbatim>\<open>main\<close> still makes after the signal.\<close>

fun main_rank :: "main_pc \<Rightarrow> AppThreads \<Rightarrow> nat" where
  "main_rank Polling t = 52"
| "main_rank Stopping t = app_rank (at_pc t) t + 33"
| "main_rank Destroying t = app_rank (at_pc t) t + 15"
| "main_rank DestroyWeb t = web_rank (wl_pc (at_web t)) + 10"
| "main_rank DestroySyslog t = stop_rank (sy_pc (at_syslog t))"
| "main_rank Returned t = 0"

fun cleanup_rank :: "cleanup_pc \<Rightarrow> nat" where
  "cleanup_rank CleanLoop = 1"
| "cleanup_rank (CleanNap i) = 2"
| "cleanup_rank CleanCheck = 1"
| "cleanup_rank CleanRound = 2"
| "cleanup_rank CleanDone = 0"

text \<open>What a call of \<^verbatim>\<open>stop\<close> that cannot go on is waiting for, as a number of steps of the other threads.\<close>

fun syslog_wait :: "syslog_pc \<Rightarrow> SyslogServer \<Rightarrow> nat" where
  "syslog_wait JoinUdp s = thread_rank (ln_pc (sy_udp s))"
| "syslog_wait JoinTcp s = thread_rank (ln_pc (sy_tcp s))"
| "syslog_wait JoinClients s = (if False \<in> set (sy_clients s) then 1 else 0)"
| "syslog_wait _ s = 0"

fun web_wait :: "web_pc \<Rightarrow> WebListener \<Rightarrow> nat" where
  "web_wait JoinWeb s = thread_rank (ln_pc (wl_listener s))"
| "web_wait _ s = 0"

definition waits :: "AppThreads \<Rightarrow> nat" where
  "waits t = syslog_wait (sy_pc (at_syslog t)) (at_syslog t) + web_wait (wl_pc (at_web t)) (at_web t) +
     (if at_pc t = JoinCleanup then cleanup_rank (at_cleanup t) else 0)"

lemma syslog_stop_rank:
  "syslog_wait (sy_pc s) s = 0 \<Longrightarrow> sy_pc (syslog_stop (sy_pc s) s) \<noteq> SyslogIdle \<Longrightarrow>
     stop_rank (sy_pc (syslog_stop (sy_pc s) s)) < stop_rank (sy_pc s)"
  "syslog_wait (sy_pc s) s = 0 \<Longrightarrow> sy_pc (syslog_stop (sy_pc s) s) = SyslogIdle \<Longrightarrow> sy_pc s = JoinClients"
  "0 < syslog_wait (sy_pc s) s \<Longrightarrow> syslog_stop (sy_pc s) s = s"
proof -
  have c: "stop_rank (case fst (closeIfOpen p ln) of None \<Rightarrow> CloseTcp Test | Some q \<Rightarrow> CloseUdp q) < close_rank p + 6"
    for p ln by (cases p) simp_all
  have d: "stop_rank (case fst (closeIfOpen p ln) of None \<Rightarrow> JoinUdp | Some q \<Rightarrow> CloseTcp q) < close_rank p + 3"
    for p ln by (cases p) simp_all
  show "syslog_wait (sy_pc s) s = 0 \<Longrightarrow> sy_pc (syslog_stop (sy_pc s) s) \<noteq> SyslogIdle \<Longrightarrow>
     stop_rank (sy_pc (syslog_stop (sy_pc s) s)) < stop_rank (sy_pc s)"
    using c [of _ "sy_udp s"] d [of _ "sy_tcp s"] by (cases "sy_pc s") (auto simp: split_beta thread_rank_joined split: if_splits)
  show "syslog_wait (sy_pc s) s = 0 \<Longrightarrow> sy_pc (syslog_stop (sy_pc s) s) = SyslogIdle \<Longrightarrow> sy_pc s = JoinClients"
    by (cases "sy_pc s") (auto simp: split_beta thread_rank_joined split: if_splits option.splits)
  show "0 < syslog_wait (sy_pc s) s \<Longrightarrow> syslog_stop (sy_pc s) s = s"
    by (cases "sy_pc s") (auto simp flip: thread_rank_joined split: if_splits)
qed

lemma web_stop_rank:
  "web_wait (wl_pc s) s = 0 \<Longrightarrow> wl_pc (web_stop (wl_pc s) s) \<noteq> WebIdle \<Longrightarrow>
     web_rank (wl_pc (web_stop (wl_pc s) s)) < web_rank (wl_pc s)"
  "web_wait (wl_pc s) s = 0 \<Longrightarrow> wl_pc (web_stop (wl_pc s) s) = WebIdle \<Longrightarrow> wl_pc s = JoinWeb"
  "0 < web_wait (wl_pc s) s \<Longrightarrow> web_stop (wl_pc s) s = s"
proof -
  have c: "web_rank (case fst (closeIfOpen p ln) of None \<Rightarrow> JoinWeb | Some q \<Rightarrow> CloseListen q) < close_rank p + 1"
    for p ln by (cases p) simp_all
  show "web_wait (wl_pc s) s = 0 \<Longrightarrow> wl_pc (web_stop (wl_pc s) s) \<noteq> WebIdle \<Longrightarrow>
     web_rank (wl_pc (web_stop (wl_pc s) s)) < web_rank (wl_pc s)"
    using c [of _ "wl_listener s"] by (cases "wl_pc s") (auto simp: split_beta thread_rank_joined split: if_splits)
  show "web_wait (wl_pc s) s = 0 \<Longrightarrow> wl_pc (web_stop (wl_pc s) s) = WebIdle \<Longrightarrow> wl_pc s = JoinWeb"
    by (cases "wl_pc s") (auto simp: split_beta thread_rank_joined split: if_splits option.splits)
  show "0 < web_wait (wl_pc s) s \<Longrightarrow> web_stop (wl_pc s) s = s"
    by (cases "wl_pc s") (auto simp flip: thread_rank_joined split: if_splits)
qed

text \<open>The invariant in the form in which the proofs below use it.\<close>

lemma process_facts:
  assumes "process_ok t"
  shows "syslog_idle t \<or> at_pc t = CallSyslog \<or> at_main t = DestroySyslog" "syslog_idle t \<or> \<not> sy_running (at_syslog t)"
    "web_idle t \<or> at_pc t = CallWeb \<or> at_main t = DestroyWeb" "web_idle t \<or> \<not> wl_running (at_web t)"
    "at_pc t = AppIdle \<or> at_main t = Stopping \<or> at_main t = Destroying" "at_pc t = AppIdle \<or> \<not> at_running t"
  using assms unfolding process_ok_def syslog_part_def web_part_def app_part_def by blast+

lemma app_act_requested: "at_requested t \<Longrightarrow> at_requested (app_act inet_pton config act t)"
proof -
  have "at_requested (stop_step pc t) = at_requested t" for pc t by (cases pc) (simp_all add: Let_def)
  then have "at_requested (main_step m t) = at_requested t" for m t by (cases m) (simp_all add: Let_def)
  then show "at_requested t \<Longrightarrow> ?thesis" by (cases act) simp_all
qed

text \<open>\<^verbatim>\<open>main\<close> makes a step when nothing keeps it waiting, and no step otherwise.\<close>

lemma call_syslog_rank:
  assumes "waits t = 0"
  shows "\<not> syslog_idle (call_syslog t) \<Longrightarrow> stop_rank (sy_pc (at_syslog (call_syslog t))) < stop_rank (sy_pc (at_syslog t))"
    "syslog_idle (call_syslog t) \<Longrightarrow> sy_pc (at_syslog t) = JoinClients"
  using assms syslog_stop_rank(1,2) [of "at_syslog t"] by (simp_all add: waits_def call_syslog_def syslog_idle_def)

lemma call_web_rank:
  assumes "waits t = 0"
  shows "\<not> web_idle (call_web t) \<Longrightarrow> web_rank (wl_pc (at_web (call_web t))) < web_rank (wl_pc (at_web t))"
    "web_idle (call_web t) \<Longrightarrow> wl_pc (at_web t) = JoinWeb"
  using assms web_stop_rank(1,2) [of "at_web t"] by (simp_all add: waits_def call_web_def web_idle_def)

lemma stop_step_rank:
  assumes "process_ok t" "waits t = 0" "at_main t = Stopping \<or> at_main t = Destroying"
  shows "at_pc (stop_step (at_pc t) t) \<noteq> AppIdle \<Longrightarrow> app_rank (at_pc (stop_step (at_pc t) t)) (stop_step (at_pc t) t) < app_rank (at_pc t) t"
    "at_pc (stop_step (at_pc t) t) = AppIdle \<Longrightarrow> at_pc t = Notify"
proof -
  have idle: "at_pc t \<noteq> CallSyslog \<Longrightarrow> sy_pc (at_syslog t) = SyslogIdle" "at_pc t \<noteq> CallWeb \<Longrightarrow> wl_pc (at_web t) = WebIdle"
    using process_facts(1,3) [OF assms(1)] assms(3) unfolding syslog_idle_def web_idle_def by auto
  have cl: "at_pc t = JoinCleanup \<Longrightarrow> at_cleanup t = CleanDone"
    using assms(2) by (cases "at_cleanup t") (simp_all add: waits_def)
  show "at_pc (stop_step (at_pc t) t) \<noteq> AppIdle \<Longrightarrow> app_rank (at_pc (stop_step (at_pc t) t)) (stop_step (at_pc t) t) < app_rank (at_pc t) t"
    using idle cl call_syslog_rank [OF assms(2)] call_web_rank [OF assms(2)]
    by (cases "at_pc t") (auto simp: Let_def)
  show "at_pc (stop_step (at_pc t) t) = AppIdle \<Longrightarrow> at_pc t = Notify"
    by (cases "at_pc t") (auto simp: Let_def split: if_splits)
qed

lemma stop_step_main [simp]: "at_main (stop_step pc t) = at_main t"
  by (cases pc) (simp_all add: Let_def)

lemma main_step_rank:
  assumes "process_ok t" "waits t = 0" "at_requested t" "at_main t \<noteq> Returned"
  shows "main_rank (at_main (main_step (at_main t) t)) (main_step (at_main t) t) < main_rank (at_main t) t"
proof (cases "at_main t")
  case Polling
  then show ?thesis using assms(3) process_facts(5) [OF assms(1)] by simp
next
  case Stopping
  then show ?thesis using stop_step_rank [OF assms(1,2)] by (auto simp: Let_def)
next
  case Destroying
  then have "at_pc t = Notify \<Longrightarrow> wl_pc (at_web t) = WebIdle" using process_facts(3) [OF assms(1)] by (simp add: web_idle_def)
  then show ?thesis using Destroying stop_step_rank [OF assms(1,2)] by (auto simp: Let_def)
next
  case DestroyWeb
  then have "sy_pc (at_syslog t) = SyslogIdle" using process_facts(1,5) [OF assms(1)] by (simp add: syslog_idle_def)
  then show ?thesis using DestroyWeb call_web_rank [OF assms(2)] by (auto simp: Let_def)
next
  case DestroySyslog
  then show ?thesis using call_syslog_rank [OF assms(2)] by (auto simp: Let_def)
qed (use assms in simp)

lemma main_step_waits:
  assumes "process_ok t" "0 < waits t"
  shows "main_step (at_main t) t = t"
proof -
  consider "0 < syslog_wait (sy_pc (at_syslog t)) (at_syslog t)" | "0 < web_wait (wl_pc (at_web t)) (at_web t)"
    | "at_pc t = JoinCleanup" "at_cleanup t \<noteq> CleanDone"
    using assms(2) by (force simp: waits_def split: if_splits)
  then show ?thesis
  proof cases
    case 1
    then have n: "\<not> syslog_idle t" by (auto simp: syslog_idle_def)
    have "call_syslog t = t" using syslog_stop_rank(3) [OF 1] by (simp add: call_syslog_def)
    with n process_facts(1,5) [OF assms(1)] show ?thesis by (cases "at_pc t = CallSyslog") (auto simp: Let_def)
  next
    case 2
    then have n: "\<not> web_idle t" by (auto simp: web_idle_def)
    have "call_web t = t" using web_stop_rank(3) [OF 2] by (simp add: call_web_def)
    with n process_facts(3,5) [OF assms(1)] show ?thesis by (cases "at_pc t = CallWeb") (auto simp: Let_def)
  next
    case 3
    with process_facts(5) [OF assms(1)] show ?thesis by (auto simp: Let_def)
  qed
qed

text \<open>Steps of the other threads leave \<^verbatim>\<open>main\<close> where it is and never make it wait longer.\<close>

lemma thread_action_frame:
  assumes "act \<noteq> MainStep"
  shows "at_main (app_act inet_pton config act t) = at_main t" "at_pc (app_act inet_pton config act t) = at_pc t"
    "sy_pc (at_syslog (app_act inet_pton config act t)) = sy_pc (at_syslog t)"
    "wl_pc (at_web (app_act inet_pton config act t)) = wl_pc (at_web t)"
  using assms by (cases act; simp)+

lemma app_rank_cong:
  "sy_pc (at_syslog t) = sy_pc (at_syslog u) \<Longrightarrow> wl_pc (at_web t) = wl_pc (at_web u) \<Longrightarrow> app_rank pc t = app_rank pc u"
  by (cases pc) simp_all

lemma thread_action_rank:
  assumes "act \<noteq> MainStep"
  shows "main_rank (at_main (app_act inet_pton config act t)) (app_act inet_pton config act t) = main_rank (at_main t) t"
  using thread_action_frame [OF assms, of inet_pton config t]
    app_rank_cong [of "app_act inet_pton config act t" t]
  by (cases "at_main t") simp_all

text \<open>Whether a step is one of those that a waiting call waits for.\<close>

fun awaited :: "AppThreads \<Rightarrow> app_action \<Rightarrow> bool" where
  "awaited t (UdpStep a) = (sy_pc (at_syslog t) = JoinUdp)"
| "awaited t (TcpStep a) = (sy_pc (at_syslog t) = JoinTcp)"
| "awaited t EndConnections = (sy_pc (at_syslog t) = JoinClients)"
| "awaited t (HttpStep a) = (wl_pc (at_web t) = JoinWeb)"
| "awaited t CleanupStep = (at_pc t = JoinCleanup)"
| "awaited t _ = False"

lemma awaited_cong:
  "sy_pc (at_syslog t) = sy_pc (at_syslog u) \<Longrightarrow> wl_pc (at_web t) = wl_pc (at_web u) \<Longrightarrow> at_pc t = at_pc u \<Longrightarrow>
     awaited t act = awaited u act"
  by (cases act) simp_all

lemma cleanup_step_rank: "cleanup_rank (cleanup_step False pc) \<le> cleanup_rank pc - 1"
  by (cases pc) simp_all

lemma syslog_wait_step:
  assumes "sy_pc s = SyslogIdle \<or> \<not> sy_running s" "syslog_ok s"
  shows "syslog_wait (sy_pc s) (syslog_act inet_pton config (RunUdp a) s) \<le> syslog_wait (sy_pc s) s - (if sy_pc s = JoinUdp then 1 else 0)"
    "syslog_wait (sy_pc s) (syslog_act inet_pton config (RunTcp a) s) \<le> syslog_wait (sy_pc s) s - (if sy_pc s = JoinTcp then 1 else 0)"
    "syslog_wait (sy_pc s) (syslog_act inet_pton config (EndClient i) s) \<le> syslog_wait (sy_pc s) s"
    "syslog_wait (sy_pc s) (s\<lparr>sy_clients := map (\<lambda>_. True) (sy_clients s)\<rparr>) \<le> syslog_wait (sy_pc s) s - (if sy_pc s = JoinClients then 1 else 0)"
proof -
  have tcp: "sy_pc s = JoinClients \<Longrightarrow> joined_thread (sy_tcp s)" using assms(2) by (simp add: syslog_ok_def)
  show "syslog_wait (sy_pc s) (syslog_act inet_pton config (RunUdp a) s) \<le> syslog_wait (sy_pc s) s - (if sy_pc s = JoinUdp then 1 else 0)"
    using assms(1) run_thread_rank by (cases "sy_pc s") simp_all
  show "syslog_wait (sy_pc s) (syslog_act inet_pton config (RunTcp a) s) \<le> syslog_wait (sy_pc s) s - (if sy_pc s = JoinTcp then 1 else 0)"
    using assms(1) run_thread_rank tcp by (cases "sy_pc s") simp_all
  have "False \<in> set ((sy_clients s)[i := True]) \<Longrightarrow> False \<in> set (sy_clients s)"
    using set_update_subset_insert [of "sy_clients s" i True] by auto
  then show "syslog_wait (sy_pc s) (syslog_act inet_pton config (EndClient i) s) \<le> syslog_wait (sy_pc s) s"
    by (cases "sy_pc s") auto
  show "syslog_wait (sy_pc s) (s\<lparr>sy_clients := map (\<lambda>_. True) (sy_clients s)\<rparr>) \<le> syslog_wait (sy_pc s) s - (if sy_pc s = JoinClients then 1 else 0)"
    by (cases "sy_pc s") auto
qed

lemma web_wait_step:
  assumes "wl_pc s = WebIdle \<or> \<not> wl_running s"
  shows "web_wait (wl_pc s) (web_act inet_pton config (RunWeb a) s) \<le> web_wait (wl_pc s) s - (if wl_pc s = JoinWeb then 1 else 0)"
  using assms run_thread_rank by (cases "wl_pc s") simp_all

text \<open>Only one call is active at a time, so that only one summand of \<open>waits\<close> can be positive.\<close>

lemma waits_cases:
  assumes "process_ok t"
  shows "sy_pc (at_syslog t) \<noteq> SyslogIdle \<Longrightarrow> wl_pc (at_web t) = WebIdle \<and> at_pc t \<noteq> JoinCleanup"
    "wl_pc (at_web t) \<noteq> WebIdle \<Longrightarrow> sy_pc (at_syslog t) = SyslogIdle \<and> at_pc t \<noteq> JoinCleanup"
    "at_pc t = JoinCleanup \<Longrightarrow> sy_pc (at_syslog t) = SyslogIdle \<and> wl_pc (at_web t) = WebIdle \<and> \<not> at_running t"
    "sy_pc (at_syslog t) = SyslogIdle \<or> \<not> sy_running (at_syslog t)" "wl_pc (at_web t) = WebIdle \<or> \<not> wl_running (at_web t)"
  using process_facts [OF assms] unfolding syslog_idle_def web_idle_def by force+

lemma thread_action_waits:
  assumes ok: "process_ok t" and "act \<noteq> MainStep"
  shows "waits (app_act inet_pton config act t) \<le> waits t - (if awaited t act then 1 else 0)"
proof -
  note w = waits_cases [OF ok] and sw = syslog_wait_step [OF waits_cases(4) [OF ok] process_ok_syslog [OF ok]]
    and ww = web_wait_step [OF waits_cases(5) [OF ok]]
  show ?thesis
  proof (cases act)
    case (UdpStep a)
    then show ?thesis using sw(1) [of inet_pton config a] w(1) by (cases "sy_pc (at_syslog t) = JoinUdp") (simp_all add: waits_def)
  next
    case (TcpStep a)
    then show ?thesis using sw(2) [of inet_pton config a] w(1) by (cases "sy_pc (at_syslog t) = JoinTcp") (simp_all add: waits_def)
  next
    case (EndConnection i)
    then show ?thesis using sw(3) [of inet_pton config i] by (simp add: waits_def)
  next
    case EndConnections
    then show ?thesis using sw(4) w(1) by (cases "sy_pc (at_syslog t) = JoinClients") (simp_all add: waits_def)
  next
    case (HttpStep a)
    then show ?thesis using ww [of inet_pton config a] w(1,2) by (cases "wl_pc (at_web t) = JoinWeb") (auto simp: waits_def)
  next
    case CleanupStep
    then show ?thesis
      using cleanup_step_rank [of "at_cleanup t"] w by (cases "at_pc t = JoinCleanup") (auto simp: waits_def)
  qed (use assms in \<open>simp_all add: waits_def\<close>)
qed

section \<open>Progress\<close>

text \<open>The distance of the process from its end.\<close>

definition distance :: "AppThreads \<Rightarrow> nat \<times> nat" where
  "distance t = (main_rank (at_main t) t, waits t)"

lemma app_run_simps [simp]:
  "app_run inet_pton config [] t = t"
  "app_run inet_pton config (act # acts) t = app_run inet_pton config acts (app_act inet_pton config act t)"
  "app_run inet_pton config (acts @ acts') t = app_run inet_pton config acts' (app_run inet_pton config acts t)"
  by (simp_all add: app_run_def)

lemma app_run_ok: "process_ok t \<Longrightarrow> process_ok (app_run inet_pton config acts t)"
  by (induction acts arbitrary: t) (simp_all add: app_act_ok)

lemma app_run_requested: "at_requested t \<Longrightarrow> at_requested (app_run inet_pton config acts t)"
  by (induction acts arbitrary: t) (simp_all add: app_act_requested)

lemma app_act_distance:
  assumes "process_ok t" "at_requested t" "at_main t \<noteq> Returned"
  shows "distance (app_act inet_pton config act t) \<le> distance t"
    and "waits t = 0 \<Longrightarrow> act = MainStep \<Longrightarrow> distance (app_act inet_pton config act t) < distance t"
    and "0 < waits t \<Longrightarrow> awaited t act \<Longrightarrow> distance (app_act inet_pton config act t) < distance t"
    and "act \<noteq> MainStep \<or> 0 < waits t \<Longrightarrow> awaited (app_act inet_pton config act t) = awaited t"
proof -
  have main: "waits t = 0 \<Longrightarrow> distance (main_step (at_main t) t) < distance t"
    using main_step_rank [OF assms(1) _ assms(2,3)] by (simp add: distance_def less_prod_def)
  have wait: "0 < waits t \<Longrightarrow> main_step (at_main t) t = t" using main_step_waits [OF assms(1)] .
  have thread: "act \<noteq> MainStep \<Longrightarrow> waits (app_act inet_pton config act t) \<le> waits t - (if awaited t act then 1 else 0)"
    using thread_action_waits [OF assms(1)] .
  note rank = thread_action_rank [of act inet_pton config t]
  show "distance (app_act inet_pton config act t) \<le> distance t"
  proof (cases "act = MainStep")
    case True
    then show ?thesis using main wait by (cases "waits t = 0") (simp_all add: less_imp_le)
  next
    case False
    then show ?thesis using thread rank by (auto simp: distance_def less_eq_prod_def split: if_splits)
  qed
  show "waits t = 0 \<Longrightarrow> act = MainStep \<Longrightarrow> distance (app_act inet_pton config act t) < distance t" using main by simp
  show "0 < waits t \<Longrightarrow> awaited t act \<Longrightarrow> distance (app_act inet_pton config act t) < distance t"
    using thread rank by (cases "act = MainStep") (auto simp: distance_def less_prod_def)
  show "act \<noteq> MainStep \<or> 0 < waits t \<Longrightarrow> awaited (app_act inet_pton config act t) = awaited t"
    using wait awaited_cong [OF thread_action_frame(3,4,2)] by (cases "act = MainStep") auto
qed

text \<open>A round in which every thread makes a step, in any order and with any other steps.\<close>

definition fair_round :: "app_action list \<Rightarrow> bool" where
  "fair_round acts \<longleftrightarrow> MainStep \<in> set acts \<and> EndConnections \<in> set acts \<and> CleanupStep \<in> set acts \<and>
     (\<exists>a. UdpStep a \<in> set acts) \<and> (\<exists>a. TcpStep a \<in> set acts) \<and> (\<exists>a. HttpStep a \<in> set acts)"

lemma Returned_stays: "at_main t = Returned \<Longrightarrow> at_main (app_run inet_pton config acts t) = Returned"
proof (induction acts arbitrary: t)
  case (Cons act acts)
  have "at_main (app_act inet_pton config act t) = Returned"
    using Cons.prems thread_action_frame(1) [of act inet_pton config t] by (cases "act = MainStep") simp_all
  then show ?case using Cons.IH by simp
qed simp

lemma fair_round_awaited:
  assumes "fair_round acts" "process_ok t" "0 < waits t"
  shows "\<exists>act \<in> set acts. awaited t act"
proof -
  consider "sy_pc (at_syslog t) = JoinUdp" | "sy_pc (at_syslog t) = JoinTcp" | "sy_pc (at_syslog t) = JoinClients"
    | "wl_pc (at_web t) = JoinWeb" | "at_pc t = JoinCleanup"
    using assms(3) by (cases "sy_pc (at_syslog t)"; cases "wl_pc (at_web t)"; auto simp: waits_def split: if_splits)
  then show ?thesis using assms(1) unfolding fair_round_def by cases (metis awaited.simps)+
qed

lemma app_run_distance:
  assumes "process_ok t" "at_requested t" "at_main (app_run inet_pton config acts t) \<noteq> Returned"
  shows "distance (app_run inet_pton config acts t) \<le> distance t"
  using assms
proof (induction acts arbitrary: t)
  case (Cons act acts)
  let ?t = "app_act inet_pton config act t"
  have "at_main t \<noteq> Returned" using Cons.prems(3) Returned_stays [of t inet_pton config "act # acts"] by blast
  note d = app_act_distance(1) [OF Cons.prems(1,2) this]
  have "distance (app_run inet_pton config acts ?t) \<le> distance ?t"
    using Cons.IH [OF app_act_ok [OF Cons.prems(1)] app_act_requested [OF Cons.prems(2)]] Cons.prems(3) by simp
  also note d
  finally show ?case by simp
qed simp

lemma app_run_progress:
  assumes "process_ok t" "at_requested t" "at_main (app_run inet_pton config acts t) \<noteq> Returned"
    and "if 0 < waits t then \<exists>act \<in> set acts. awaited t act else MainStep \<in> set acts"
  shows "distance (app_run inet_pton config acts t) < distance t"
  using assms
proof (induction acts arbitrary: t)
  case Nil
  then show ?case by (simp split: if_splits)
next
  case (Cons act acts)
  let ?t = "app_act inet_pton config act t" and ?u = "app_run inet_pton config (act # acts) t"
  have "at_main t \<noteq> Returned" using Cons.prems(3) Returned_stays [of t inet_pton config "act # acts"] by blast
  note d = app_act_distance [OF Cons.prems(1,2) this, where act = act and inet_pton = inet_pton and config = config]
  note t = app_act_ok [OF Cons.prems(1)] app_act_requested [OF Cons.prems(2)]
  have u: "distance ?u \<le> distance ?t" using app_run_distance [OF t] Cons.prems(3) by simp
  have step: "distance ?u < distance t" if "distance ?t < distance t" using u that by (rule le_less_trans)
  have rest: "distance ?u < distance t"
    if "if 0 < waits ?t then \<exists>act \<in> set acts. awaited ?t act else MainStep \<in> set acts"
    using Cons.IH [OF t _ that] Cons.prems(3) d(1) by (simp add: order.strict_trans2)
  show ?case
  proof (cases "act = MainStep")
    case True
    then show ?thesis using step d(2) rest d(4) main_step_waits [OF Cons.prems(1)] Cons.prems(4)
      by (cases "0 < waits t") auto
  next
    case False
    have w: "waits ?t \<le> waits t - (if awaited t act then 1 else 0)" by (rule thread_action_waits [OF Cons.prems(1) False])
    have "waits ?t < waits t \<Longrightarrow> distance ?t < distance t"
      using thread_action_rank [OF False] by (simp add: distance_def less_prod_def)
    moreover have "awaited ?t = awaited t" using d(4) False by blast
    ultimately show ?thesis using step d(3) rest w False Cons.prems(4)
      by (cases "0 < waits t"; cases "waits ?t < waits t") (auto split: if_splits)
  qed
qed

lemma run_returns:
  assumes "process_ok t" "at_requested t" "\<And>k. fair_round (rounds k)"
  shows "\<exists>n. at_main (app_run inet_pton config (concat (map rounds [0..<n])) t) = Returned"
  using assms
proof (induction "distance t" arbitrary: t rounds rule: less_induct)
  case less
  let ?t = "app_run inet_pton config (rounds 0) t"
  show ?case
  proof (cases "at_main ?t = Returned")
    case True
    then show ?thesis by (intro exI [of _ 1]) simp
  next
    case False
    have "distance ?t < distance t"
      using fair_round_awaited [OF less.prems(3) less.prems(1)] less.prems(3) [of 0]
      by (intro app_run_progress [OF less.prems(1,2) False]) (simp add: fair_round_def)
    from less.hyps [OF this app_run_ok [OF less.prems(1)] app_run_requested [OF less.prems(2)], of "\<lambda>k. rounds (Suc k)"]
    obtain n where "at_main (app_run inet_pton config (concat (map (\<lambda>k. rounds (Suc k)) [0..<n])) ?t) = Returned"
      using less.prems(3) by blast
    then show ?thesis by (intro exI [of _ "Suc n"]) (simp add: upt_conv_Cons map_Suc_upt [symmetric] comp_def del: upt_Suc)
  qed
qed

text \<open>
  C8: After a signal the program ends: from every reachable state in which the signal has arrived, in every
  infinite run in which each thread goes on making steps and the connections end, and whatever the system calls
  answer, \<^verbatim>\<open>main\<close> returns.
\<close>

theorem main_returns:
  assumes "reach (\<lambda>t. t = app_started config) (\<lambda>t u. \<exists>act. u = app_act inet_pton config act t) t"
    and "at_requested t" "\<And>k. fair_round (rounds k)"
  shows "\<exists>n. at_main (app_run inet_pton config (concat (map rounds [0..<n])) t) = Returned"
  using run_returns [OF process.reach_inv [OF assms(1)] assms(2,3)] .

text \<open>A schedule that serves the threads in turn, from a state in which the signal has just arrived.\<close>

definition sample_answer :: answer where
  "sample_answer = \<lparr>an_fd = 5, an_ok = True, an_peer = ''10.0.0.1''\<rparr>"

definition sample_round :: "app_action list" where
  "sample_round = [UdpStep sample_answer, TcpStep sample_answer, HttpStep sample_answer, EndConnections, CleanupStep, MainStep]"

lemma sample_round_fair: "fair_round sample_round"
  by (auto simp: fair_round_def sample_round_def)

theorem main_returns_witness:
  "\<exists>n. at_main (app_run (\<lambda>_. None) default_config (concat (map (\<lambda>_. sample_round) [0..<n]))
     (app_act (\<lambda>_. None) default_config Signal (app_started default_config))) = Returned"
proof -
  have "reach (\<lambda>t. t = app_started default_config) (\<lambda>t u. \<exists>act. u = app_act (\<lambda>_. None) default_config act t)
      (app_act (\<lambda>_. None) default_config Signal (app_started default_config))"
    by (rule reach.step, rule reach.init) blast+
  from main_returns [OF this _ sample_round_fair] show ?thesis by simp
qed

lemma reach_app_run:
  "reach (\<lambda>t. t = app_started config) (\<lambda>t u. \<exists>act. u = app_act inet_pton config act t)
     (app_run inet_pton config acts (app_started config))"
proof (induction acts rule: rev_induct)
  case (snoc act acts)
  then show ?case using reach.step by (metis (mono_tags, lifting) app_run_simps)
qed (auto intro: reach.init)


section \<open>What outlives the program\<close>

text \<open>Steps after which the number of handled requests is the same.\<close>

fun quiet :: "app_action \<Rightarrow> bool" where
  "quiet (HttpStep a) = (\<not> an_ok a)"
| "quiet EndHandler = False"
| "quiet _ = True"

lemma app_act_quiet: "quiet act \<Longrightarrow> at_handlers (app_act inet_pton config act t) = at_handlers t"
proof -
  have "at_handlers (stop_step pc t) = at_handlers t" for pc t
    by (cases pc) (simp_all add: Let_def call_syslog_def call_web_def)
  then have "at_handlers (main_step m t) = at_handlers t" for m t
    by (cases m) (simp_all add: Let_def call_syslog_def call_web_def)
  then show "quiet act \<Longrightarrow> ?thesis" by (cases act) (simp_all add: accepts_def succeeds_def)
qed

lemma app_run_quiet: "list_all quiet acts \<Longrightarrow> at_handlers (app_run inet_pton config acts t) = at_handlers t"
  by (induction acts arbitrary: t) (simp_all add: app_act_quiet)

lemma many_requests:
  "\<exists>acts. at_handlers (app_run inet_pton default_config acts (app_started default_config)) = n"
proof -
  let ?a = "HttpStep \<lparr>an_fd = 5, an_ok = True, an_peer = []\<rparr>"
  define open_state where "open_state t \<longleftrightarrow> wl_running (at_web t) \<and> ln_pc (wl_listener (at_web t)) = Loop \<and>
    ln_fd (wl_listener (at_web t)) = 5 \<and> ln_open (wl_listener (at_web t)) = [5]" for t :: AppThreads
  define start where "start = app_run inet_pton default_config [?a, ?a, ?a] (app_started default_config)"
  have one: "open_state (app_run inet_pton default_config (replicate 6 ?a) t) \<and>
      at_handlers (app_run inet_pton default_config (replicate 6 ?a) t) = Suc (at_handlers t)" if "open_state t" for t
    using that by (simp add: open_state_def numeral_eq_Suc run_thread_def succeeds_def fd_check_def accepts_def)
  have "open_state start \<and> at_handlers start = 0"
    by (simp add: start_def open_state_def app_started_def run_defs default_http_address accepts_def)
  then have "\<exists>acts. open_state (app_run inet_pton default_config acts start) \<and> at_handlers (app_run inet_pton default_config acts start) = n" for n
  proof (induction n)
    case 0
    then show ?case by (intro exI [of _ "[]"]) simp
  next
    case (Suc n)
    then obtain acts where "open_state (app_run inet_pton default_config acts start)"
      "at_handlers (app_run inet_pton default_config acts start) = n" by blast
    with one show ?case by (intro exI [of _ "acts @ replicate 6 ?a"]) (simp del: replicate.simps)
  qed
  then show ?thesis unfolding start_def by (metis app_run_simps(3))
qed

text \<open>
  C37: Nobody waits for the detached threads of the web server: there are runs in which \<^verbatim>\<open>main\<close> has returned, and with
  it the application, its store and the web server are gone, while any number of requests are still being
  handled by threads that use them.
\<close>

theorem handlers_outlive_main:
  "\<exists>acts. at_main (app_run inet_pton default_config acts (app_started default_config)) = Returned \<and>
          at_handlers (app_run inet_pton default_config acts (app_started default_config)) = n"
proof -
  let ?no = "\<lparr>an_fd = 5, an_ok = False, an_peer = []\<rparr>"
  let ?round = "[UdpStep ?no, TcpStep ?no, HttpStep ?no, EndConnections, CleanupStep, MainStep]"
  obtain acts where acts: "at_handlers (app_run inet_pton default_config acts (app_started default_config)) = n"
    using many_requests by blast
  let ?t = "app_run inet_pton default_config (acts @ [Signal]) (app_started default_config)"
  have "\<exists>k. at_main (app_run inet_pton default_config (concat (map (\<lambda>_. ?round) [0..<k])) ?t) = Returned"
    by (rule run_returns [OF app_run_ok [OF app_started_ok]]) (auto simp: fair_round_def)
  then obtain k where "at_main (app_run inet_pton default_config (concat (map (\<lambda>_. ?round) [0..<k])) ?t) = Returned" by blast
  moreover have "list_all quiet (concat (map (\<lambda>_. ?round) [0..<k]))" by (simp add: list_all_iff)
  then have "at_handlers (app_run inet_pton default_config (concat (map (\<lambda>_. ?round) [0..<k])) ?t) = n"
    using acts by (simp only: app_run_quiet) simp
  ultimately show ?thesis
    by (intro exI [of _ "(acts @ [Signal]) @ concat (map (\<lambda>_. ?round) [0..<k])"]) (simp only: app_run_simps(3))
qed

section \<open>Waiting\<close>

text \<open>
  \<^verbatim>\<open>App::wait\<close> can miss the end: a thread that is blocked when the notification comes, or that evaluates the
  predicate after the flag was cleared, returns; but as the flag is cleared and the notification sent without
  the mutex, both can fall between the evaluation and the blocking, and then the thread waits forever unless
  the application is stopped again.
\<close>

theorem wait_can_miss_stop:
  "(\<exists>acts. wt_notified (wait_run acts) \<and> (\<forall>n. wt_pc (wait_run (acts @ replicate n WaitStep)) \<in> {WaitEnter, WaitBlocked})) \<and>
   (\<forall>acts. wt_pc (wait_run acts) = WaitBlocked \<longrightarrow>
      wt_pc (wait_run (acts @ [ClearRunning, NotifyAll, WaitStep])) = WaitReturned)"
proof (intro conjI allI impI)
  have "wt_pc (wait_run ([WaitStep, ClearRunning, NotifyAll] @ replicate n WaitStep)) \<in> {WaitEnter, WaitBlocked}" for n
    by (induction n) (auto simp: wait_run_def wait_start_def notify_all_def simp flip: replicate_append_same)
  then show "\<exists>acts. wt_notified (wait_run acts) \<and> (\<forall>n. wt_pc (wait_run (acts @ replicate n WaitStep)) \<in> {WaitEnter, WaitBlocked})"
    by (intro exI [of _ "[WaitStep, ClearRunning, NotifyAll]"]) (simp add: wait_run_def wait_start_def notify_all_def)
next
  fix acts
  assume "wt_pc (wait_run acts) = WaitBlocked"
  then show "wt_pc (wait_run (acts @ [ClearRunning, NotifyAll, WaitStep])) = WaitReturned"
    by (simp add: wait_run_def notify_all_def)
qed

end
