(* ===== verification/Collector.thy ===== *)
theory Collector
  imports Syslog_Server App_Properties
begin

text \<open>
  The scripts that run on the router, \<^verbatim>\<open>src/openwrt\<close>: what they send for a DHCP lease, for a line of the traffic
  accounting and for the counters of the WAN interface, how a message is sent, and when the loop runs which
  script. The tools they call are outside the model; what these print and whether they succeed are arguments.
  Words that the shell would expand as file name patterns are taken as they are.
\<close>

section \<open>The shell\<close>

text \<open>\<^verbatim>\<open>${x:-default}\<close>, where an unset variable is the empty text.\<close>

definition or_default :: "string \<Rightarrow> string \<Rightarrow> string" where
  "or_default x d = (if x = [] then d else x)"

text \<open>Splitting at the characters of \<^verbatim>\<open>IFS\<close>, within one line.\<close>

definition ifs :: "char \<Rightarrow> bool" where
  "ifs c \<longleftrightarrow> c = CHR '' '' \<or> c = CHR 0x09 \<or> c = CHR 0x0A"

function ifs_words :: "string \<Rightarrow> string list" where
  "ifs_words s =
     (let t = dropWhile ifs s
      in if t = [] then [] else takeWhile (\<lambda>c. \<not> ifs c) t # ifs_words (dropWhile (\<lambda>c. \<not> ifs c) t))"
  by pat_completeness auto
termination ifs_words
proof (relation "measure length")
  fix s t :: string
  assume t: "t = dropWhile ifs s" "t \<noteq> []"
  then have "\<not> ifs (hd t)" using hd_dropWhile [of ifs s] by simp
  then have "length (dropWhile (\<lambda>c. \<not> ifs c) t) < length t" using t(2) by (intro length_dropWhile_less)
  also have "\<dots> \<le> length s" by (simp add: t(1) length_dropWhile_le)
  finally show "(dropWhile (\<lambda>c. \<not> ifs c) t, s) \<in> measure length" by simp
qed simp

declare ifs_words.simps [simp del]

text \<open>The \<open>i\<close>-th word, empty when there is none: a variable of \<^verbatim>\<open>read\<close> other than the last, or \<^verbatim>\<open>${i:-}\<close>.\<close>

definition word_at :: "string list \<Rightarrow> nat \<Rightarrow> string" where
  "word_at ws i = (if i < length ws then ws ! i else [])"

section \<open>netmon-lib.sh\<close>

datatype transmission = Datagram string | Logger string string

record send_env =
  se_mode :: string
  se_server_ip :: string
  se_nc :: bool
  se_nc_ok :: bool

definition netmon_send :: "send_env \<Rightarrow> string \<Rightarrow> string \<Rightarrow> transmission list" where
  "netmon_send env tag message =
     (let m = or_default (se_mode env) ''direct'';
          tried = (m \<noteq> ''syslog'' \<and> se_server_ip env \<noteq> [] \<and> se_nc env);
          sent = (tried \<and> se_nc_ok env)
      in (if tried then [Datagram (''<13>'' @ tag @ '': '' @ message @ [CHR 0x0A])] else []) @
         (if m = ''syslog'' \<or> m = ''both'' \<or> \<not> sent then [Logger tag message] else []))"

section \<open>netmon-devices.sh\<close>

text \<open>\<open>neigh ip\<close> is the last word of the first line that \<^verbatim>\<open>ip neigh show\<close> prints for an address.\<close>

definition lease_fields :: "string \<Rightarrow> (string \<Rightarrow> string) \<Rightarrow> string list \<Rightarrow> (string \<times> string) list" where
  "lease_fields now neigh ws =
     [(''ts'', now), (''mac'', word_at ws 1), (''ip'', word_at ws 2), (''host'', or_default (word_at ws 3) ''unknown''),
      (''lease_expiry'', word_at ws 0), (''neigh'', or_default (neigh (word_at ws 2)) ''unknown'')]"

definition report_lease :: "string \<Rightarrow> (string \<Rightarrow> string) \<Rightarrow> string \<Rightarrow> (string \<times> string) option" where
  "report_lease now neigh line =
     (let ws = ifs_words line
      in if word_at ws 1 = [] \<or> word_at ws 2 = [] then None
         else Some (''NETDEV'', render_fields (lease_fields now neigh ws)))"

definition netmon_devices :: "send_env \<Rightarrow> string \<Rightarrow> (string \<Rightarrow> string) \<Rightarrow> string list option \<Rightarrow> transmission list" where
  "netmon_devices env now neigh leases =
     (case leases of
        None \<Rightarrow> []
      | Some ls \<Rightarrow> concat (map (\<lambda>(tag, message). netmon_send env tag message) (List.map_filter (report_lease now neigh) ls)))"

section \<open>netmon-traffic.sh\<close>

text \<open>The pattern \<^verbatim>\<open>*[!0-9:]*|:|*:|:*\<close> on the two counters joined by a colon.\<close>

definition counters_bad :: "string \<Rightarrow> string \<Rightarrow> bool" where
  "counters_bad rx tx =
     (let s = rx @ CHR '':'' # tx
      in list_ex (\<lambda>c. \<not> isdigit c \<and> c \<noteq> CHR '':'') s \<or> s = '':'' \<or> last s = CHR '':'' \<or> hd s = CHR '':'')"

definition normalized :: "string \<Rightarrow> string" where
  "normalized line = map (\<lambda>c. if c = CHR '','' \<or> c = CHR '';'' then CHR '' '' else c) line"

definition traffic_fields :: "string \<Rightarrow> string list \<Rightarrow> (string \<times> string) list" where
  "traffic_fields now ws =
     [(''ts'', now), (''mac'', word_at ws 0), (''rx_bytes'', word_at ws 2), (''tx_bytes'', word_at ws 4),
      (''rx_pkts'', word_at ws 3), (''tx_pkts'', word_at ws 5), (''conns'', word_at ws 1)]"

definition report_traffic :: "string \<Rightarrow> string \<Rightarrow> (string \<times> string) option" where
  "report_traffic now line =
     (let ws = ifs_words (normalized line); first = word_at ws 0;
          as_csv = Some (''NETTRAFFIC'', ''ts='' @ now @ '' csv='' @ line)
      in if line = [] then None
         else if first \<in> set [[], ''mac'', ''MAC'', ''family'', ''Family''] then None
         else if count_list first (CHR '':'') < 5 then as_csv
         else if counters_bad (word_at ws 2) (word_at ws 4) then as_csv
         else Some (''NETTRAFFIC'', render_fields (traffic_fields now ws)))"

definition netmon_traffic :: "send_env \<Rightarrow> string \<Rightarrow> string list option \<Rightarrow> transmission list" where
  "netmon_traffic env now nlbw =
     (case nlbw of
        None \<Rightarrow> []
      | Some ls \<Rightarrow> concat (map (\<lambda>(tag, message). netmon_send env tag message) (List.map_filter (report_traffic now) ls)))"

section \<open>netmon-iface.sh\<close>

record iface_env =
  if_wan_iface :: string
  if_iface :: string
  if_uci :: bool
  if_uci_device :: string
  if_uci_ifname :: string
  if_route_dev :: string

definition find_wan_iface :: "iface_env \<Rightarrow> string" where
  "find_wan_iface env =
     (if if_wan_iface env \<noteq> [] then if_wan_iface env
      else if if_iface env \<noteq> [] then if_iface env
      else if if_uci env \<and> if_uci_device env \<noteq> [] then if_uci_device env
      else if if_uci env \<and> if_uci_ifname env \<noteq> [] then if_uci_ifname env
      else if if_route_dev env \<noteq> [] then if_route_dev env
      else ''pppoe-wan'')"

definition netmon_iface :: "send_env \<Rightarrow> iface_env \<Rightarrow> string \<Rightarrow> (string \<Rightarrow> (string \<times> string) option) \<Rightarrow> transmission list" where
  "netmon_iface env ienv now counters =
     (let iface = find_wan_iface ienv
      in case counters iface of
           None \<Rightarrow> []
         | Some (rx, tx) \<Rightarrow>
             if counters_bad rx tx then []
             else netmon_send env ''NETIFACE''
                    (render_fields [(''ts'', now), (''if'', iface), (''rx_bytes'', rx), (''tx_bytes'', tx)]))"

section \<open>netmon-collector-loop.sh\<close>

definition normalize_interval :: "string \<Rightarrow> string \<Rightarrow> string" where
  "normalize_interval value fallback =
     (let v = (if value = [] \<or> list_ex (\<lambda>c. \<not> isdigit c) value then fallback else value)
      in if nat_of_digits v < 1 then fallback else v)"

datatype script = Iface | Devices | Traffic

record loop_env =
  le_arg :: string
  le_interval :: string
  le_iface_interval :: string
  le_devices_interval :: string
  le_traffic_interval :: string
  le_executable :: "script \<Rightarrow> bool"

definition interval :: "loop_env \<Rightarrow> script \<Rightarrow> nat" where
  "interval env s =
     (let d = or_default (le_arg env) (or_default (le_interval env) ''5'')
      in nat_of_digits
           (case s of
              Iface \<Rightarrow> normalize_interval (or_default (le_iface_interval env) ''1'') ''1''
            | Devices \<Rightarrow> normalize_interval (or_default (le_devices_interval env) d) ''5''
            | Traffic \<Rightarrow> normalize_interval (or_default (le_traffic_interval env) d) ''1''))"

text \<open>One iteration of the loop: the scripts that run at \<open>now\<close>, and when each one ran last.\<close>

definition due :: "loop_env \<Rightarrow> (script \<Rightarrow> int) \<Rightarrow> int \<Rightarrow> script \<Rightarrow> bool" where
  "due env last_run now s \<longleftrightarrow> le_executable env s \<and> int (interval env s) \<le> now - last_run s"

definition loop_round :: "loop_env \<Rightarrow> int \<Rightarrow> (script \<Rightarrow> int) \<Rightarrow> script list \<times> (script \<Rightarrow> int)" where
  "loop_round env now last_run =
     (filter (due env last_run now) [Iface, Devices, Traffic], (\<lambda>s. if due env last_run now s then now else last_run s))"

fun loop_run :: "loop_env \<Rightarrow> (script \<Rightarrow> int) \<Rightarrow> int list \<Rightarrow> (int \<times> script) list" where
  "loop_run env last_run [] = []"
| "loop_run env last_run (now # nows) =
     (let (ran, last_run') = loop_round env now last_run
      in map (Pair now) ran @ loop_run env last_run' nows)"

end
