(* ===== verification/Collector_Properties.thy ===== *)
theory Collector_Properties
  imports Collector
begin

text \<open>
  From the router to the server: the collector loop keeps its schedule, a message is sent on some way, and what the
  scripts report of a lease or of the traffic accounting reaches the store with the values that were read.
\<close>

section \<open>The schedule\<close>

lemma normalize_interval_positive:
  assumes "0 < nat_of_digits fallback"
  shows "0 < nat_of_digits (normalize_interval value fallback)"
  using assms by (auto simp: normalize_interval_def Let_def)

lemma interval_positive: "1 \<le> interval env s"
proof -
  have "0 < nat_of_digits ''1''" "0 < nat_of_digits ''5''" by code_simp+
  then show ?thesis unfolding interval_def Let_def
    by (cases s) (simp_all add: Suc_le_eq normalize_interval_positive)
qed

text \<open>The times at which a script runs.\<close>

definition run_times :: "loop_env \<Rightarrow> (script \<Rightarrow> int) \<Rightarrow> int list \<Rightarrow> script \<Rightarrow> int list" where
  "run_times env last_run nows s = map fst (filter (\<lambda>r. snd r = s) (loop_run env last_run nows))"

lemma run_times_Nil [simp]: "run_times env last_run [] s = []"
  by (simp add: run_times_def)

lemma run_times_Cons:
  "run_times env last_run (now # nows) s =
     (if due env last_run now s then [now] else []) @
     run_times env (\<lambda>s. if due env last_run now s then now else last_run s) nows s"
proof -
  have "map fst (filter (\<lambda>r. snd r = s) (map (Pair now) (filter (due env last_run now) [Iface, Devices, Traffic]))) =
      (if due env last_run now s then [now] else [])"
    by (cases s) auto
  then show ?thesis by (simp add: run_times_def loop_round_def)
qed

lemma run_times_spaced: "sorted_wrt (\<lambda>a b. a + int (interval env s) \<le> b) (last_run s # run_times env last_run nows s)"
proof (induction nows arbitrary: last_run)
  case (Cons now nows)
  let ?last = "\<lambda>s. if due env last_run now s then now else last_run s"
  have IH: "sorted_wrt (\<lambda>a b. a + int (interval env s) \<le> b) (?last s # run_times env ?last nows s)" by (rule Cons.IH)
  show ?case
  proof (cases "due env last_run now s")
    case True
    then have "last_run s + int (interval env s) \<le> now" by (simp add: due_def)
    then show ?thesis using IH True by (auto simp: run_times_Cons)
  next
    case False
    then show ?thesis using IH by (simp add: run_times_Cons)
  qed
qed simp

lemma run_times_complete:
  assumes "le_executable env s"
  shows "now \<in> set (run_times env last_run (xs @ now # ys) s) \<or>
    (\<exists>t \<in> set (last_run s # run_times env last_run xs s). now < t + int (interval env s))"
proof (induction xs arbitrary: last_run)
  case Nil
  show ?case using assms by (auto simp: run_times_Cons due_def)
next
  case (Cons x xs)
  from Cons.IH [of "\<lambda>s. if due env last_run x s then x else last_run s"] show ?case
    by (auto simp: run_times_Cons split: if_splits)
qed

text \<open>
  C24: The loop of the collector keeps its schedule whatever the clock does: the intervals are at least one
  second whatever the settings are; two runs of a script, and the first run and the start value, are at least
  its interval apart; and a script that does not run at some iteration, although it can be executed, ran less
  than its interval before.
\<close>

theorem collector_schedule:
  assumes "le_executable env s" "nows = xs @ now # ys"
  shows "1 \<le> interval env s \<and>
    sorted_wrt (\<lambda>a b. a + int (interval env s) \<le> b) (last_run s # run_times env last_run nows s) \<and>
    (now \<in> set (run_times env last_run nows s) \<or>
     (\<exists>t \<in> set (last_run s # run_times env last_run xs s). now < t + int (interval env s)))"
  using interval_positive run_times_spaced run_times_complete [OF assms(1)] assms(2) by blast

definition sample_loop :: loop_env where
  "sample_loop = \<lparr>le_arg = [], le_interval = ''abc'', le_iface_interval = [], le_devices_interval = ''3'',
     le_traffic_interval = [], le_executable = (\<lambda>_. True)\<rparr>"

theorem collector_schedule_witness:
  "interval sample_loop Traffic = 1 \<and> run_times sample_loop (\<lambda>_. 0) [10, 11, 12, 13, 14] Devices = [10, 13] \<and>
   sorted_wrt (\<lambda>a b. a + int (interval sample_loop Devices) \<le> b)
     (0 # run_times sample_loop (\<lambda>_. 0) [10, 11, 12, 13, 14] Devices)"
proof -
  have "le_executable sample_loop Devices" "[10, 11, 12, 13, 14] = [] @ 10 # [11, 12, 13, 14 :: int]"
    by (simp_all add: sample_loop_def)
  from collector_schedule [OF this, of "\<lambda>_. 0"]
  have "sorted_wrt (\<lambda>a b. a + int (interval sample_loop Devices) \<le> b)
     (0 # run_times sample_loop (\<lambda>_. 0) [10, 11, 12, 13, 14] Devices)" by simp
  moreover have "interval sample_loop Traffic = 1" by code_simp
  moreover have "run_times sample_loop (\<lambda>_. 0) [10, 11, 12, 13, 14] Devices = [10, 13]" by code_simp
  ultimately show ?thesis by simp
qed

section \<open>Sending\<close>

lemma netmon_send_direct:
  assumes "or_default (se_mode env) ''direct'' = ''direct''" "se_server_ip env \<noteq> []" "se_nc env" "se_nc_ok env"
  shows "netmon_send env tag message = [Datagram (''<13>'' @ tag @ '': '' @ message @ [CHR 0x0A])]"
  using assms by (simp add: netmon_send_def Let_def)

text \<open>
  No message is dropped without a trace: in every mode at least one transmission is made, and more than one
  only in mode \<^verbatim>\<open>both\<close> or when \<^verbatim>\<open>nc\<close> reported a failure.
\<close>

theorem netmon_send_some:
  "1 \<le> length (netmon_send env tag message) \<and>
   (2 \<le> length (netmon_send env tag message) \<longleftrightarrow>
      or_default (se_mode env) ''direct'' \<noteq> ''syslog'' \<and> se_server_ip env \<noteq> [] \<and> se_nc env \<and>
      (or_default (se_mode env) ''direct'' = ''both'' \<or> \<not> se_nc_ok env))"
  by (simp add: netmon_send_def Let_def)

section \<open>From the router to the server\<close>

text \<open>A word that is sent without quotes and read back as it is.\<close>

definition plain_word :: "string \<Rightarrow> bool" where
  "plain_word w \<longleftrightarrow> list_all (\<lambda>c. \<not> isspace c \<and> c \<noteq> CHR 0x00) w \<and> (w = [] \<or> hd w \<noteq> dquote \<and> hd w \<noteq> squote)"

lemma plain_pair_word: "plain_word v \<Longrightarrow> list_all kv_key_char k \<Longrightarrow> k \<noteq> ''csv'' \<Longrightarrow> plain_pair (k, v)"
  by (auto simp: plain_pair_def plain_word_def list_all_iff)

lemma render_fields_last:
  assumes "kvs \<noteq> []" "\<And>k v. (k, v) \<in> set kvs \<Longrightarrow> plain_word v"
  shows "render_fields kvs \<noteq> []" "\<not> isspace (last (render_fields kvs))" "last (render_fields kvs) \<noteq> CHR 0x00"
proof -
  have pair: "render_pair p \<noteq> [] \<and> \<not> isspace (last (render_pair p)) \<and> last (render_pair p) \<noteq> CHR 0x00"
    if "plain_word (snd p)" for p
    using that by (cases "snd p" rule: rev_cases) (auto simp: render_pair_def plain_word_def)
  have "render_fields kvs \<noteq> [] \<and> \<not> isspace (last (render_fields kvs)) \<and> last (render_fields kvs) \<noteq> CHR 0x00"
    using assms
  proof (induction kvs)
    case (Cons p kvs)
    moreover have "plain_word (snd p)" using Cons.prems(2) [of "fst p" "snd p"] by simp
    moreover have "kvs \<noteq> [] \<Longrightarrow> render_fields (p # kvs) = render_pair p @ CHR '' '' # render_fields kvs"
      by (cases kvs) (simp_all add: render_fields_def)
    ultimately show ?case using pair [of p] by (cases "kvs = []") (auto simp: render_fields_def)
  qed simp
  then show "render_fields kvs \<noteq> []" "\<not> isspace (last (render_fields kvs))" "last (render_fields kvs) \<noteq> CHR 0x00" by auto
qed

text \<open>A datagram of the collector is accepted and handed on without its line end.\<close>

lemma datagram_received:
  assumes "message \<noteq> []" "\<not> isspace (last message)" "last message \<noteq> CHR 0x00"
    and "max_syslog_line_length config + 1 \<noteq> 0" "shouldAccept config ip"
    and "length tag + length message + 7 \<le> unat (max_syslog_line_length config)"
  shows "udp_receive config (''<13>'' @ tag @ '': '' @ message @ [CHR 0x0A], ip) = Some (''<13>'' @ tag @ '': '' @ message, ip)"
proof -
  obtain m c where m: "message = m @ [c]" using assms(1) by (cases message rule: rev_cases) simp
  have c: "c \<noteq> CHR 0x0A" "c \<noteq> CHR 0x0D" "c \<noteq> CHR 0x00" using assms(2,3) by (auto simp: m isspace_def)
  show ?thesis
    using udp_receive_iff [OF assms(4)] assms(5,6) c by (simp add: m Let_def)
qed

text \<open>The parser sees the text after the priority.\<close>

lemma strip_priority_tag:
  assumes "text \<noteq> []" "\<not> isspace (hd text)" "\<not> isspace (last text)"
  shows "stripSyslogPriority (''<13>'' @ text) = text"
proof -
  have "trim (''<13>'' @ text) = ''<13>'' @ text" using assms(1,3) by (intro trim_id) (simp_all add: isspace_def)
  moreover have "trim text = text" using assms by (rule trim_id)
  ultimately show ?thesis by (simp add: stripSyslogPriority_def)
qed

lemma strip_plain:
  assumes "text \<noteq> []" "\<not> isspace (hd text)" "\<not> isspace (last text)" "hd text \<noteq> CHR ''<''"
  shows "stripSyslogPriority text = text"
  using trim_id [OF assms(1-3)] assms(4) by (simp add: stripSyslogPriority_def Let_def)

lemma parse_strip: "stripSyslogPriority a = stripSyslogPriority b \<Longrightarrow> parse a = parse b"
  by (simp add: parse_def)

lemma matched_type: "pr_type (parse line) \<noteq> ''unknown'' \<Longrightarrow> pr_matched (parse line)"
  by (cases rule: parse_cases [of line]) (auto simp: no_result_def)

lemma parse_netdev_datagram:
  assumes "list_all plain_pair kvs" "kvs \<noteq> []" "\<not> contains_str ''WAN_ATTACK:'' (''NETDEV'' @ '': '' @ render_fields kvs)"
  shows "pr_type (parse (''<13>'' @ ''NETDEV'' @ '': '' @ render_fields kvs)) = ''netdev''
    \<and> (\<forall>k. dget (pr_fields (parse (''<13>'' @ ''NETDEV'' @ '': '' @ render_fields kvs))) k =
         (if k = ''mac'' then map_option lower (map_of (rev kvs) ''mac'')
          else if k = ''hostname'' \<and> map_of (rev kvs) ''host'' \<noteq> None then map_of (rev kvs) ''host''
          else map_of (rev kvs) k))"
proof -
  let ?text = "''NETDEV'' @ '': '' @ render_fields kvs"
  have ends: "?text \<noteq> []" "\<not> isspace (hd ?text)" "\<not> isspace (last ?text)" "hd ?text \<noteq> CHR ''<''"
    using render_fields_ends [OF assms(1,2)] by (simp_all add: isspace_def)
  have strip: "stripSyslogPriority ?text = ?text" by (rule strip_plain [OF ends])
  then have "parse (''<13>'' @ ?text) = parse ?text"
    by (intro parse_strip) (simp only: strip_priority_tag [OF ends(1-3)])
  moreover have "\<not> contains_str ''NETDEV'' []" by (simp add: contains_str_def)
  note parse_netdev_line [of ?text "[]", OF _ assms(1,2) this strip assms(3)]
  ultimately show ?thesis by simp
qed

lemma findKey_cong:
  "st_devices s = st_devices t \<Longrightarrow> st_ip_to_key s = st_ip_to_key t \<Longrightarrow> findKeyLocked s mac ip = findKeyLocked t mac ip"
  unfolding findKeyLocked_def find_by_ip_def by (simp only:)

lemma addEvent_index [simp]: "st_ip_to_key (addEvent clk e s) = st_ip_to_key s"
  by (auto simp: addEvent_def pushEventLocked_def nextEventId_def Let_def split: prod.split)

text \<open>What a device report does to the devices.\<close>

lemma handleLog_netdev:
  assumes "pr_type (parse line) = ''netdev''"
  obtains clk' ts where
    "st_devices (ap_state (handleLog clk line peer app)) =
       st_devices (updateDevice clk' (netdev_device (parse line) ts) (snd (nextEventId (ap_state app))))"
    "st_ip_to_key (ap_state (handleLog clk line peer app)) =
       st_ip_to_key (updateDevice clk' (netdev_device (parse line) ts) (snd (nextEventId (ap_state app))))"
proof -
  have "pr_matched (parse line)" using assms by (intro matched_type) simp
  then show thesis
    using assms that [of "clock_from 2 clk" "tsFromFields (clk 1) (parse line)"]
    unfolding handleLog_def applyParseResult_def count_message_def apply_netdev_def device_report_def call_defs Let_def makeEvent_split
    by (simp add: event_frame)
qed



section \<open>Traffic counters\<close>

lemma handleLog_nettraffic:
  assumes "pr_type (parse line) = ''nettraffic''" "has_counters (parse line)"
  obtains clk' clk'' e ts where
    "ap_state (handleLog clk line peer app) = addEvent clk'' e (updateTraffic clk'
       \<lparr>ts_mac = fieldOr (parse line) ''mac'' [], ts_ip = fieldOr (parse line) ''ip'' [], ts_ts = ts,
        ts_rx_bytes = parseUint64 (fieldOr (parse line) ''rx_bytes'' []) 0,
        ts_tx_bytes = parseUint64 (fieldOr (parse line) ''tx_bytes'' []) 0\<rparr> (snd (nextEventId (ap_state app))))"
proof -
  have "pr_matched (parse line)" using assms by (intro matched_type) simp
  then have "\<exists>clk' clk'' e ts. ap_state (handleLog clk line peer app) = addEvent clk'' e (updateTraffic clk'
       \<lparr>ts_mac = fieldOr (parse line) ''mac'' [], ts_ip = fieldOr (parse line) ''ip'' [], ts_ts = ts,
        ts_rx_bytes = parseUint64 (fieldOr (parse line) ''rx_bytes'' []) 0,
        ts_tx_bytes = parseUint64 (fieldOr (parse line) ''tx_bytes'' []) 0\<rparr> (snd (nextEventId (ap_state app))))"
    unfolding handleLog_def applyParseResult_def count_message_def apply_nettraffic_def call_defs Let_def makeEvent_split
    using assms by simp blast
  then show thesis using that by blast
qed

lemma parse_nettraffic_datagram:
  assumes "list_all plain_pair kvs" "kvs \<noteq> []"
    and "\<And>t. t \<in> set [''WAN_ATTACK:'', ''NETDEV'', ''NETIFACE''] \<Longrightarrow> \<not> contains_str t (''NETTRAFFIC'' @ '': '' @ render_fields kvs)"
  shows "pr_type (parse (''<13>'' @ ''NETTRAFFIC'' @ '': '' @ render_fields kvs)) = ''nettraffic''
    \<and> (\<forall>k. dget (pr_fields (parse (''<13>'' @ ''NETTRAFFIC'' @ '': '' @ render_fields kvs))) k =
         (if k = ''mac'' then map_option lower (map_of (rev kvs) ''mac'') else map_of (rev kvs) k))"
proof -
  let ?text = "''NETTRAFFIC'' @ '': '' @ render_fields kvs"
  have ends: "?text \<noteq> []" "\<not> isspace (hd ?text)" "\<not> isspace (last ?text)" "hd ?text \<noteq> CHR ''<''"
    using render_fields_ends [OF assms(1,2)] by (simp_all add: isspace_def)
  have strip: "stripSyslogPriority (''<13>'' @ ?text) = ?text" by (rule strip_priority_tag [OF ends(1-3)])
  have find: "find_str ''NETTRAFFIC'' ([] @ ?text) = Some (length ([] :: string))"
    by (rule find_str_first) (simp_all add: contains_str_def)
  then have has: "contains_str ''NETTRAFFIC'' ?text" by (simp add: contains_str_def)
  have no: "\<not> contains_str ''WAN_ATTACK:'' ?text" "\<not> contains_str ''NETDEV'' ?text" "\<not> contains_str ''NETIFACE'' ?text"
    using assms(3) [of "''WAN_ATTACK:''"] assms(3) [of "''NETDEV''"] assms(3) [of "''NETIFACE''"] by simp_all
  have parse: "parse (''<13>'' @ ?text) = (parseNetTraffic ?text)\<lparr>pr_raw := ?text\<rparr>"
    unfolding parse_def strip Let_def parsers_def
    using no has by (simp only: list.map find.simps parseWANAttack_def parseNetDev_def parseNetIface_def parseNetTraffic_def
        if_True if_False not_False_eq_True not_True_eq_False matched_simps Let_def option.case find_str_None [THEN iffD2])
  have "afterTag ?text ''NETTRAFFIC'' = render_fields kvs"
    using afterTag_render [OF assms(1,2), of "''NETTRAFFIC''" "[]"] find by (simp only: append.simps)
  then have m: "map_of (parseKeyValueFields (afterTag ?text ''NETTRAFFIC'')) = map_of (rev kvs)"
    using kv_loop_render [OF assms(1), of "[]"] by (simp add: parseKeyValueFields_def map_of_fold_dput)
  have "(k, v) \<in> set kvs \<Longrightarrow> k \<noteq> ''csv''" for k v using assms(1) by (auto simp: list_all_iff plain_pair_def)
  then have csv: "map_of (rev kvs) ''csv'' = None" by (force simp: map_of_eq_None_iff)
  have "parseNetTraffic t = matched ''nettraffic'' (lower_field ''mac'' (parseKeyValueFields (afterTag t ''NETTRAFFIC'')))"
    if "contains_str ''NETTRAFFIC'' t" "map_of (parseKeyValueFields (afterTag t ''NETTRAFFIC'')) = map_of (rev kvs)" for t
    using that csv by (simp add: parseNetTraffic_def Let_def dget_lower_field)
  from this [OF has m] have "pr_type (parseNetTraffic ?text) = ''nettraffic''"
    "pr_fields (parseNetTraffic ?text) = lower_field ''mac'' (parseKeyValueFields (afterTag ?text ''NETTRAFFIC''))"
    by (simp_all only: matched_simps)
  moreover have "pr_type (r\<lparr>pr_raw := x\<rparr>) = pr_type r" "pr_fields (r\<lparr>pr_raw := x\<rparr>) = pr_fields r" for r :: ParseResult and x
    by simp_all
  ultimately show ?thesis unfolding parse by (simp only: dget_lower_field m) simp
qed



end
