(* ===== verification/Dashboard.thy ===== *)
theory Dashboard
  imports Web_Protocol
begin

text \<open>
  The script of the dashboard, \<^verbatim>\<open>src/web/static/app.js\<close>: what it requests, how it keeps the answers, and the texts and
  numbers it shows. The answers are the JSON documents of the web server; the fields it reads as numbers and
  as texts are sent as such by the server and are taken so. The functions of the browser that depend on the locale are
  arguments. A number of the script is a double; where it writes a rounded number as a text, the text is that of an integer.
\<close>

section \<open>Values of the script\<close>

definition member_of :: "json \<Rightarrow> string \<Rightarrow> json option" where
  "member_of j k = (case j of JObject ps \<Rightarrow> map_of (rev ps) k | _ \<Rightarrow> None)"

text \<open>
  \<^verbatim>\<open>Number(v || 0)\<close> of a field with a number, read from its text as the server writes it; \<^verbatim>\<open>v || d\<close> of a field with a text, and \<^verbatim>\<open>!!v\<close>.
\<close>

definition num_or_0 :: "json option \<Rightarrow> double" where
  "num_or_0 v = (case v of Some (JNumber t) \<Rightarrow> fl (number_val t) | Some (JBool b) \<Rightarrow> if b then 1 else 0 | _ \<Rightarrow> 0)"

definition text_or :: "json option \<Rightarrow> string \<Rightarrow> string" where
  "text_or v d = (case v of Some (JString s) \<Rightarrow> if s = [] then d else s | _ \<Rightarrow> d)"

definition truthy :: "json option \<Rightarrow> bool" where
  "truthy v =
     (case v of
        None \<Rightarrow> False
      | Some (JString s) \<Rightarrow> s \<noteq> []
      | Some (JNumber t) \<Rightarrow> fl (number_val t) \<noteq> 0
      | Some (JBool b) \<Rightarrow> b
      | Some _ \<Rightarrow> True)"

definition math_round :: "double \<Rightarrow> int" where
  "math_round x = \<lfloor>x + 1 / 2\<rfloor>"

definition toFixed :: "nat \<Rightarrow> double \<Rightarrow> string" where
  "toFixed f x =
     (let m = show_nat (nat \<lfloor>\<bar>x\<bar> * 10 ^ f + 1 / 2\<rfloor>);
          ds = replicate (Suc f - length m) (CHR ''0'') @ m;
          body = (if f = 0 then m else take (length ds - f) ds @ CHR ''.'' # drop (length ds - f) ds)
      in if x < 0 then CHR ''-'' # body else body)"

section \<open>Requests\<close>

definition apiUrl :: "string \<Rightarrow> string \<Rightarrow> string" where
  "apiUrl token path =
     (if token = [] then path
      else path @ (if CHR ''?'' \<in> set path then ''&'' else ''?'') @ ''token='' @ encodeURIComponent token)"

definition itemsOf :: "json \<Rightarrow> json list" where
  "itemsOf payload =
     (case payload of
        JArray xs \<Rightarrow> xs
      | _ \<Rightarrow> (case member_of payload ''items'' of Some (JArray xs) \<Rightarrow> xs | _ \<Rightarrow> []))"

definition sourceQuery :: "string \<Rightarrow> string" where
  "sourceQuery src = ''source='' @ encodeURIComponent src"

definition fast_paths :: "string list" where
  "fast_paths = [''/api/summary'', ''/api/integrations'', ''/api/devices?source=live&limit=1000'']"

definition slow_paths :: "string \<Rightarrow> string list" where
  "slow_paths src =
     [''/api/events?'' @ sourceQuery src @ ''&limit=80'', ''/api/wan-attacks?'' @ sourceQuery src @ ''&limit=100'',
      ''/api/device-traffic-24h?limit=500'']"

section \<open>Texts\<close>

definition formatRate :: "double \<Rightarrow> string" where
  "formatRate rate =
     (if 1000000000 \<le> rate then toFixed 2 (fl (rate / 1000000000)) @ '' Gb/s''
      else if 1000000 \<le> rate then toFixed 2 (fl (rate / 1000000)) @ '' Mb/s''
      else if 1000 \<le> rate then toFixed 1 (fl (rate / 1000)) @ '' Kb/s''
      else show_int (math_round rate) @ '' b/s'')"

definition axisRate :: "double \<Rightarrow> string" where
  "axisRate rate =
     (if 1000000 \<le> rate then toFixed 0 (fl (rate / 1000000)) @ '' Mb/s''
      else if 1000 \<le> rate then show_int (math_round (fl (rate / 1000))) @ '' Kb/s''
      else show_int (math_round rate) @ '' b/s'')"

definition formatBytes :: "double \<Rightarrow> string" where
  "formatBytes bytes =
     (if 1000000000 \<le> bytes then toFixed 2 (fl (bytes / 1000000000)) @ '' GB''
      else if 1000000 \<le> bytes then toFixed 2 (fl (bytes / 1000000)) @ '' MB''
      else if 1000 \<le> bytes then toFixed 1 (fl (bytes / 1000)) @ '' KB''
      else show_int (math_round bytes) @ '' B'')"

text \<open>
  What the script uses of the browser: the milliseconds of a date, none for a text that is not a date, their texts in
  the locale, and the key by which the locale orders texts.
\<close>

record browser =
  br_date :: "string \<Rightarrow> int option"
  br_local :: "int \<Rightarrow> string"
  br_short :: "int \<Rightarrow> string"
  br_key :: "string \<Rightarrow> string"

definition formatTime :: "browser \<Rightarrow> string \<Rightarrow> string" where
  "formatTime br v = (if v = [] then ''Never'' else case br_date br v of None \<Rightarrow> v | Some t \<Rightarrow> br_local br t)"

definition formatAge :: "browser \<Rightarrow> int \<Rightarrow> string \<Rightarrow> string" where
  "formatAge br now v =
     (if v = [] then ''never''
      else case br_date br v of
             None \<Rightarrow> ''unknown''
           | Some t \<Rightarrow>
               let seconds = max 0 (math_round (fl (of_int (now - t) / 1000)));
                   minutes = \<lfloor>fl (of_int seconds / 60)\<rfloor>;
                   hours = \<lfloor>fl (of_int minutes / 60)\<rfloor>
               in if seconds < 60 then show_int seconds @ ''s ago''
                  else if minutes < 60 then show_int minutes @ ''m ago''
                  else show_int hours @ ''h ago'')"

definition shortTime :: "browser \<Rightarrow> string \<Rightarrow> string" where
  "shortTime br v = (case br_date br v of None \<Rightarrow> [] | Some t \<Rightarrow> br_short br t)"

definition displayName :: "json \<Rightarrow> string" where
  "displayName device =
     (let hostname = (if text_or (member_of device ''hostname'') [] \<noteq> ''*'' then text_or (member_of device ''hostname'') [] else [])
      in if hostname \<noteq> [] then hostname
         else text_or (member_of device ''ip'') (text_or (member_of device ''mac'') ''Unknown''))"

section \<open>The state\<close>

text \<open>A missing summary is the empty object.\<close>

definition knownDevices :: "json \<Rightarrow> double" where
  "knownDevices summ =
     fl (fl (fl (num_or_0 (member_of summ ''active_devices'') + num_or_0 (member_of summ ''idle_devices''))
           + num_or_0 (member_of summ ''offline_devices'')) + num_or_0 (member_of summ ''unknown_devices''))"

record sample =
  sa_ts :: int
  sa_rx :: double
  sa_tx :: double
  sa_clients :: double
  sa_total :: double

definition HISTORY_LIMIT :: nat where
  "HISTORY_LIMIT = 180"

definition live_sample :: "int \<Rightarrow> json \<Rightarrow> sample" where
  "live_sample now summ =
     (let rx = num_or_0 (member_of summ ''rx_rate_bps''); tx = num_or_0 (member_of summ ''tx_rate_bps'')
      in \<lparr>sa_ts = now, sa_rx = rx, sa_tx = tx, sa_clients = knownDevices summ, sa_total = fl (rx + tx)\<rparr>)"

definition addLiveSample :: "int \<Rightarrow> json \<Rightarrow> sample list \<Rightarrow> sample list" where
  "addLiveSample now summ history =
     (let s = live_sample now summ;
          h = (if history \<noteq> [] \<and> sa_ts s - sa_ts (last history) < 850 then butlast history @ [s] else history @ [s])
      in drop (length h - HISTORY_LIMIT) h)"

text \<open>
  The state of the script. \<open>da_slow\<close> holds the paths that a pending \<open>refreshSlow\<close> has requested, none when none
  is pending, that is the flag \<^verbatim>\<open>slowInFlight\<close> with the arguments of the suspended call; \<open>da_saved\<close> is the item of the local storage,
  and \<open>da_disconnected\<close> tells whether the text of the last update is \<^verbatim>\<open>disconnected\<close>.
\<close>

record Dashboard =
  da_source :: string
  da_integrations :: "json option"
  da_summary :: "json option"
  da_devices :: "json list"
  da_events :: "json list"
  da_attacks :: "json list"
  da_deviceTraffic24h :: "json list"
  da_liveHistory :: "sample list"
  da_lastUpdatedAt :: "int option"
  da_fastInFlight :: bool
  da_slow :: "string list option"
  da_saved :: string
  da_disconnected :: bool

definition dashboard_new :: "string \<Rightarrow> Dashboard" where
  "dashboard_new saved =
     \<lparr>da_source = (if saved = [] then ''live'' else saved), da_integrations = None, da_summary = None, da_devices = [],
      da_events = [], da_attacks = [], da_deviceTraffic24h = [], da_liveHistory = [], da_lastUpdatedAt = None,
      da_fastInFlight = False, da_slow = None, da_saved = saved, da_disconnected = False\<rparr>"

definition sqliteAvailable :: "Dashboard \<Rightarrow> bool" where
  "sqliteAvailable d =
     truthy (Option.bind (Option.bind (da_integrations d) (\<lambda>i. member_of i ''data_sources'')) (\<lambda>s. member_of s ''sqlite_query_enabled''))"

definition renderSourceButtons :: "Dashboard \<Rightarrow> Dashboard" where
  "renderSourceButtons d = (if da_source d = ''sqlite'' \<and> \<not> sqliteAvailable d then d\<lparr>da_source := ''live''\<rparr> else d)"

text \<open>A button of the source: whether it is pressed and whether it is disabled.\<close>

definition source_button :: "Dashboard \<Rightarrow> string \<Rightarrow> bool \<times> bool" where
  "source_button d src = (src = da_source (renderSourceButtons d), src = ''sqlite'' \<and> \<not> sqliteAvailable d)"

text \<open>What drawing the whole page does to the state.\<close>

definition renderAll :: "Dashboard \<Rightarrow> Dashboard" where
  "renderAll d = (renderSourceButtons d)\<lparr>da_disconnected := False\<rparr>"

text \<open>
  \<open>refreshFast\<close> and \<open>refreshSlow\<close> up to the point where they wait for the answers, and the rest: \<open>None\<close> when one of
  the three requests fails.
\<close>

definition refreshFast :: "Dashboard \<Rightarrow> Dashboard" where
  "refreshFast d = (if da_fastInFlight d then d else d\<lparr>da_fastInFlight := True\<rparr>)"

definition fast_arrived :: "int \<Rightarrow> (json \<times> json \<times> json) option \<Rightarrow> Dashboard \<Rightarrow> Dashboard" where
  "fast_arrived now answers d =
     (case answers of
        None \<Rightarrow> d\<lparr>da_disconnected := True\<rparr>
      | Some (summ, integrations, devs) \<Rightarrow>
          renderAll
            (d\<lparr>da_summary := Some summ, da_integrations := Some integrations, da_devices := itemsOf devs,
               da_lastUpdatedAt := Some now, da_liveHistory := addLiveSample now summ (da_liveHistory d)\<rparr>))
     \<lparr>da_fastInFlight := False\<rparr>"

definition refreshSlow :: "Dashboard \<Rightarrow> Dashboard" where
  "refreshSlow d = (if da_slow d \<noteq> None then d else d\<lparr>da_slow := Some (slow_paths (da_source d))\<rparr>)"

definition slow_arrived :: "(json \<times> json \<times> json) option \<Rightarrow> Dashboard \<Rightarrow> Dashboard" where
  "slow_arrived answers d =
     (case answers of
        None \<Rightarrow> d
      | Some (evs, atts, traffic) \<Rightarrow>
          renderAll
            (d\<lparr>da_events := itemsOf evs, da_attacks := itemsOf atts, da_deviceTraffic24h := itemsOf traffic\<rparr>))
     \<lparr>da_slow := None\<rparr>"

definition setSource :: "string \<Rightarrow> Dashboard \<Rightarrow> Dashboard" where
  "setSource src d = refreshSlow (refreshFast (renderSourceButtons (d\<lparr>da_source := src, da_saved := src\<rparr>)))"

text \<open>
  The events of the page: a timer or a message on the WebSocket, the answers of a pending refresh with the time of
  their arrival, and a click on a source.
\<close>

datatype dash_action =
    FastTimer
  | SocketMessage
  | FastArrived int "(json \<times> json \<times> json) option"
  | SlowTimer
  | SlowArrived "(json \<times> json \<times> json) option"
  | SourceClick string

fun dash_act :: "dash_action \<Rightarrow> Dashboard \<Rightarrow> Dashboard" where
  "dash_act FastTimer d = refreshFast d"
| "dash_act SocketMessage d = refreshFast d"
| "dash_act (FastArrived now answers) d = (if da_fastInFlight d then fast_arrived now answers d else d)"
| "dash_act SlowTimer d = refreshSlow d"
| "dash_act (SlowArrived answers) d = (if da_slow d \<noteq> None then slow_arrived answers d else d)"
| "dash_act (SourceClick src) d = setSource (if src = [] then ''live'' else src) d"

definition dash_run :: "string \<Rightarrow> dash_action list \<Rightarrow> Dashboard" where
  "dash_run saved acts = fold dash_act acts (refreshSlow (refreshFast (dashboard_new saved)))"

section \<open>What is shown\<close>

text \<open>The texts of the page by their element.\<close>

definition renderSummary :: "browser \<Rightarrow> Dashboard \<Rightarrow> (string \<times> string) list" where
  "renderSummary br d =
     (let summ = (case da_summary d of None \<Rightarrow> JObject [] | Some s \<Rightarrow> s)
      in [(''uniqueClients'', show_int \<lfloor>knownDevices summ\<rfloor>),
          (''realtimeSource'', ''memory / '' @ text_or (member_of summ ''rate_interface'') (text_or (member_of summ ''rate_source'') ''devices'')),
          (''lastUpdated'', if da_disconnected d then ''disconnected''
             else case da_lastUpdatedAt d of None \<Rightarrow> ''never'' | Some t \<Rightarrow> br_short br t),
          (''inventorySource'', ''live memory / 1s''),
          (''eventSource'', ''source: '' @ da_source d),
          (''deviceTrafficSource'', if sqliteAvailable d then ''SQLite'' else ''unavailable'')])"

definition sum_numbers :: "string \<Rightarrow> json list \<Rightarrow> double" where
  "sum_numbers key items = fold (\<lambda>item s. fl (s + num_or_0 (member_of item key))) items 0"

definition gauge :: "double \<Rightarrow> double \<Rightarrow> double" where
  "gauge v m = (if 0 < m then max 2 (min 100 (fl (fl (v / m) * 100))) else 0)"

text \<open>Upload, download and total, each with its text and its gauge.\<close>

definition renderTrafficTotals :: "Dashboard \<Rightarrow> (string \<times> double) list" where
  "renderTrafficTotals d =
     (let upload = sum_numbers ''tx_bytes'' (da_deviceTraffic24h d);
          download = sum_numbers ''rx_bytes'' (da_deviceTraffic24h d);
          total = fl (upload + download)
      in map (\<lambda>v. (formatBytes v, gauge v (max total 1))) [upload, download, total])"

definition rate_total :: "json \<Rightarrow> double" where
  "rate_total device = fl (num_or_0 (member_of device ''rx_rate_bps'') + num_or_0 (member_of device ''tx_rate_bps''))"

definition by_rate :: "browser \<Rightarrow> json list \<Rightarrow> json list" where
  "by_rate br devs = sort_key (\<lambda>d. (- rate_total d, br_key br (displayName d))) devs"

text \<open>The rows of the busiest clients: name, detail and the widths of the two bars.\<close>

definition renderTopActiveClients :: "browser \<Rightarrow> Dashboard \<Rightarrow> (string \<times> string \<times> double \<times> double) list" where
  "renderTopActiveClients br d =
     (let ranked = take 6 (by_rate br (da_devices d));
          m = fold max (map rate_total ranked) 1
      in map (\<lambda>device.
           (displayName device,
            text_or (member_of device ''ip'') (text_or (member_of device ''mac'') ''unknown'') @ '' / '' @ formatRate (rate_total device),
            max 0 (fl (fl (num_or_0 (member_of device ''rx_rate_bps'') / m) * 100)),
            max 0 (fl (fl (num_or_0 (member_of device ''tx_rate_bps'') / m) * 100)))) ranked)"

text \<open>The share of the two directions: the labels of the legend with their percentages.\<close>

definition renderDirectionSplit :: "Dashboard \<Rightarrow> (string \<times> int) list" where
  "renderDirectionSplit d =
     (let entries = filter (\<lambda>(l, v). 0 < v)
            [(''Download'', sum_numbers ''rx_bytes'' (da_deviceTraffic24h d)), (''Upload'', sum_numbers ''tx_bytes'' (da_deviceTraffic24h d))];
          t = fold (\<lambda>(l, v) s. fl (s + v)) entries 0;
          total = (if t = 0 then 1 else t)
      in map (\<lambda>(l, v). (l, math_round (fl (fl (v / total) * 100)))) (take 8 entries))"

definition renderDeviceTraffic24h :: "browser \<Rightarrow> Dashboard \<Rightarrow> (string list \<times> double) list" where
  "renderDeviceTraffic24h br d =
     (let num = (\<lambda>item key. num_or_0 (member_of item key));
          m = fold max (map (\<lambda>item. num item ''total_bytes'') (da_deviceTraffic24h d)) 1
      in map (\<lambda>item.
           ([displayName item, text_or (member_of item ''ip'') ''-'', formatBytes (num item ''rx_bytes''), formatBytes (num item ''tx_bytes''),
             formatBytes (num item ''total_bytes''), formatTime br (text_or (member_of item ''last_ts'') [])],
            max 3 (fl (fl (num item ''total_bytes'' / m) * 100)))) (take 16 (da_deviceTraffic24h d)))"

definition device_cells :: "browser \<Rightarrow> int \<Rightarrow> json \<Rightarrow> string list" where
  "device_cells br now device =
     (let rx = num_or_0 (member_of device ''rx_rate_bps''); tx = num_or_0 (member_of device ''tx_rate_bps'');
          updatedAt = text_or (member_of device ''last_traffic'')
            (text_or (member_of device ''last_rate'') (text_or (member_of device ''last_seen'') []))
      in [text_or (member_of device ''status'') ''unknown'', displayName device, text_or (member_of device ''ip'') ''-'',
          text_or (member_of device ''mac'') ''-'', formatRate rx, formatRate tx, formatRate (fl (rx + tx)), formatAge br now updatedAt])"

definition renderDevices :: "browser \<Rightarrow> int \<Rightarrow> Dashboard \<Rightarrow> string list list" where
  "renderDevices br now d = map (device_cells br now) (take 20 (by_rate br (da_devices d)))"

text \<open>The rows of the events: title, message and time.\<close>

definition renderEvents :: "browser \<Rightarrow> Dashboard \<Rightarrow> (string \<times> string \<times> string) list" where
  "renderEvents br d =
     map (\<lambda>event.
       (text_or (member_of event ''type'') ''event'' @ '' / '' @ text_or (member_of event ''severity'') ''info'',
        text_or (member_of event ''message'') [],
        (let ts = text_or (member_of event ''ts'') []; short = shortTime br ts
         in if short \<noteq> [] then short else formatTime br ts))) (take 12 (da_events d))"

end
