(* ===== verification/Dashboard_Properties.thy ===== *)
theory Dashboard_Properties
  imports Dashboard
begin

text \<open>
  What the page shows: the history of its charts, the source it names, the documents of the server that reach it, which
  devices it lists, and how exact its rates are.
\<close>

section \<open>The history of the charts\<close>

definition spaced :: "sample list \<Rightarrow> bool" where
  "spaced = sorted_wrt (\<lambda>a b. sa_ts a + 850 \<le> sa_ts b)"

definition history_ok :: "int \<Rightarrow> sample list \<Rightarrow> bool" where
  "history_ok t h \<longleftrightarrow> length h \<le> HISTORY_LIMIT \<and> spaced h \<and> list_all (\<lambda>s. sa_ts s \<le> t) h"

lemma addLiveSample_last: "addLiveSample now summ h \<noteq> [] \<and> last (addLiveSample now summ h) = live_sample now summ"
  by (cases h) (auto simp: addLiveSample_def Let_def HISTORY_LIMIT_def)

lemma live_sample_ts [simp]: "sa_ts (live_sample now summ) = now"
  by (simp add: live_sample_def Let_def)

lemma addLiveSample_ok:
  assumes "history_ok t h" "t \<le> now"
  shows "history_ok now (addLiveSample now summ h)"
proof -
  let ?s = "live_sample now summ"
  define g where "g = (if h \<noteq> [] \<and> sa_ts ?s - sa_ts (last h) < 850 then butlast h @ [?s] else h @ [?s])"
  have before: "\<forall>s\<in>set h. sa_ts s \<le> now" using assms by (auto simp: history_ok_def list_all_iff)
  have "spaced g"
  proof (cases h rule: rev_cases)
    case Nil
    then show ?thesis by (simp add: g_def spaced_def)
  next
    case (snoc h' l)
    then show ?thesis using assms before by (fastforce simp: g_def history_ok_def spaced_def sorted_wrt_append)
  qed
  then have "spaced (drop n g)" for n by (simp add: spaced_def sorted_wrt_drop)
  moreover have "list_all (\<lambda>s. sa_ts s \<le> now) (drop n g)" for n
    using before by (auto simp: g_def list_all_iff dest!: in_set_dropD in_set_butlastD)
  moreover have "addLiveSample now summ h = drop (length g - HISTORY_LIMIT) g"
    by (simp add: addLiveSample_def g_def Let_def)
  ultimately show ?thesis by (simp add: history_ok_def)
qed

lemma refresh_frames [simp]:
  "da_liveHistory (renderSourceButtons d) = da_liveHistory d" "da_liveHistory (refreshFast d) = da_liveHistory d"
  "da_liveHistory (refreshSlow d) = da_liveHistory d" "da_liveHistory (setSource src d) = da_liveHistory d"
  "da_liveHistory (slow_arrived a d) = da_liveHistory d" "da_liveHistory (renderAll d) = da_liveHistory d"
  by (auto simp: renderSourceButtons_def refreshFast_def refreshSlow_def setSource_def slow_arrived_def renderAll_def split: option.splits)

lemma fast_arrived_history:
  "da_liveHistory (fast_arrived now None d) = da_liveHistory d"
  "da_liveHistory (fast_arrived now (Some (s, i, l)) d) = addLiveSample now s (da_liveHistory d)"
  by (simp_all add: fast_arrived_def)

fun arrival :: "dash_action \<Rightarrow> int list" where
  "arrival (FastArrived now a) = [now]"
| "arrival _ = []"

lemma dash_fold_ok:
  assumes "history_ok t (da_liveHistory d)" "sorted (t # concat (map arrival acts))"
  shows "\<exists>t'. history_ok t' (da_liveHistory (fold dash_act acts d))"
  using assms
proof (induction acts arbitrary: t d)
  case (Cons a acts)
  show ?case
  proof (cases a)
    case (FastArrived now ans)
    then have s: "t \<le> now" "sorted (now # concat (map arrival acts))" using Cons.prems(2) by auto
    have "history_ok now (da_liveHistory (dash_act a d))"
    proof (cases "da_fastInFlight d")
      case True
      have "history_ok now (da_liveHistory d)" using Cons.prems(1) s(1) by (auto simp: history_ok_def list_all_iff)
      with True show ?thesis
        using FastArrived addLiveSample_ok [OF Cons.prems(1) s(1)] by (cases ans) (auto simp: fast_arrived_history)
    next
      case False
      then show ?thesis
        using FastArrived Cons.prems(1) s(1) by (auto simp: history_ok_def list_all_iff)
    qed
    then show ?thesis using Cons.IH s(2) by auto
  qed (use Cons in auto)
qed auto

text \<open>
  The history of the charts stays bounded and orderly: after any events of the page, as long as the clock
  does not go back, it has at most 180 samples, and every two neighbours are at least 850 ms apart.
\<close>

theorem live_history_bounded:
  assumes "sorted (concat (map arrival acts))"
  shows "length (da_liveHistory (dash_run saved acts)) \<le> 180 \<and> spaced (da_liveHistory (dash_run saved acts))"
proof -
  define t where "t = (case concat (map arrival acts) of [] \<Rightarrow> 0 | x # _ \<Rightarrow> x)"
  have "sorted (t # xs)" if "sorted xs" "t = (case xs of [] \<Rightarrow> 0 | x # _ \<Rightarrow> x)" for xs :: "int list"
    using that by (cases xs) auto
  from this [OF assms t_def] have "sorted (t # concat (map arrival acts))" .
  moreover have "history_ok t (da_liveHistory (refreshSlow (refreshFast (dashboard_new saved))))"
    by (simp add: dashboard_new_def history_ok_def spaced_def)
  ultimately show ?thesis using dash_fold_ok unfolding dash_run_def by (fastforce simp: history_ok_def HISTORY_LIMIT_def)
qed

theorem live_history_bounded_witness:
  "spaced (da_liveHistory (dash_run [] [FastArrived 0 (Some (JObject [], JObject [], JArray [])), SocketMessage,
     FastArrived 900 (Some (JObject [], JObject [], JArray []))]))"
  using live_history_bounded [of "[FastArrived 0 (Some (JObject [], JObject [], JArray [])), SocketMessage,
     FastArrived 900 (Some (JObject [], JObject [], JArray []))]" "[]"] by simp

text \<open>Samples that come less than 850 ms after each other.\<close>

fun frequent :: "int \<Rightarrow> int list \<Rightarrow> bool" where
  "frequent t [] = True"
| "frequent t (now # ts) = (now - t < 850 \<and> frequent now ts)"

definition push_round :: "int \<times> json \<times> json \<times> json \<Rightarrow> dash_action list" where
  "push_round r = [SocketMessage, FastArrived (fst r) (Some (snd r))]"

lemma addLiveSample_replaces:
  assumes "h \<noteq> []" "length h \<le> HISTORY_LIMIT" "now - sa_ts (last h) < 850"
  shows "addLiveSample now summ h = butlast h @ [live_sample now summ]"
  using assms by (cases h rule: rev_cases) (simp_all add: addLiveSample_def Let_def)

lemma push_round_history:
  assumes "\<not> da_fastInFlight d" "da_liveHistory d \<noteq> []" "length (da_liveHistory d) \<le> HISTORY_LIMIT"
    and "now - sa_ts (last (da_liveHistory d)) < 850"
  shows "\<not> da_fastInFlight (fold dash_act (push_round (now, a)) d)"
    "da_liveHistory (fold dash_act (push_round (now, a)) d) = butlast (da_liveHistory d) @ [live_sample now (fst a)]"
proof -
  obtain s i l where a: "a = (s, i, l)" by (cases a) auto
  show "\<not> da_fastInFlight (fold dash_act (push_round (now, a)) d)"
    using assms(1) by (simp add: push_round_def refreshFast_def fast_arrived_def a)
  show "da_liveHistory (fold dash_act (push_round (now, a)) d) = butlast (da_liveHistory d) @ [live_sample now (fst a)]"
    using assms(1) addLiveSample_replaces [OF assms(2-4)]
    by (simp add: push_round_def a fast_arrived_history) (simp add: refreshFast_def fast_arrived_history)
qed

text \<open>
  C38: The charts stop when there is much to show: a sample replaces the last one when it comes less than 850 ms after
  it, and is then the last one itself. While the messages of the WebSocket make the page refresh more often than that,
  however long it lasts, the history does not grow and all but the newest of these samples are lost.
\<close>

theorem frequent_updates_freeze_history:
  assumes "\<not> da_fastInFlight d" "da_liveHistory d \<noteq> []" "length (da_liveHistory d) \<le> HISTORY_LIMIT"
    and "frequent (sa_ts (last (da_liveHistory d))) (map fst rounds)" "rounds \<noteq> []"
  shows "da_liveHistory (fold dash_act (concat (map push_round rounds)) d) =
    butlast (da_liveHistory d) @ [live_sample (fst (last rounds)) (fst (snd (last rounds)))]"
  using assms
proof (induction rounds arbitrary: d)
  case (Cons r rounds)
  obtain now a where r: "r = (now, a)" by (cases r)
  have f: "now - sa_ts (last (da_liveHistory d)) < 850" "frequent now (map fst rounds)" using Cons.prems(4) by (simp_all add: r)
  define d' where "d' = fold dash_act (push_round r) d"
  note h = push_round_history [OF Cons.prems(1-3) f(1), of a, folded r, folded d'_def]
  show ?case
  proof (cases "rounds = []")
    case True
    then show ?thesis using h(2) by (simp add: d'_def r)
  next
    case False
    have "length (da_liveHistory d') \<le> HISTORY_LIMIT" using h(2) Cons.prems(2,3) by simp
    with Cons.IH [of d'] h f(2) False show ?thesis by (simp add: d'_def)
  qed
qed simp

theorem frequent_updates_freeze_history_witness:
  "\<forall>n. length (da_liveHistory (fold dash_act (concat (map push_round (map (\<lambda>i. (500 * int i, JObject [], JObject [], JArray [])) [1..<n + 2])))
     (dash_run [] [FastArrived 0 (Some (JObject [], JObject [], JArray []))]))) = 1"
proof
  fix n
  define d where "d = dash_run [] [FastArrived 0 (Some (JObject [], JObject [], JArray []))]"
  define rounds where "rounds = map (\<lambda>i. (500 * int i, JObject [], JObject [], JArray [])) [1..<n + 2]"
  have d: "\<not> da_fastInFlight d" "da_liveHistory d = [live_sample 0 (JObject [])]"
    by (simp_all add: d_def dash_run_def dashboard_new_def refreshFast_def refreshSlow_def fast_arrived_def renderAll_def
        renderSourceButtons_def addLiveSample_def HISTORY_LIMIT_def)
  have "frequent (500 * int k) (map (\<lambda>i. 500 * int i) [Suc k..<Suc k + m])" for k m
  proof (induction m arbitrary: k)
    case (Suc m)
    from Suc [of "Suc k"] show ?case by (simp add: upt_conv_Cons algebra_simps del: upt_Suc)
  qed simp
  from this [of 0 "Suc n"] have "frequent (sa_ts (last (da_liveHistory d))) (map fst rounds)"
    by (simp add: d rounds_def comp_def del: upt_Suc)
  from frequent_updates_freeze_history [OF d(1) _ _ this] show
    "length (da_liveHistory (fold dash_act (concat (map push_round (map (\<lambda>i. (500 * int i, JObject [], JObject [], JArray [])) [1..<n + 2])))
       (dash_run [] [FastArrived 0 (Some (JObject [], JObject [], JArray []))]))) = 1"
    unfolding d_def [symmetric] rounds_def [symmetric] by (simp add: d HISTORY_LIMIT_def) (simp add: rounds_def)
qed

section \<open>Switching the source\<close>

text \<open>
  A click on another source during a slow refresh is answered with the old data: the refresh that the click starts
  is dropped, so that when the pending one arrives the page names the new source and shows the events and
  attacks that were requested from the old one, until the next timer.
\<close>

theorem source_switch_shows_old_events:
  assumes "da_slow d = Some (slow_paths old)" "src \<noteq> []" "src \<noteq> ''sqlite'' \<or> sqliteAvailable d"
  shows "da_slow (dash_act (SourceClick src) d) = Some (slow_paths old) \<and>
    (let d' = dash_act (SlowArrived (Some (evs, atts, traffic))) (dash_act (SourceClick src) d)
     in (''eventSource'', ''source: '' @ src) \<in> set (renderSummary br d') \<and>
        da_events d' = itemsOf evs \<and> da_attacks d' = itemsOf atts \<and> da_slow d' = None)"
  using assms
  by (auto simp: setSource_def refreshSlow_def refreshFast_def renderSourceButtons_def slow_arrived_def renderAll_def
      renderSummary_def sqliteAvailable_def Let_def)

theorem source_switch_shows_old_events_witness:
  "(let d = dash_run [] [FastArrived 0 (Some (JObject [], JObject [(''data_sources'', JObject [(''sqlite_query_enabled'', JBool True)])], JArray []))];
        d' = dash_act (SlowArrived (Some (JArray [JObject []], JArray [], JArray []))) (dash_act (SourceClick ''sqlite'') d)
    in da_slow d = Some (slow_paths ''live'') \<and> da_events d' = [JObject []])"
proof -
  define d where "d = dash_run [] [FastArrived 0 (Some (JObject [], JObject [(''data_sources'', JObject [(''sqlite_query_enabled'', JBool True)])], JArray []))]"
  have d: "da_slow d = Some (slow_paths ''live'')" "sqliteAvailable d"
    by (simp_all add: d_def dash_run_def dashboard_new_def refreshFast_def refreshSlow_def fast_arrived_def renderAll_def
        renderSourceButtons_def sqliteAvailable_def member_of_def truthy_def)
  show ?thesis
    using source_switch_shows_old_events [of d "''live''" "''sqlite''" "JArray [JObject []]" "JArray []" "JArray []" undefined] d
    unfolding d_def [symmetric] Let_def by (simp add: itemsOf_def del: dash_act.simps)
qed

section \<open>The dashboard and the server\<close>

text \<open>A request of the browser for a target: any headers, but the path and the query of the target.\<close>

definition asks :: "string \<Rightarrow> Request \<Rightarrow> bool" where
  "asks target r \<longleftrightarrow> rq_method r = ''GET'' \<and> CHR ''?'' \<notin> set (rq_path r) \<and>
     target = rq_path r @ (if rq_query r = [] then [] else CHR ''?'' # rq_query r)"

lemma asks_iff:
  assumes "asks (path @ CHR ''?'' # query) r" "CHR ''?'' \<notin> set path" "query \<noteq> []"
  shows "rq_path r = path \<and> rq_query r = query"
proof -
  have e: "path @ CHR ''?'' # query = rq_path r @ (if rq_query r = [] then [] else CHR ''?'' # rq_query r)"
    and q: "CHR ''?'' \<notin> set (rq_path r)" using assms(1) by (simp_all add: asks_def)
  have "rq_query r \<noteq> []" using e q by (metis append_Nil2 in_set_conv_decomp)
  then have e': "path @ CHR ''?'' # query = rq_path r @ CHR ''?'' # rq_query r" using e by simp
  have "find_char (CHR ''?'') (path @ CHR ''?'' # query) = Some (length path)" by (rule find_char_append [OF assms(2)])
  moreover have "find_char (CHR ''?'') (path @ CHR ''?'' # query) = Some (length (rq_path r))"
    unfolding e' by (rule find_char_append [OF q])
  ultimately have "length path = length (rq_path r)" by simp
  with e' show ?thesis by simp
qed

lemma asks_plain: "asks path r \<Longrightarrow> CHR ''?'' \<notin> set path \<Longrightarrow> rq_path r = path \<and> rq_query r = []"
  by (auto simp: asks_def split: if_splits)

text \<open>The query of the script: the parameters of the path and the token.\<close>

definition with_token :: "string \<Rightarrow> string list \<Rightarrow> string list" where
  "with_token token params = params @ (if token = [] then [] else [''token='' @ encodeURIComponent token])"

lemma apiUrl_asks:
  assumes "asks (apiUrl token (path @ (if params = [] then [] else CHR ''?'' # join_with (CHR ''&'') params))) r"
    and "CHR ''?'' \<notin> set path" "\<And>p. p \<in> set params \<Longrightarrow> p \<noteq> [] \<and> CHR ''&'' \<notin> set p"
  shows "rq_path r = path" "with_token token params \<noteq> [] \<Longrightarrow> split (rq_query r) (CHR ''&'') = with_token token params"
    "with_token token params = [] \<Longrightarrow> rq_query r = []"
proof -
  let ?q = "join_with (CHR ''&'') (with_token token params)"
  have j: "join_with d (xs @ [y]) = join_with d xs @ d # y" if "xs \<noteq> []" for d :: char and xs y
    using that by (induction d xs rule: join_with.induct) simp_all
  have ne: "with_token token params \<noteq> [] \<Longrightarrow> ?q \<noteq> []"
  proof -
    assume "with_token token params \<noteq> []"
    moreover have "join_with d xs \<noteq> []" if "xs \<noteq> []" "hd xs \<noteq> []" for d :: char and xs
      using that by (induction d xs rule: join_with.induct) simp_all
    moreover have "hd (with_token token params) \<noteq> []" if "with_token token params \<noteq> []"
      using that assms(3) by (cases params) (auto simp: with_token_def)
    ultimately show ?thesis by blast
  qed
  have url: "apiUrl token (path @ (if params = [] then [] else CHR ''?'' # join_with (CHR ''&'') params)) =
      path @ (if with_token token params = [] then [] else CHR ''?'' # ?q)"
    using assms(2) by (auto simp: apiUrl_def with_token_def j)
  have "rq_path r = path \<and> rq_query r = (if with_token token params = [] then [] else ?q)"
  proof (cases "with_token token params = []")
    case True
    then show ?thesis using assms(1,2) asks_plain unfolding url by simp
  next
    case False
    then show ?thesis using assms(1,2) asks_iff [OF _ assms(2) ne] unfolding url by simp
  qed
  moreover have "\<And>p. p \<in> set (with_token token params) \<Longrightarrow> CHR ''&'' \<notin> set p"
    using assms(3) encode_no_amp by (auto simp: with_token_def split: if_splits)
  then have "with_token token params \<noteq> [] \<Longrightarrow> split ?q (CHR ''&'') = with_token token params" by (rule split_join [rotated])
  ultimately show "rq_path r = path" "with_token token params \<noteq> [] \<Longrightarrow> split (rq_query r) (CHR ''&'') = with_token token params"
    "with_token token params = [] \<Longrightarrow> rq_query r = []" by simp_all
qed

lemma apiUrl_params:
  assumes "asks (apiUrl token (path @ (if params = [] then [] else CHR ''?'' # join_with (CHR ''&'') params))) r"
    and "CHR ''?'' \<notin> set path" "\<And>p. p \<in> set params \<Longrightarrow> p \<noteq> [] \<and> CHR ''&'' \<notin> set p"
  shows "rq_method r = ''GET''" "rq_path r = path" "queryParam r key = query_lookup (with_token token params) key"
proof -
  note u = apiUrl_asks [OF assms]
  show "rq_method r = ''GET''" using assms(1) by (simp add: asks_def)
  show "rq_path r = path" by (rule u(1))
  show "queryParam r key = query_lookup (with_token token params) key"
    using u(2,3) by (cases "with_token token params = []") (simp_all add: queryParam_def)
qed

lemma query_lookup_append:
  assumes "\<And>p. p \<in> set ps \<Longrightarrow> \<exists>k v. p = k @ CHR ''='' # v \<and> CHR ''='' \<notin> set k \<and> k \<noteq> key"
  shows "query_lookup (ps @ qs) key = query_lookup qs key"
  using assms
proof (induction ps)
  case (Cons p ps)
  obtain k v where p: "p = k @ CHR ''='' # v" "CHR ''='' \<notin> set k" "k \<noteq> key" using Cons.prems [of p] by auto
  then have "find_char (CHR ''='') p = Some (length k)" by (simp add: find_char_append)
  with p Cons show ?case by simp
qed simp

lemma script_authorized:
  assumes "queryParam r ''token'' = query_lookup (with_token token params) ''token''"
    and "\<And>p. p \<in> set params \<Longrightarrow> \<exists>k v. p = k @ CHR ''='' # v \<and> CHR ''='' \<notin> set k \<and> k \<noteq> ''token''"
    and "dashboard_token config \<in> {[], token}" "list_all uri_unreserved token"
  shows "authorized config r"
proof (cases "dashboard_token config = []")
  case False
  then have t: "dashboard_token config = token" "token \<noteq> []" using assms(3) by auto
  have "queryParam r ''token'' = token"
    using assms(1) query_lookup_append [OF assms(2), of params "[''token='' @ encodeURIComponent token]"] t(2) assms(4)
    by (simp add: with_token_def encode_id_iff)
  then show ?thesis using t by (simp add: authorized_def)
qed (simp add: authorized_def)

lemma json_read: "json_ok j \<Longrightarrow> json_text j = s \<Longrightarrow> read_document s = Some j"
  using read_document_text by blast

text \<open>An answer of the server that the script reads as a document.\<close>

definition answers :: "string \<Rightarrow> json \<Rightarrow> bool" where
  "answers response j \<longleftrightarrow> response = sendJson (json_text j) \<and> read_document (json_text j) = Some j"

lemma member_items [simp]: "itemsOf (items_value src xs) = xs"
  by (simp add: itemsOf_def items_value_def member_of_def)

lemma integrations_available:
  "truthy (Option.bind (member_of (integrations_value ws q) ''data_sources'') (\<lambda>s. member_of s ''sqlite_query_enabled'')) = sqlite_available ws"
  by (simp add: integrations_value_def member_of_def truthy_def Let_def)

text \<open>
  C7: The page shows what the server has: with a token the server accepts, the three requests of a refresh are answered
  with documents, and after these answers the device list of the page holds exactly the first thousand devices of the store,
  the button for the database is enabled exactly when the server has one, the number of clients is that of
  the summary, and the newest sample of the charts carries its rates.
\<close>

theorem refresh_shows_server:
  assumes token: "dashboard_token (wb_config ws) \<in> {[], token}" "list_all uri_unreserved token"
    and asks: "asks (apiUrl token (fast_paths ! 0)) r1" "asks (apiUrl token (fast_paths ! 1)) r2" "asks (apiUrl token (fast_paths ! 2)) r3"
  shows "\<exists>s i l. answers (routeHttp ws read_file q1 r1) s \<and> answers (routeHttp ws read_file q2 r2) i \<and> answers (routeHttp ws read_file q3 r3) l \<and>
    (let d' = fast_arrived now (Some (s, i, l)) d
     in da_devices d' = map device_value (take 1000 (devices (qr_clk q3 0) (wb_state ws))) \<and>
        sqliteAvailable d' = sqlite_available ws \<and>
        da_summary d' = Some (summary_value (summary (qr_clk q1 0) (wb_state ws))) \<and>
        last (da_liveHistory d') = live_sample now (summary_value (summary (qr_clk q1 0) (wb_state ws))))"
proof -
  let ?p3 = "[''source=live'', ''limit=1000'']"
  have a1: "asks (apiUrl token (''/api/summary'' @ (if ([] :: string list) = [] then [] else CHR ''?'' # join_with (CHR ''&'') []))) r1"
    and a2: "asks (apiUrl token (''/api/integrations'' @ (if ([] :: string list) = [] then [] else CHR ''?'' # join_with (CHR ''&'') []))) r2"
    and a3: "asks (apiUrl token (''/api/devices'' @ (if ?p3 = [] then [] else CHR ''?'' # join_with (CHR ''&'') ?p3))) r3"
    using asks by (simp_all add: fast_paths_def)
  have ok3: "p \<noteq> [] \<and> CHR ''&'' \<notin> set p" if "p \<in> set ?p3" for p using that by auto
  have kv3: "\<exists>k v. p = k @ CHR ''='' # v \<and> CHR ''='' \<notin> set k \<and> k \<noteq> ''token''" if "p \<in> set ?p3" for p
    using that by (auto intro: exI [of _ "''source''"] exI [of _ "''limit''"])
  note p1 = apiUrl_params [OF a1] and p2 = apiUrl_params [OF a2] and p3 = apiUrl_params [OF a3 _ ok3]
  have m: "rq_method r1 = ''GET''" "rq_path r1 = ''/api/summary''" "rq_method r2 = ''GET''" "rq_path r2 = ''/api/integrations''"
    "rq_method r3 = ''GET''" "rq_path r3 = ''/api/devices''" using p1(1,2) p2(1,2) p3(1,2) by auto
  have au: "authorized (wb_config ws) r1" "authorized (wb_config ws) r2" "authorized (wb_config ws) r3"
    using script_authorized [OF p1(3) _ token] script_authorized [OF p2(3) _ token] script_authorized [OF p3(3) kv3 token] by auto
  have q3: "queryParam r3 ''source'' = ''live''" "queryParam r3 ''limit'' = ''1000''"
    using p3(3) by (simp_all add: with_token_def)
  have "parseUint64 ''1000'' 1000 = 1000" "lower ''live'' = ''live''" by code_simp+
  then have dl: "device_list ws q3 r3 (limit_param r3 1000 5000) = take 1000 (devices (qr_clk q3 0) (wb_state ws))"
    "sourceName ws r3 = ''live''"
    by (simp_all add: device_list_def sourceName_def useSqliteSource_def q3 limit_param_def Let_def)
  define s where "s = summary_value (summary (qr_clk q1 0) (wb_state ws))"
  define i where "i = integrations_value ws q2"
  define l where "l = items_value ''live'' (map device_value (take 1000 (devices (qr_clk q3 0) (wb_state ws))))"
  have "answers (routeHttp ws read_file q1 r1) s" "answers (routeHttp ws read_file q2 r2) i"
    using m au by (simp_all add: answers_def routeHttp_def document_texts integrations_text s_def i_def documents_ok read_document_text)
  moreover have "answers (routeHttp ws read_file q3 r3) l"
    using m au by (simp add: answers_def routeHttp_def document_texts dl l_def read_document_text items_value_ok items_ok list_all_iff)
  moreover have "da_devices (fast_arrived now (Some (s, i, l)) d) = map device_value (take 1000 (devices (qr_clk q3 0) (wb_state ws)))"
    "sqliteAvailable (fast_arrived now (Some (s, i, l)) d) = sqlite_available ws"
    "da_summary (fast_arrived now (Some (s, i, l)) d) = Some s" "last (da_liveHistory (fast_arrived now (Some (s, i, l)) d)) = live_sample now s"
    by (simp_all add: fast_arrived_def renderAll_def renderSourceButtons_def l_def i_def sqliteAvailable_def integrations_available addLiveSample_last)
  ultimately show ?thesis unfolding s_def [symmetric] Let_def by blast
qed

theorem refresh_shows_server_witness:
  "\<exists>s i l. answers (routeHttp sample_server (\<lambda>_. None) sample_query (request_of ''GET'' ''/api/summary'' ''token=secret'' [])) s \<and>
     answers (routeHttp sample_server (\<lambda>_. None) sample_query (request_of ''GET'' ''/api/devices'' ''source=live&limit=1000&token=secret'' [])) l \<and>
     da_devices (fast_arrived 7 (Some (s, i, l)) (dashboard_new [])) =
       map device_value (take 1000 (devices (qr_clk sample_query 0) (wb_state sample_server)))"
proof -
  have t: "dashboard_token (wb_config sample_server) \<in> {[], ''secret''}" "list_all uri_unreserved ''secret''" by code_simp+
  have "asks (apiUrl ''secret'' (fast_paths ! 0)) (request_of ''GET'' ''/api/summary'' ''token=secret'' [])"
    "asks (apiUrl ''secret'' (fast_paths ! 1)) (request_of ''GET'' ''/api/integrations'' ''token=secret'' [])"
    "asks (apiUrl ''secret'' (fast_paths ! 2)) (request_of ''GET'' ''/api/devices'' ''source=live&limit=1000&token=secret'' [])"
    by code_simp+
  from refresh_shows_server [OF t this, of "\<lambda>_. None" sample_query sample_query sample_query 7 "dashboard_new []"]
  show ?thesis unfolding Let_def by blast
qed

section \<open>Which devices are listed\<close>

text \<open>
  The table shows the busiest devices: it has a row for each of the up to twenty devices it lists, these are
  devices of the list in descending order of their rate, and no device that is left out is busier than one that is shown.
\<close>

theorem renderDevices_busiest:
  shows "\<exists>shown hidden. renderDevices br now d = map (device_cells br now) shown \<and> length shown = min 20 (length (da_devices d)) \<and>
     mset shown + mset hidden = mset (da_devices d) \<and>
     sorted_wrt (\<lambda>a b. rate_total b \<le> rate_total a) shown \<and>
     \<not> (\<exists>a b. a \<in> set shown \<and> b \<in> set hidden \<and> rate_total a < rate_total b)"
proof -
  let ?s = "by_rate br (da_devices d)" and ?k = "\<lambda>d. (- rate_total d, br_key br (displayName d))"
  have "sorted_wrt (\<lambda>a b. ?k a \<le> ?k b) ?s" using sorted_sort_key [of ?k "da_devices d"] by (simp add: by_rate_def sorted_map)
  then have "sorted_wrt (\<lambda>a b. rate_total b \<le> rate_total a) (take 20 ?s @ drop 20 ?s)"
    unfolding append_take_drop_id by (rule sorted_wrt_mono_rel [rotated]) (auto simp: less_eq_prod_def)
  then have "sorted_wrt (\<lambda>a b. rate_total b \<le> rate_total a) (take 20 ?s)"
    "\<not> (\<exists>a b. a \<in> set (take 20 ?s) \<and> b \<in> set (drop 20 ?s) \<and> rate_total a < rate_total b)"
    unfolding sorted_wrt_append by (auto simp: not_less)
  moreover have "mset (take 20 ?s) + mset (drop 20 ?s) = mset (da_devices d)"
    by (simp add: mset_append [symmetric] by_rate_def del: mset_append)
  moreover have "length (take 20 ?s) = min 20 (length (da_devices d))" by (simp add: by_rate_def)
  ultimately show ?thesis unfolding renderDevices_def by blast
qed

section \<open>Shown rates\<close>

lemma math_round_error: "\<bar>of_int (math_round x) - x\<bar> \<le> 1 / 2"
  unfolding math_round_def by linarith

text \<open>The number in a text of \<open>toFixed\<close> is the nearest one with so many decimals.\<close>

lemma toFixed_val:
  assumes "0 < f" "0 \<le> x"
  shows "\<bar>number_val (toFixed f x) - x\<bar> \<le> 1 / 2 / 10 ^ f"
proof -
  define n where "n = nat \<lfloor>\<bar>x\<bar> * 10 ^ f + 1 / 2\<rfloor>"
  have p: "0 \<le> x * 10 ^ f" using assms(2) by simp
  then have "(0 :: int) \<le> \<lfloor>\<bar>x\<bar> * 10 ^ f + 1 / 2\<rfloor>" using assms(2) by simp
  then have "of_nat n = (of_int \<lfloor>x * 10 ^ f + 1 / 2\<rfloor> :: rat)" using assms(2) by (simp add: n_def)
  then have "\<bar>of_nat n - x * 10 ^ f\<bar> \<le> 1 / 2" by linarith
  then have "\<bar>of_nat n / 10 ^ f - x\<bar> \<le> 1 / 2 / 10 ^ f" by (rule scaled_error)
  moreover have "number_val (toFixed f x) = of_nat n / 10 ^ f"
  proof -
    have c: "(x < 0) = False" "(f = 0) = False" using assms by auto
    show ?thesis unfolding toFixed_def Let_def n_def [symmetric] c if_False by (rule fixed_text_val(1) [OF assms(1) refl])
  qed
  ultimately show ?thesis by simp
qed

lemma show_int_val: "0 \<le> n \<Longrightarrow> number_val (show_int n) = of_int n"
proof -
  assume n: "0 \<le> n"
  define s where "s = show_nat (nat n)"
  have s: "list_all isdigit s" "s \<noteq> []" "nat_of_digits s = nat n" using show_nat_digits [of "nat n"] by (auto simp: s_def)
  then have "hd s \<noteq> CHR ''-''" by (cases s) auto
  then have "number_val s = magnitude s" using s(2) by (cases s) auto
  also have "\<dots> = of_nat (nat n)" using s by (simp add: magnitude_plain digits_no_e dec_val_whole)
  finally show ?thesis using n by (simp add: show_int_def s_def [symmetric])
qed

text \<open>A rate that is shown in a unit: the number of the text times the unit.\<close>

definition shown_as :: "string \<Rightarrow> rat \<Rightarrow> bool" where
  "shown_as s v \<longleftrightarrow> (\<exists>t u. s = t @ fst u \<and> v = number_val t * snd u \<and>
     u \<in> set [('' Gb/s'', 1000000000), ('' Mb/s'', 1000000), ('' Kb/s'', 1000), ('' b/s'', 1)])"

lemma scaled_text:
  assumes "0 < f" "0 < u" "u \<le> x"
  shows "\<bar>number_val (toFixed f (fl (x / u))) * u - x\<bar> \<le> (1 / 2 / 10 ^ f + 1 / 2 ^ 53) * x"
proof -
  have "\<bar>number_val (toFixed f (fl (x / u))) - fl (x / u)\<bar> \<le> 1 / 2 / 10 ^ f"
    using assms by (intro toFixed_val ieee.rnd_nonneg) simp_all
  moreover have "\<bar>fl (x / u) - x / u\<bar> \<le> 1 / 2 ^ 53 * (x / u)" using fl_rel_error [of "x / u"] assms by simp
  ultimately have "\<bar>number_val (toFixed f (fl (x / u))) - x / u\<bar> \<le> 1 / 2 / 10 ^ f + 1 / 2 ^ 53 * (x / u)" by linarith
  then have "\<bar>number_val (toFixed f (fl (x / u))) - x / u\<bar> * u \<le> (1 / 2 / 10 ^ f + 1 / 2 ^ 53 * (x / u)) * u"
    using assms(2) by (intro mult_right_mono) simp_all
  also have "\<dots> = 1 / 2 / 10 ^ f * u + 1 / 2 ^ 53 * x" using assms(2) by (simp add: algebra_simps)
  also have "\<dots> \<le> (1 / 2 / 10 ^ f + 1 / 2 ^ 53) * x"
    using mult_left_mono [OF assms(3), of "1 / 2 / 10 ^ f"] by (simp add: algebra_simps)
  finally have "\<bar>number_val (toFixed f (fl (x / u))) - x / u\<bar> * u \<le> (1 / 2 / 10 ^ f + 1 / 2 ^ 53) * x" .
  moreover have "\<bar>number_val (toFixed f (fl (x / u))) - x / u\<bar> * u = \<bar>(number_val (toFixed f (fl (x / u))) - x / u) * u\<bar>"
    using assms(2) by (simp add: abs_mult)
  ultimately show ?thesis using assms(2) by (simp add: algebra_simps)
qed

lemma formatRate_val:
  assumes "0 \<le> x"
  shows "\<exists>v. shown_as (formatRate x) v \<and> \<bar>v - x\<bar> \<le> 1 / 2 + 51 / 1000 * x"
proof -
  have big: "\<exists>v. shown_as (toFixed f (fl (x / u)) @ name) v \<and> \<bar>v - x\<bar> \<le> 1 / 2 + 51 / 1000 * x"
    if "(name, u) \<in> set [('' Gb/s'', 1000000000), ('' Mb/s'', 1000000), ('' Kb/s'', 1000)]" "u \<le> x" "0 < f" for f u name
  proof (intro exI conjI)
    show "shown_as (toFixed f (fl (x / u)) @ name) (number_val (toFixed f (fl (x / u))) * u)"
      unfolding shown_as_def using that(1) by (intro exI [of _ "toFixed f (fl (x / u))"] exI [of _ "(name, u)"]) auto
    have "(1 :: rat) / 2 / 10 ^ f \<le> 1 / 2 / 10 ^ 1" using that(3) by (intro divide_left_mono power_increasing) auto
    moreover have "(1 :: rat) / 2 / 10 ^ 1 + 1 / 2 ^ 53 \<le> 51 / 1000" by simp
    ultimately have "(1 :: rat) / 2 / 10 ^ f + 1 / 2 ^ 53 \<le> 51 / 1000" by linarith
    then have "(1 / 2 / 10 ^ f + 1 / 2 ^ 53) * x \<le> 51 / 1000 * x" using assms by (rule mult_right_mono)
    moreover have "0 < u" using that(1) by auto
    ultimately show "\<bar>number_val (toFixed f (fl (x / u))) * u - x\<bar> \<le> 1 / 2 + 51 / 1000 * x"
      using scaled_text [OF that(3) _ that(2)] by fastforce
  qed
  have small: "\<exists>v. shown_as (show_int (math_round x) @ '' b/s'') v \<and> \<bar>v - x\<bar> \<le> 1 / 2 + 51 / 1000 * x"
  proof (intro exI conjI)
    have "0 \<le> math_round x" using assms by (simp add: math_round_def)
    then show "shown_as (show_int (math_round x) @ '' b/s'') (of_int (math_round x))"
      unfolding shown_as_def by (intro exI [of _ "show_int (math_round x)"] exI [of _ "('' b/s'', 1)"]) (simp add: show_int_val)
    show "\<bar>of_int (math_round x) - x\<bar> \<le> 1 / 2 + 51 / 1000 * x" using math_round_error [of x] assms by linarith
  qed
  show ?thesis
    using big [of "'' Gb/s''" 1000000000 2] big [of "'' Mb/s''" 1000000 2] big [of "'' Kb/s''" 1000 1] small
    unfolding formatRate_def by auto
qed

text \<open>
  C23: The rates on the page are those of the store, up to rounding: through the six digits of the document, the double
  the script reads and the text with a unit, the shown receive rate of a device differs from its rate in the store by at most one bit
  per second and six percent.
\<close>

theorem shown_rate_accurate:
  assumes "0 \<le> dv_rx_rate_bps dev"
  shows "\<exists>v. shown_as (device_cells br now (device_value dev) ! 4) v \<and> \<bar>v - dv_rx_rate_bps dev\<bar> \<le> 1 + 6 / 100 * dv_rx_rate_bps dev"
proof -
  let ?r = "dv_rx_rate_bps dev"
  define y where "y = number_val (show_double ?r)"
  have "\<bar>y - ?r\<bar> \<le> 5 / 1000000 * ?r" using show_double_accurate [of ?r] assms by (simp add: y_def)
  then have y: "y \<le> ?r + 5 / 1000000 * ?r" "?r - 5 / 1000000 * ?r \<le> y" by linarith+
  then have y0: "0 \<le> y" using assms by linarith
  have "\<bar>fl y - y\<bar> \<le> 1 / 2 ^ 53 * y" using fl_rel_error [of y] y0 by simp
  moreover have "1 / 2 ^ 53 * y \<le> 1 / 1000000 * y" using y0 by (intro mult_right_mono) simp_all
  ultimately have x: "\<bar>fl y - y\<bar> \<le> 1 / 1000000 * y" by linarith
  have "0 \<le> fl y" using y0 by (rule ieee.rnd_nonneg)
  then obtain v where v: "shown_as (formatRate (fl y)) v" "\<bar>v - fl y\<bar> \<le> 1 / 2 + 51 / 1000 * fl y" using formatRate_val by blast
  have "device_cells br now (device_value dev) ! 4 = formatRate (fl y)"
    by (simp add: device_cells_def device_value_def member_of_def num_or_0_def y_def Let_def)
  moreover have "\<bar>v - ?r\<bar> \<le> 1 + 6 / 100 * ?r" using v(2) x y y0 assms by linarith
  ultimately show ?thesis using v(1) by auto
qed

theorem shown_rate_accurate_witness:
  "\<exists>v. shown_as (device_cells \<lparr>br_date = (\<lambda>_. None), br_local = show_int, br_short = show_int, br_key = (\<lambda>s. s)\<rparr> 0
       (device_value (new_device\<lparr>dv_rx_rate_bps := 1234567\<rparr>)) ! 4) v \<and> \<bar>v - 1234567\<bar> \<le> 1 + 6 / 100 * 1234567"
  using shown_rate_accurate [of "new_device\<lparr>dv_rx_rate_bps := 1234567\<rparr>"] by fastforce

end
