(* ===== verification/Spec2Isabelle.thy ===== *)
theory Spec2Isabelle
  imports Config_Properties App_Properties Syslog_Server Web_Socket Listener_Properties Runtime_Properties Web_Protocol
    Shutdown_Properties Collector_Properties Dashboard_Properties
begin

text \<open>
  A verification development of netmon, a network monitor for OpenWrt routers.

  \<^bold>\<open>The program.\<close> Scripts on the router (\<^verbatim>\<open>src/openwrt\<close>) report DHCP leases, traffic counters and interface counters as
  syslog lines. The server receives lines over UDP and TCP (\<^verbatim>\<open>syslog_server.cpp\<close>), parses them (\<^verbatim>\<open>log_parser.cpp\<close>), and
  the application (\<^verbatim>\<open>app.cpp\<close>) turns each into operations on the state in memory (\<^verbatim>\<open>state_store.cpp\<close>), into counters
  (\<^verbatim>\<open>runtime_stats.cpp\<close>), and, when configured, into rows of a database (\<^verbatim>\<open>sqlite_store.cpp\<close>). A cleanup thread ages the
  devices and applies the retention. The web server (\<^verbatim>\<open>web_server.cpp\<close>) answers HTTP requests with JSON documents, the
  metrics page (\<^verbatim>\<open>prometheus_exporter.cpp\<close>) and the files of the dashboard, and pushes updates over WebSockets; the script
  of the dashboard (\<^verbatim>\<open>web/static/app.js\<close>) shows them. \<^verbatim>\<open>main.cpp\<close> reads the command line and the configuration
  (\<^verbatim>\<open>config.cpp\<close>) and runs until a signal.

  \<^bold>\<open>Conventions.\<close> A struct or class is a record, an enumeration a datatype, a method that changes an object a function from
  the old to the new record. Strings are lists of bytes, 64-bit counters are words and wrap around, times are integers
  of nanoseconds (wrapped to 64 bits where the sources compute with them unchecked), dictionaries are association lists, and
  a double is the rational number it denotes, every operation on it followed by \<open>fl\<close>, the rounding to 53 bits. A
  function that can fail returns an option. What comes from outside is an argument: clock readings (\<open>clock\<close>, one per call
  of the clock), answers of system calls and of SQLite, files, the environment, the locale of the browser. A mutex makes an operation one
  step; threads are actions of an interleaving, and a run is any sequence of actions.

  \<^bold>\<open>Theories.\<close> Each source file has a theory with its definitions, in the order of the code and with its names, and usually
  one with what is proved about them.

  \<^item> \<open>Netmon_Prelude\<close>, \<open>Netmon_Double\<close>, \<open>Netmon_Utils\<close> (\<^verbatim>\<open>utils.cpp\<close>), \<open>Netmon_Types\<close> (\<^verbatim>\<open>types.hpp\<close>), \<open>Netmon_Format\<close>,
    \<open>Json_Text\<close>, \<open>Std_Regex\<close>: the shared vocabulary, the string helpers, the data, and what the sources use of the standard
    library: number and time output, JSON texts with a reader, regular expressions.
  \<^item> \<open>Ring_Buffer\<close> (\<^verbatim>\<open>ring_buffer.hpp\<close>): exactly the last elements are kept.
  \<^item> \<open>Netmon_Config\<close>, \<open>Config_Properties\<close> (\<^verbatim>\<open>config.cpp\<close>): every loaded configuration is well formed; a rendered
    configuration is loaded back.
  \<^item> \<open>State_Store\<close>, \<open>Store_Invariant\<close>, \<open>Store_Properties\<close> (\<^verbatim>\<open>state_store.cpp\<close>): the invariant of every reachable store, lookup
    after an update, the accuracy of rates, what cleanup does, and how a reused address merges two devices.
  \<^item> \<open>Net_Utils\<close>, \<open>Log_Parser\<close>, \<open>Runtime_Stats\<close>, \<open>Storage_Prep\<close>: addresses, line formats, counters, and the cleaning of
    values before they are stored, with the round trips of each.
  \<^item> \<open>Netmon_App\<close>, \<open>App_Properties\<close> (\<^verbatim>\<open>app.cpp\<close>): the application acts on the store only through its operations; each line leaves
    exactly one event.
  \<^item> \<open>Sqlite_Store\<close>, \<open>Sqlite_Properties\<close>, \<open>Sqlite_Queries\<close> (\<^verbatim>\<open>sqlite_store.cpp\<close>): the four tables, the invariant over every sequence of
    statements that may each fail, what retention and size limit delete, what is read back, what the queries compute.
  \<^item> \<open>Netmon_Runtime\<close>, \<open>Runtime_Properties\<close> (\<^verbatim>\<open>main.cpp\<close>, start and loop of \<^verbatim>\<open>app.cpp\<close>): the consistency of memory, counters and
    database through lines, cleanup rounds and restarts, and what a restart loses.
  \<^item> \<open>Syslog_Server\<close>, \<open>Listeners\<close>, \<open>Listener_Properties\<close> (\<^verbatim>\<open>syslog_server.cpp\<close>, accept loop of \<^verbatim>\<open>web_server.cpp\<close>): which lines
    reach the handler however the stream is cut; sockets and threads under every interleaving, that stop returns, and its races.
  \<^item> \<open>Shutdown\<close>, \<open>Shutdown_Properties\<close> (\<^verbatim>\<open>main.cpp\<close>, \<^verbatim>\<open>App::stop\<close>, \<^verbatim>\<open>App::wait\<close>): both servers, the cleanup thread and
    \<^verbatim>\<open>main\<close> together; after a signal \<^verbatim>\<open>main\<close> returns in every fair run, and then everything that is joined has ended;
    detached threads may outlive it.
  \<^item> \<open>Prometheus_Exporter\<close>, \<open>Prometheus_Properties\<close>, \<open>Web_Socket\<close>, \<open>Web_Server\<close>, \<open>Web_Properties\<close>, \<open>Web_Protocol\<close>
    (\<^verbatim>\<open>prometheus_exporter.cpp\<close>, \<^verbatim>\<open>web_server.cpp\<close>): the metrics page and every document read back as specified,
    requests without the token learn nothing, SHA-1 is the standard one, requests and answers survive the network,
    and what happens to broken WebSocket clients.
  \<^item> \<open>Collector\<close>, \<open>Collector_Properties\<close> (\<^verbatim>\<open>src/openwrt\<close>): the schedule of the loop, and a lease and a traffic
    line followed from the router through datagram, parser and application into the store.
  \<^item> \<open>Dashboard\<close>, \<open>Dashboard_Properties\<close> (\<^verbatim>\<open>web/static/app.js\<close>): the state of the page, the requests it makes answered by the model of
    the server, the accuracy of the rates it shows, and where its history and its source go wrong.
\<close>

text \<open>
  \<^bold>\<open>Interfaces.\<close> What a client uses of a part is a locale, interpreted on the definitions of the model: \<open>dictionary\<close>
  (association lists), \<open>rounding\<close> (\<open>fl\<close> with relative error at most one part in two to the 53), \<open>bounded_buffer\<close> (the ring buffer
  and the traffic history of a device), \<open>escaping\<close> (JSON strings and metric labels), and \<open>invariant_system\<close>, from which the
  invariants of the store, the application, the database, the whole system, the WebSocket registry, the two listeners and the process
  are obtained.

  \<^bold>\<open>Bounds and fuel.\<close> Loops are structural or have a termination proof; there is no fuel except in the JSON reader,
  whose fuel is the length of its text and enough for every document by \<open>read_json_text\<close>, and in the
  readers of headers and of metric labels (\<open>Web_Protocol\<close>, \<open>Prometheus_Properties\<close>), which the theorems about them give enough of. The loops that run as long as the program are given the list of what they read (flags, packets, times), and
  their theorems hold for all such lists; that stopping ends is proved with ranks that every step of a thread lowers.
  Exponents of doubles are not bounded; the rates that are computed stay far inside the range of a double.

  \<^bold>\<open>Not modelled.\<close> Installation, service definition and build scripts hold no logic of the program. In the dashboard the
  drawing on canvases, the creation of page elements, the reconnection of the WebSocket and the style sheet are left
  out, as their effect is in the browser only. Messages on standard error are left out. SQLite, the sockets, the file system and the tools of the router are outside:
  their answers are arguments, and all theorems hold for every answer unless a hypothesis says otherwise. Data races on plain
  integers are modelled where stop and the threads meet (\<open>Listeners\<close>), as one access per step; the rest of the memory
  model of the language is not. The pattern expansion of words by the shell is not modelled.
\<close>

end
